(* ===== verification/Tarwyn_Prelude.thy ===== *)
theory Tarwyn_Prelude
  imports Main "HOL-Library.Word" "HOL-Library.AList"
    "HOL-Library.Char_ord" "HOL-Library.List_Lexorder"
begin

text \<open>
  The prelude of the development: names for the machine integers of the Rust sources, byte
  strings and their big- and little-endian codes, hash maps as association lists behind an
  interface locale, the ordered maps of JSON objects, and the generic lemmas the components
  share.  Everything that computes is executable.

  Rust strings are UTF-8 byte strings.  They are modelled as \<^typ>\<open>string\<close>, whose characters
  are bytes, so that \<open>length\<close> is \<open>str::len\<close> and literals stay readable;
  \<open>str_bytes\<close> is \<open>as_bytes\<close>.
\<close>

unbundle bit_operations_syntax

named_theorems codec_simps \<open>round trips and lengths of the byte codes\<close>
named_theorems hm_simps \<open>lookup after an operation on a hash map\<close>

type_synonym u8 = "8 word"
type_synonym u16 = "16 word"
type_synonym u32 = "32 word"
type_synonym u64 = "64 word"
type_synonym bytes = "u8 list"

type_synonym ('e, 'a) result = "'e + 'a"

abbreviation Ok :: "'a \<Rightarrow> ('e, 'a) result" where "Ok \<equiv> Inr"
abbreviation Err :: "'e \<Rightarrow> ('e, 'a) result" where "Err \<equiv> Inl"

text \<open>The \<open>?\<close> operator: the first error ends the computation.\<close>

definition bind_res :: "('e, 'a) result \<Rightarrow> ('a \<Rightarrow> ('e, 'b) result) \<Rightarrow> ('e, 'b) result" where
  "bind_res x f = (case x of Inl e \<Rightarrow> Inl e | Inr a \<Rightarrow> f a)"

lemma bind_res_simps [simp]:
  "bind_res (Inl e) f = Inl e"
  "bind_res (Inr a) f = f a"
  by (simp_all add: bind_res_def)

lemma bind_res_Inr_conv: "bind_res x f = Inr b \<longleftrightarrow> (\<exists>a. x = Inr a \<and> f a = Inr b)"
  by (cases x) auto

lemma bind_res_Inl_conv:
  "bind_res x f = Inl e \<longleftrightarrow> x = Inl e \<or> (\<exists>a. x = Inr a \<and> f a = Inl e)"
  by (cases x) auto

lemma bind_res_cong [fundef_cong]:
  "x = y \<Longrightarrow> (\<And>a. y = Inr a \<Longrightarrow> f a = g a) \<Longrightarrow> bind_res x f = bind_res y g"
  by (cases y) auto

text \<open>\<open>Option::ok_or\<close> and \<open>Iterator::collect\<close> into an \<open>Option\<close>.\<close>

definition ok_or :: "'a option \<Rightarrow> 'e \<Rightarrow> ('e, 'a) result" where
  "ok_or x e = (case x of None \<Rightarrow> Inl e | Some a \<Rightarrow> Inr a)"

lemma ok_or_simps [simp]: "ok_or None e = Inl e" "ok_or (Some a) e = Inr a"
  by (simp_all add: ok_or_def)

definition or_else :: "'a option \<Rightarrow> 'a option \<Rightarrow> 'a option" where
  "or_else x y = (case x of None \<Rightarrow> y | Some a \<Rightarrow> Some a)"

lemma or_else_simps [simp]: "or_else None y = y" "or_else (Some a) y = Some a"
  by (simp_all add: or_else_def)

primrec collect_opt :: "('a \<Rightarrow> 'b option) \<Rightarrow> 'a list \<Rightarrow> 'b list option" where
  "collect_opt f [] = Some []"
| "collect_opt f (x # xs) =
     (case f x of None \<Rightarrow> None
      | Some y \<Rightarrow> (case collect_opt f xs of None \<Rightarrow> None | Some ys \<Rightarrow> Some (y # ys)))"

lemma collect_opt_map:
  "(\<And>x. x \<in> set xs \<Longrightarrow> f (g x) = Some (h x)) \<Longrightarrow> collect_opt f (map g xs) = Some (map h xs)"
  by (induction xs) auto

lemma collect_opt_None: "x \<in> set xs \<Longrightarrow> f x = None \<Longrightarrow> collect_opt f xs = None"
  by (induction xs) (auto split: option.splits)

lemma collect_opt_length: "collect_opt f xs = Some ys \<Longrightarrow> length ys = length xs"
  by (induction xs arbitrary: ys) (auto split: option.splits)

text \<open>\<open>filter_map\<close>.\<close>

definition filter_map :: "('a \<Rightarrow> 'b option) \<Rightarrow> 'a list \<Rightarrow> 'b list" where
  "filter_map f xs = List.map_filter f xs"

lemma filter_map_simps [simp]:
  "filter_map f [] = []"
  "filter_map f (x # xs) =
     (case f x of None \<Rightarrow> filter_map f xs | Some y \<Rightarrow> y # filter_map f xs)"
  by (simp_all add: filter_map_def map_filter_def split: option.splits)

lemma filter_map_append [simp]: "filter_map f (xs @ ys) = filter_map f xs @ filter_map f ys"
  by (simp add: filter_map_def map_filter_def)

lemma set_filter_map: "set (filter_map f xs) = {y. \<exists>x \<in> set xs. f x = Some y}"
  by (induction xs) (auto split: option.splits)

section \<open>Words\<close>

lemma unat_less_2p: "unat (w :: 'a::len word) < 2 ^ LENGTH('a)"
  by (rule unsigned_less)

lemma unat_of_nat_small: "n < 2 ^ LENGTH('a) \<Longrightarrow> unat (of_nat n :: 'a::len word) = n"
  by (simp add: unat_of_nat take_bit_nat_eq_self)

lemma unat_ucast_up:
  assumes "LENGTH('a::len) \<le> LENGTH('b::len)"
  shows "unat (ucast (w :: 'a word) :: 'b word) = unat w"
proof -
  have "unat w < 2 ^ LENGTH('b)"
    by (rule less_le_trans [OF unat_less_2p]) (use assms in \<open>simp add: power_increasing\<close>)
  then show ?thesis by (simp add: unsigned_ucast_eq take_bit_nat_eq_self_iff)
qed

lemma top_bit_int:
  assumes "0 \<le> (k::int)" and "k < 2 ^ Suc n"
  shows "bit k n \<longleftrightarrow> 2 ^ n \<le> k"
proof (cases "2 ^ n \<le> k")
  case True
  then have "k div 2 ^ n = 1"
    using assms by (intro int_div_pos_eq [where r = "k - 2 ^ n"]) auto
  with True show ?thesis by (simp add: bit_iff_odd)
next
  case False
  with assms show ?thesis by (simp add: bit_iff_odd div_pos_pos_trivial)
qed

text \<open>Two's complement, by cases on the sign.\<close>

lemma sint_cases:
  "sint (x :: 'a::len word) =
     (if 2 * uint x < 2 ^ LENGTH('a) then uint x else uint x - 2 ^ LENGTH('a))"
proof -
  obtain n where n: "LENGTH('a) = Suc n" by (cases "LENGTH('a)") simp_all
  have b: "0 \<le> uint x" "uint x < 2 ^ Suc n"
    using unsigned_less [of x, where ?'a = int] n by simp_all
  have "sint x = signed_take_bit n (uint x)" by (simp add: sint_uint n)
  also have "\<dots> = take_bit (Suc n) (uint x) - 2 ^ Suc n * of_bool (bit (uint x) n)"
    by (rule signed_take_bit_eq_take_bit_minus)
  also have "take_bit (Suc n) (uint x) = uint x" using b by (simp add: take_bit_int_eq_self)
  finally show ?thesis using top_bit_int [OF b] by (simp add: n)
qed

lemma sint_nonneg_iff: "0 \<le> sint (x :: 'a::len word) \<longleftrightarrow> 2 * unat x < 2 ^ LENGTH('a)"
proof -
  have lt: "uint x < 2 ^ LENGTH('a)" by (rule unsigned_less)
  have u: "2 * uint x < 2 ^ LENGTH('a) \<longleftrightarrow> 2 * unat x < 2 ^ LENGTH('a)"
  proof -
    have "2 * uint x < 2 ^ LENGTH('a) \<longleftrightarrow> int (2 * unat x) < int (2 ^ LENGTH('a))" by simp
    also have "\<dots> \<longleftrightarrow> 2 * unat x < 2 ^ LENGTH('a)" by (rule of_nat_less_iff)
    finally show ?thesis .
  qed
  have "0 \<le> uint x" by simp
  with lt show ?thesis unfolding u [symmetric] sint_cases by (simp add: not_le)
qed

text \<open>Narrowing a two's complement number (\<open>x as u8\<close>, \<open>x as i16\<close>).\<close>

lemma uint_ucast_sint:
  assumes "LENGTH('b::len) \<le> LENGTH('a::len)"
  shows "uint (ucast (x :: 'a word) :: 'b word) = sint x mod 2 ^ LENGTH('b)"
proof -
  have "take_bit LENGTH('b) (sint x) = take_bit LENGTH('b) (uint x)"
    using assms by (simp add: sint_uint take_bit_signed_take_bit)
  then show ?thesis by (simp add: unsigned_ucast_eq take_bit_eq_mod)
qed

section \<open>Byte codes\<close>

primrec le_bytes :: "nat \<Rightarrow> nat \<Rightarrow> bytes" where
  "le_bytes 0 v = []"
| "le_bytes (Suc n) v = of_nat (v mod 256) # le_bytes n (v div 256)"

primrec le_nat :: "bytes \<Rightarrow> nat" where
  "le_nat [] = 0"
| "le_nat (b # bs) = unat b + 256 * le_nat bs"

definition be_bytes :: "nat \<Rightarrow> nat \<Rightarrow> bytes" where
  "be_bytes n v = rev (le_bytes n v)"

definition be_nat :: "bytes \<Rightarrow> nat" where
  "be_nat bs = le_nat (rev bs)"

lemma unat_of_nat_u8: "unat (of_nat (v mod 256) :: u8) = v mod 256"
  by (simp add: unat_of_nat take_bit_eq_mod)

lemma length_le_bytes [simp, codec_simps]: "length (le_bytes n v) = n"
  by (induction n arbitrary: v) auto

lemma length_be_bytes [simp, codec_simps]: "length (be_bytes n v) = n"
  by (simp add: be_bytes_def)

lemma mod_256_split: "(v::nat) mod 256 + 256 * (v div 256 mod k) = v mod (256 * k)"
  by (simp add: mod_mult2_eq)

lemma le_nat_le_bytes: "le_nat (le_bytes n v) = v mod 256 ^ n"
proof (induction n arbitrary: v)
  case (Suc n)
  have "le_nat (le_bytes (Suc n) v) = v mod 256 + 256 * (v div 256 mod 256 ^ n)"
    using unat_of_nat_u8 [of v] by (simp add: Suc)
  then show ?case by (simp add: mod_256_split)
qed simp

lemma le_nat_le_bytes_id [codec_simps]: "v < 256 ^ n \<Longrightarrow> le_nat (le_bytes n v) = v"
  by (simp add: le_nat_le_bytes)

lemma be_nat_be_bytes_id [codec_simps]: "v < 256 ^ n \<Longrightarrow> be_nat (be_bytes n v) = v"
  by (simp add: be_nat_def be_bytes_def le_nat_le_bytes)

lemma le_nat_bound: "le_nat bs < 256 ^ length bs"
proof (induction bs)
  case (Cons b bs)
  have "unat b < 256" using unat_less_2p [of b] by simp
  with Cons show ?case by simp
qed simp

lemma be_nat_bound: "be_nat bs < 256 ^ length bs"
  using le_nat_bound [of "rev bs"] by (simp add: be_nat_def)

lemma le_bytes_le_nat [codec_simps]: "length bs = n \<Longrightarrow> le_bytes n (le_nat bs) = bs"
proof (induction bs arbitrary: n)
  case (Cons b bs)
  have b: "unat b < 256" using unat_less_2p [of b] by simp
  from Cons obtain m where m: "n = Suc m" "length bs = m" by auto
  have "(unat b + 256 * le_nat bs) mod 256 = unat b"
    and "(unat b + 256 * le_nat bs) div 256 = le_nat bs"
    using b by simp_all
  with Cons.IH [OF m(2)] m show ?case by simp
qed simp

lemma be_bytes_be_nat [codec_simps]: "length bs = n \<Longrightarrow> be_bytes n (be_nat bs) = bs"
  by (simp add: be_bytes_def be_nat_def le_bytes_le_nat)

text \<open>The byte codes at the widths the wire formats use.\<close>

abbreviation u16_be :: "u16 \<Rightarrow> bytes" where "u16_be w \<equiv> be_bytes 2 (unat w)"
abbreviation u32_be :: "u32 \<Rightarrow> bytes" where "u32_be w \<equiv> be_bytes 4 (unat w)"
abbreviation u64_be :: "u64 \<Rightarrow> bytes" where "u64_be w \<equiv> be_bytes 8 (unat w)"
abbreviation u16_le :: "u16 \<Rightarrow> bytes" where "u16_le w \<equiv> le_bytes 2 (unat w)"
abbreviation u32_le :: "u32 \<Rightarrow> bytes" where "u32_le w \<equiv> le_bytes 4 (unat w)"
abbreviation u64_le :: "u64 \<Rightarrow> bytes" where "u64_le w \<equiv> le_bytes 8 (unat w)"

lemma be_nat_words [simp, codec_simps]:
  "be_nat (u16_be a) = unat a" "be_nat (u32_be b) = unat b" "be_nat (u64_be c) = unat c"
  using unat_less_2p [of a] unat_less_2p [of b] unat_less_2p [of c]
  by (simp_all add: be_nat_be_bytes_id)

lemma le_nat_words [simp, codec_simps]:
  "le_nat (u16_le a) = unat a" "le_nat (u32_le b) = unat b" "le_nat (u64_le c) = unat c"
  using unat_less_2p [of a] unat_less_2p [of b] unat_less_2p [of c]
  by (simp_all add: le_nat_le_bytes_id)

text \<open>A Rust string's bytes, and back.\<close>

definition str_bytes :: "string \<Rightarrow> bytes" where
  "str_bytes s = map of_char s"

definition bytes_str :: "bytes \<Rightarrow> string" where
  "bytes_str bs = map (\<lambda>b. char_of (unat b)) bs"

lemma length_str_bytes [simp]: "length (str_bytes s) = length s"
  by (simp add: str_bytes_def)

lemma unat_of_char: "unat (of_char c :: u8) = of_char c"
proof -
  have "(of_char c :: u8) = of_nat (of_char c)" by (simp only: of_nat_of_char)
  then have "unat (of_char c :: u8) = of_char c mod 256"
    by (simp only: unat_of_nat) simp
  then show ?thesis by simp
qed

lemma bytes_str_str_bytes [simp, codec_simps]: "bytes_str (str_bytes s) = s"
  by (induction s) (simp_all add: str_bytes_def bytes_str_def unat_of_char)

lemma str_bytes_append [simp]: "str_bytes (s @ t) = str_bytes s @ str_bytes t"
  by (simp add: str_bytes_def)

text \<open>\<open>std::str::from_utf8\<close>: the well-formed byte sequences of Unicode (no overlong forms,
  no surrogates, nothing past U+10FFFF).\<close>

definition utf8_cont :: "u8 \<Rightarrow> bool" where
  "utf8_cont b \<longleftrightarrow> 0x80 \<le> b \<and> b \<le> 0xbf"

fun utf8_valid :: "bytes \<Rightarrow> bool" where
  "utf8_valid [] = True"
| "utf8_valid (b # bs) =
     (if b < 0x80 then utf8_valid bs
      else if 0xc2 \<le> b \<and> b \<le> 0xdf then
        (case bs of c # cs \<Rightarrow> utf8_cont c \<and> utf8_valid cs | _ \<Rightarrow> False)
      else if 0xe0 \<le> b \<and> b \<le> 0xef then
        (case bs of c # d # ds \<Rightarrow>
           (if b = 0xe0 then 0xa0 \<le> c \<and> c \<le> 0xbf
            else if b = 0xed then 0x80 \<le> c \<and> c \<le> 0x9f else utf8_cont c)
           \<and> utf8_cont d \<and> utf8_valid ds
         | _ \<Rightarrow> False)
      else if 0xf0 \<le> b \<and> b \<le> 0xf4 then
        (case bs of c # d # e # es \<Rightarrow>
           (if b = 0xf0 then 0x90 \<le> c \<and> c \<le> 0xbf
            else if b = 0xf4 then 0x80 \<le> c \<and> c \<le> 0x8f else utf8_cont c)
           \<and> utf8_cont d \<and> utf8_cont e \<and> utf8_valid es
         | _ \<Rightarrow> False)
      else False)"

definition from_utf8 :: "bytes \<Rightarrow> string option" where
  "from_utf8 bs = (if utf8_valid bs then Some (bytes_str bs) else None)"

text \<open>The strings a Rust \<open>String\<close> can hold.\<close>

definition is_str :: "string \<Rightarrow> bool" where
  "is_str s \<longleftrightarrow> utf8_valid (str_bytes s)"

lemma from_utf8_str_bytes [codec_simps]: "is_str s \<Longrightarrow> from_utf8 (str_bytes s) = Some s"
  by (simp add: from_utf8_def is_str_def)

definition starts_with :: "'a list \<Rightarrow> 'a list \<Rightarrow> bool" where
  "starts_with s p \<longleftrightarrow> take (length p) s = p"

lemma starts_with_append [simp]: "starts_with (p @ s) p"
  by (simp add: starts_with_def)

lemma starts_with_Nil [simp]: "starts_with s []"
  by (simp add: starts_with_def)

lemma starts_with_Cons [simp]:
  "starts_with (x # s) (y # p) \<longleftrightarrow> x = y \<and> starts_with s p"
  "\<not> starts_with [] (y # p)"
  by (auto simp: starts_with_def)

section \<open>Maps\<close>

text \<open>
  The interface every keyed container of the sources offers: Rust's \<open>HashMap\<close> (in any
  iteration order) and the ordered map of \<open>serde_json\<close>.  The lemmas below are proved once and
  hold of both.
\<close>

locale keyed_map =
  fixes lookup :: "'m \<Rightarrow> 'k \<Rightarrow> 'v option"
    and store :: "'m \<Rightarrow> 'k \<Rightarrow> 'v \<Rightarrow> 'm"
    and erase :: "'m \<Rightarrow> 'k \<Rightarrow> 'm"
    and nothing :: 'm
    and ok :: "'m \<Rightarrow> bool"
  assumes lookup_nothing: "lookup nothing k = None"
    and lookup_store: "ok m \<Longrightarrow> lookup (store m k v) k' = (if k' = k then Some v else lookup m k')"
    and lookup_erase: "ok m \<Longrightarrow> lookup (erase m k) k' = (if k' = k then None else lookup m k')"
    and ok_nothing: "ok nothing"
    and ok_store: "ok m \<Longrightarrow> ok (store m k v)"
    and ok_erase: "ok m \<Longrightarrow> ok (erase m k)"
begin

text \<open>A list of updates, \<open>None\<close> erasing a key, applied from left to right.\<close>

definition patch :: "('k \<times> 'v option) list \<Rightarrow> 'm \<Rightarrow> 'm" where
  "patch = fold (\<lambda>(k, w) m. case w of None \<Rightarrow> erase m k | Some v \<Rightarrow> store m k v)"

lemma ok_patch: "ok m \<Longrightarrow> ok (patch us m)"
  by (induction us arbitrary: m) (auto simp: patch_def ok_store ok_erase split: option.splits)

lemma lookup_patch_other: "ok m \<Longrightarrow> k \<notin> fst ` set us \<Longrightarrow> lookup (patch us m) k = lookup m k"
  by (induction us arbitrary: m)
    (auto simp: patch_def ok_store ok_erase lookup_store lookup_erase split: option.splits)

lemma lookup_patch:
  "ok m \<Longrightarrow> distinct (map fst us) \<Longrightarrow> (k, w) \<in> set us \<Longrightarrow> lookup (patch us m) k = w"
proof (induction us arbitrary: m)
  case (Cons u us)
  obtain k' w' where u: "u = (k', w')" by fastforce
  let ?m = "case w' of None \<Rightarrow> erase m k' | Some v \<Rightarrow> store m k' v"
  have okm: "ok ?m" using Cons.prems by (auto simp: ok_store ok_erase split: option.splits)
  have step: "patch (u # us) m = patch us ?m" by (simp add: patch_def u)
  show ?case
  proof (cases "(k, w) = u")
    case True
    with Cons.prems u have "k \<notin> fst ` set us" by auto
    then have "lookup (patch us ?m) k = lookup ?m k" by (rule lookup_patch_other [OF okm])
    also have "\<dots> = w"
      using True u Cons.prems(1) by (auto simp: lookup_store lookup_erase split: option.splits)
    finally show ?thesis by (simp add: step)
  next
    case False
    with Cons.prems have "(k, w) \<in> set us" "distinct (map fst us)" by auto
    from Cons.IH [OF okm this(2,1)] show ?thesis by (simp add: step)
  qed
qed simp

end

text \<open>
  A \<open>HashMap\<close> is an association list with distinct keys.  Its order stands for the map's
  iteration order, which Rust leaves unspecified.
\<close>

type_synonym ('k, 'v) hm = "('k \<times> 'v) list"

abbreviation hm_get :: "('k, 'v) hm \<Rightarrow> 'k \<Rightarrow> 'v option" where
  "hm_get \<equiv> map_of"

definition hm_insert :: "('k, 'v) hm \<Rightarrow> 'k \<Rightarrow> 'v \<Rightarrow> ('k, 'v) hm" where
  "hm_insert m k v = AList.update k v m"

definition hm_remove :: "('k, 'v) hm \<Rightarrow> 'k \<Rightarrow> ('k, 'v) hm" where
  "hm_remove m k = filter (\<lambda>(k', _). k' \<noteq> k) m"

definition hm_modify :: "('k, 'v) hm \<Rightarrow> 'k \<Rightarrow> ('v \<Rightarrow> 'v) \<Rightarrow> ('k, 'v) hm" where
  "hm_modify m k f = map (\<lambda>(k', v). if k' = k then (k', f v) else (k', v)) m"

definition hm_map :: "('v \<Rightarrow> 'v) \<Rightarrow> ('k, 'v) hm \<Rightarrow> ('k, 'v) hm" where
  "hm_map f m = map (\<lambda>(k, v). (k, f v)) m"

abbreviation hm_ok :: "('k, 'v) hm \<Rightarrow> bool" where
  "hm_ok m \<equiv> distinct (map fst m)"

abbreviation hm_has :: "('k, 'v) hm \<Rightarrow> 'k \<Rightarrow> bool" where
  "hm_has m k \<equiv> map_of m k \<noteq> None"

lemma hm_get_insert [simp, hm_simps]:
  "hm_get (hm_insert m k v) k' = (if k' = k then Some v else hm_get m k')"
  by (simp add: hm_insert_def update_conv')

lemma hm_get_remove [simp, hm_simps]:
  "hm_get (hm_remove m k) k' = (if k' = k then None else hm_get m k')"
  by (induction m) (auto simp: hm_remove_def)

lemma hm_get_modify [simp, hm_simps]:
  "hm_get (hm_modify m k f) k' = (if k' = k then map_option f (hm_get m k) else hm_get m k')"
  by (induction m) (auto simp: hm_modify_def)

lemma hm_get_map [simp, hm_simps]: "hm_get (hm_map f m) k = map_option f (hm_get m k)"
  by (induction m) (auto simp: hm_map_def)

lemma hm_ok_insert [simp]: "hm_ok m \<Longrightarrow> hm_ok (hm_insert m k v)"
  unfolding hm_insert_def by (rule distinct_update)

lemma keys_hm_insert: "fst ` set (hm_insert m k v) = insert k (fst ` set m)"
  unfolding hm_insert_def by (simp add: dom_update)

lemma hm_ok_remove [simp]: "hm_ok m \<Longrightarrow> hm_ok (hm_remove m k)"
  unfolding hm_remove_def by (rule distinct_map_filter)

lemma keys_hm_remove: "fst ` set (hm_remove m k) = fst ` set m - {k}"
  by (force simp: hm_remove_def)

lemma keys_hm_modify [simp]: "map fst (hm_modify m k f) = map fst m"
  by (induction m) (auto simp: hm_modify_def)

lemma keys_hm_map [simp]: "map fst (hm_map f m) = map fst m"
  by (induction m) (auto simp: hm_map_def)

lemma length_hm_modify [simp]: "length (hm_modify m k f) = length m"
  by (simp add: hm_modify_def)

lemma length_hm_insert:
  "length (hm_insert m k v) = (if hm_has m k then length m else Suc (length m))"
  by (induction m) (auto simp: hm_insert_def)

lemma hm_insert_fresh: "\<not> hm_has m k \<Longrightarrow> hm_insert m k v = m @ [(k, v)]"
  by (induction m) (auto simp: hm_insert_def split: if_splits)

lemma hm_remove_fresh: "\<not> hm_has m k \<Longrightarrow> hm_remove m k = m"
  by (induction m) (auto simp: hm_remove_def split: if_splits)

lemma hm_modify_fresh: "\<not> hm_has m k \<Longrightarrow> hm_modify m k f = m"
  by (induction m) (auto simp: hm_modify_def split: if_splits)

lemma hm_remove_Cons:
  "hm_remove (a # m) k = (if fst a = k then hm_remove m k else a # hm_remove m k)"
  by (auto simp: hm_remove_def split: prod.splits)

lemma length_hm_remove:
  "hm_ok m \<Longrightarrow> hm_has m k \<Longrightarrow> length m = Suc (length (hm_remove m k))"
proof (induction m)
  case (Cons a m)
  show ?case
  proof (cases "fst a = k")
    case True
    with Cons.prems have "\<not> hm_has m k" by (auto simp: map_of_eq_None_iff)
    then have "hm_remove m k = m" by (rule hm_remove_fresh)
    with True show ?thesis by (simp add: hm_remove_Cons)
  next
    case False
    with Cons show ?thesis by (cases a) (auto simp: hm_remove_Cons)
  qed
qed simp

lemma hm_has_keys: "hm_has m k \<longleftrightarrow> k \<in> fst ` set m"
  by (induction m) auto

lemma hm_get_mem: "hm_ok m \<Longrightarrow> hm_get m k = Some v \<longleftrightarrow> (k, v) \<in> set m"
  by (rule map_of_eq_Some_iff)

interpretation hashed: keyed_map hm_get hm_insert hm_remove "[]" hm_ok
  by unfold_locales auto

text \<open>The ordered map of \<open>serde_json\<close>: an association list sorted by key.\<close>

type_synonym ('k, 'v) om = "('k \<times> 'v) list"

fun om_insert :: "('k::linorder, 'v) om \<Rightarrow> 'k \<Rightarrow> 'v \<Rightarrow> ('k, 'v) om" where
  "om_insert [] k v = [(k, v)]"
| "om_insert ((k', v') # m) k v =
     (if k < k' then (k, v) # (k', v') # m
      else if k = k' then (k, v) # m else (k', v') # om_insert m k v)"

abbreviation om_get :: "('k, 'v) om \<Rightarrow> 'k \<Rightarrow> 'v option" where
  "om_get \<equiv> map_of"

abbreviation om_remove :: "('k, 'v) om \<Rightarrow> 'k \<Rightarrow> ('k, 'v) om" where
  "om_remove \<equiv> hm_remove"

abbreviation om_ok :: "('k::linorder, 'v) om \<Rightarrow> bool" where
  "om_ok m \<equiv> sorted_wrt (<) (map fst m)"

lemma om_get_insert [simp]: "om_get (om_insert m k v) k' = (if k' = k then Some v else om_get m k')"
  by (induction m k v rule: om_insert.induct) auto

lemma keys_om_insert: "fst ` set (om_insert m k v) = insert k (fst ` set m)"
  by (induction m k v rule: om_insert.induct) auto

lemma om_ok_insert [simp]: "om_ok m \<Longrightarrow> om_ok (om_insert m k v)"
proof (induction m k v rule: om_insert.induct)
  case (2 k' v' m k v)
  then show ?case using keys_om_insert [of m k v] by (fastforce simp: less_trans)
qed simp

lemma om_ok_remove [simp]: "om_ok m \<Longrightarrow> om_ok (om_remove m k)"
  by (induction m) (auto simp: hm_remove_def)

lemma om_ok_distinct: "om_ok m \<Longrightarrow> hm_ok m"
  by (induction m) auto

interpretation ordered: keyed_map om_get om_insert om_remove "[]" "om_ok :: (_::linorder, _) om \<Rightarrow> bool"
  by unfold_locales auto

end
