(* ===== verification/Rust_Float.thy ===== *)
theory Rust_Float
  imports Tarwyn_Prelude
begin

text \<open>
  The floating-point operations the sources use, on bit patterns: a Rust \<open>f32\<close> or
  \<open>f64\<close> is the word its \<open>to_bits\<close> returns.  Modelled are the \<open>as\<close> conversions
  (round to nearest, ties to even, NaNs quieted), and \<open>==\<close>.  The lemma
  \<open>f64_to_f32_to_f64\<close> is what the MessagePack decoder relies on when it widens and
  narrows the elements of a float array.
\<close>

type_synonym f32 = u32
type_synonym f64 = u64

text \<open>The number of significant bits.\<close>

fun bit_len :: "nat \<Rightarrow> nat" where
  "bit_len m = (if m = 0 then 0 else Suc (bit_len (m div 2)))"

declare bit_len.simps [simp del]

text \<open>\<open>m / 2\<^sup>s\<close> rounded to nearest, ties to even.\<close>

definition round_even :: "nat \<Rightarrow> nat \<Rightarrow> nat" where
  "round_even m s =
     (let q = m div 2 ^ s; r = m mod 2 ^ s in
      if 2 * r > 2 ^ s \<or> (2 * r = 2 ^ s \<and> odd q) then q + 1 else q)"

definition f64_of_magnitude :: "nat \<Rightarrow> nat" where
  "f64_of_magnitude m =
     (if m = 0 then 0
      else let l = bit_len m;
               q = (if l \<le> 53 then m * 2 ^ (53 - l) else round_even m (l - 53))
           in (l + 1021) * 2 ^ 52 + q)"

text \<open>\<open>u64 as f64\<close> and \<open>i64 as f64\<close>; the narrower integers go through these.\<close>

definition u64_to_f64 :: "u64 \<Rightarrow> f64" where
  "u64_to_f64 x = of_nat (f64_of_magnitude (unat x))"

definition i64_to_f64 :: "u64 \<Rightarrow> f64" where
  "i64_to_f64 x =
     (if sint x < 0 then of_nat (2 ^ 63 + f64_of_magnitude (nat (- sint x)))
      else of_nat (f64_of_magnitude (nat (sint x))))"

text \<open>\<open>f64::from(f32)\<close>, exact but for the quieting of a NaN.\<close>

definition f32_to_f64 :: "f32 \<Rightarrow> f64" where
  "f32_to_f64 x =
     (let n = unat x; s = n div 2 ^ 31; e = n div 2 ^ 23 mod 256; f = n mod 2 ^ 23;
          m = (if e = 255 then
                 (if f = 0 then 2047 * 2 ^ 52
                  else 2047 * 2 ^ 52 + (if f < 2 ^ 22 then f + 2 ^ 22 else f) * 2 ^ 29)
               else if e = 0 then
                 (if f = 0 then 0
                  else let k = bit_len f - 1 in (k + 874) * 2 ^ 52 + (f - 2 ^ k) * 2 ^ (52 - k))
               else (e + 896) * 2 ^ 52 + f * 2 ^ 29)
      in of_nat (s * 2 ^ 63 + m))"

text \<open>\<open>f64 as f32\<close>.\<close>

definition f64_to_f32 :: "f64 \<Rightarrow> f32" where
  "f64_to_f32 x =
     (let n = unat x; s = n div 2 ^ 63; e = n div 2 ^ 52 mod 2048; f = n mod 2 ^ 52;
          m = (if e = 2047 then
                 (if f = 0 then 255 * 2 ^ 23
                  else 255 * 2 ^ 23 + (if f < 2 ^ 51 then f + 2 ^ 51 else f) div 2 ^ 29)
               else if e = 0 then 0
               else if e > 1150 then 255 * 2 ^ 23
               else if e \<ge> 897 then (e - 897) * 2 ^ 23 + round_even (2 ^ 52 + f) 29
               else round_even (2 ^ 52 + f) (29 + (897 - e)))
      in of_nat (s * 2 ^ 31 + m))"

definition f32_is_nan :: "f32 \<Rightarrow> bool" where
  "f32_is_nan x \<longleftrightarrow> unat x mod 2 ^ 31 > 255 * 2 ^ 23"

definition f64_is_nan :: "f64 \<Rightarrow> bool" where
  "f64_is_nan x \<longleftrightarrow> unat x mod 2 ^ 63 > 2047 * 2 ^ 52"

text \<open>\<open>==\<close>: a NaN equals nothing, and the two zeros are equal.\<close>

definition f32_eq :: "f32 \<Rightarrow> f32 \<Rightarrow> bool" where
  "f32_eq a b \<longleftrightarrow> \<not> f32_is_nan a \<and> \<not> f32_is_nan b \<and>
     (a = b \<or> (unat a mod 2 ^ 31 = 0 \<and> unat b mod 2 ^ 31 = 0))"

definition f64_eq :: "f64 \<Rightarrow> f64 \<Rightarrow> bool" where
  "f64_eq a b \<longleftrightarrow> \<not> f64_is_nan a \<and> \<not> f64_is_nan b \<and>
     (a = b \<or> (unat a mod 2 ^ 63 = 0 \<and> unat b mod 2 ^ 63 = 0))"

section \<open>Narrowing undoes widening\<close>

lemma bit_len_bounds: "m > 0 \<Longrightarrow> 2 ^ (bit_len m - 1) \<le> m \<and> m < 2 ^ bit_len m \<and> bit_len m > 0"
proof (induction m rule: bit_len.induct)
  case (1 m)
  show ?case
  proof (cases "m div 2 = 0")
    case True
    with "1.prems" have "m = 1" by simp
    then show ?thesis by (simp add: bit_len.simps)
  next
    case False
    with 1 have IH: "2 ^ (bit_len (m div 2) - 1) \<le> m div 2" "m div 2 < 2 ^ bit_len (m div 2)"
      "bit_len (m div 2) > 0"
      by auto
    obtain k where k: "bit_len (m div 2) = Suc k" using IH(3) by (cases "bit_len (m div 2)") auto
    have "bit_len m = Suc (Suc k)" using "1.prems" k by (simp add: bit_len.simps [of m])
    moreover have "2 * 2 ^ k \<le> m" using IH(1) k by simp
    moreover have "m < 2 * 2 ^ Suc k" using IH(2) k by simp
    ultimately show ?thesis by simp
  qed
qed

lemma round_even_exact: "round_even (q * 2 ^ s) s = q"
  by (simp add: round_even_def)

lemma f64_split:
  assumes "s < 2" and "e < 2048" and "f < 2 ^ 52"
  defines "n \<equiv> s * 2 ^ 63 + (e * 2 ^ 52 + f :: nat)"
  shows "n < 2 ^ 64" and "n div 2 ^ 63 = s" and "n div 2 ^ 52 mod 2048 = e" and "n mod 2 ^ 52 = f"
proof -
  have n: "n = (s * 2048 + e) * 2 ^ 52 + f" unfolding n_def by simp
  have "(s * 2048 + e) * 2 ^ 52 + f < (s * 2048 + e) * 2 ^ 52 + 2 ^ 52" using assms(3) by simp
  also have "\<dots> \<le> 4096 * 2 ^ 52" using assms(1,2) by simp
  finally show "n < 2 ^ 64" by (simp add: n)
  have d: "n div 2 ^ 52 = s * 2048 + e" unfolding n using assms(3) by simp
  show "n div 2 ^ 52 mod 2048 = e" unfolding d using assms(2) by simp
  have "n div 2 ^ 63 = n div 2 ^ 52 div 2048" by (simp add: div_mult2_eq [symmetric])
  then show "n div 2 ^ 63 = s" unfolding d using assms(2) by simp
  show "n mod 2 ^ 52 = f" unfolding n mod_mult_self3 using assms(3) by (rule mod_less)
qed

lemma f32_split:
  fixes n :: nat
  assumes "n < 2 ^ 32"
  shows "n = n div 2 ^ 31 * 2 ^ 31 + (n div 2 ^ 23 mod 256 * 2 ^ 23 + n mod 2 ^ 23)"
    and "n div 2 ^ 31 < 2" and "n div 2 ^ 23 mod 256 < 256" and "n mod 2 ^ 23 < 2 ^ 23"
proof -
  have "n mod (2 ^ 23 * 256) = 2 ^ 23 * (n div 2 ^ 23 mod 256) + n mod 2 ^ 23"
    by (rule mod_mult2_eq)
  then have "n mod 2 ^ 31 = n div 2 ^ 23 mod 256 * 2 ^ 23 + n mod 2 ^ 23" by simp
  then show "n = n div 2 ^ 31 * 2 ^ 31 + (n div 2 ^ 23 mod 256 * 2 ^ 23 + n mod 2 ^ 23)"
    using div_mult_mod_eq [of n "2 ^ 31"] by presburger
  show "n div 2 ^ 31 < 2" using assms by (intro less_mult_imp_div_less) simp
qed simp_all

text \<open>The pattern of a widened number, by its sign, exponent and fraction fields.\<close>

lemma f64_to_f32_fields:
  assumes "s < 2" and "e < 2047" and "f < 2 ^ 52" and "897 \<le> e" and "e \<le> 1150"
  shows "f64_to_f32 (of_nat (s * 2 ^ 63 + (e * 2 ^ 52 + f))) =
    of_nat (s * 2 ^ 31 + ((e - 897) * 2 ^ 23 + round_even (2 ^ 52 + f) 29))"
proof -
  note sp = f64_split [of s e f]
  have "unat (of_nat (s * 2 ^ 63 + (e * 2 ^ 52 + f)) :: u64) = s * 2 ^ 63 + (e * 2 ^ 52 + f)"
    using assms sp(1) by (intro unat_of_nat_small) simp
  with assms sp show ?thesis by (simp add: f64_to_f32_def Let_def)
qed

lemma f64_to_f32_fields_subnormal:
  assumes "s < 2" and "f < 2 ^ 52" and "0 < e" and "e < 897"
  shows "f64_to_f32 (of_nat (s * 2 ^ 63 + (e * 2 ^ 52 + f))) =
    of_nat (s * 2 ^ 31 + round_even (2 ^ 52 + f) (29 + (897 - e)))"
proof -
  note sp = f64_split [of s e f]
  have "unat (of_nat (s * 2 ^ 63 + (e * 2 ^ 52 + f)) :: u64) = s * 2 ^ 63 + (e * 2 ^ 52 + f)"
    using assms sp(1) by (intro unat_of_nat_small) simp
  with assms sp show ?thesis by (simp add: f64_to_f32_def Let_def)
qed

lemma f32_to_f64_normal:
  assumes "s < 2" and "0 < e" and "e < 255" and "f < 2 ^ 23"
  shows "f64_to_f32 (of_nat (s * 2 ^ 63 + ((e + 896) * 2 ^ 52 + f * 2 ^ 29))) =
    of_nat (s * 2 ^ 31 + (e * 2 ^ 23 + f))"
proof -
  have f: "f * 2 ^ 29 < 2 ^ 52"
    using mult_strict_right_mono [OF assms(4), of "2 ^ 29"] by simp
  have "2 ^ 52 + f * 2 ^ 29 = (2 ^ 23 + f) * (2 ^ 29 :: nat)" by (simp add: algebra_simps)
  then have r: "round_even (2 ^ 52 + f * 2 ^ 29) 29 = 2 ^ 23 + f" by (simp only: round_even_exact)
  have "(e + 896 - 897) * 2 ^ 23 + (2 ^ 23 + f) = e * 2 ^ 23 + f"
    using assms(2) by (cases e) simp_all
  with f64_to_f32_fields [of s "e + 896" "f * 2 ^ 29"] assms f show ?thesis
    by (simp only: r)
qed

lemma f32_to_f64_subnormal:
  assumes "s < 2" and "0 < f" and "f < 2 ^ 23"
  defines "k \<equiv> bit_len f - 1"
  shows "f64_to_f32 (of_nat (s * 2 ^ 63 + ((k + 874) * 2 ^ 52 + (f - 2 ^ k) * 2 ^ (52 - k)))) =
    of_nat (s * 2 ^ 31 + f)"
proof -
  from bit_len_bounds [OF assms(2)] have k: "2 ^ k \<le> f" "f < 2 ^ Suc k"
    unfolding k_def by auto
  have "k < 23"
  proof (rule ccontr)
    assume "\<not> k < 23"
    then have "(2::nat) ^ 23 \<le> 2 ^ k" by (intro power_increasing) simp_all
    with k(1) assms(3) show False by linarith
  qed
  have p: "(2::nat) ^ k * 2 ^ (52 - k) = 2 ^ 52" using \<open>k < 23\<close> by (simp add: power_add [symmetric])
  have lt: "f - 2 ^ k < 2 ^ k" using k by simp
  have "(f - 2 ^ k) * 2 ^ (52 - k) < 2 ^ k * 2 ^ (52 - k)"
    using lt by simp
  then have g: "(f - 2 ^ k) * 2 ^ (52 - k) < 2 ^ 52" by (simp only: p)
  have "2 ^ 52 + (f - 2 ^ k) * 2 ^ (52 - k) = (2 ^ k + (f - 2 ^ k)) * 2 ^ (52 - k)"
    by (simp only: add_mult_distrib p)
  then have "2 ^ 52 + (f - 2 ^ k) * 2 ^ (52 - k) = f * 2 ^ (52 - k)"
    using k(1) by (simp only: le_add_diff_inverse)
  then have r: "round_even (2 ^ 52 + (f - 2 ^ k) * 2 ^ (52 - k)) (52 - k) = f"
    by (simp only: round_even_exact)
  have e: "29 + (897 - (k + 874)) = 52 - k" using \<open>k < 23\<close> by simp
  show ?thesis
    using f64_to_f32_fields_subnormal [OF assms(1) g, of "k + 874"] \<open>k < 23\<close> by (simp only: e r)
qed

theorem f64_to_f32_to_f64:
  assumes "\<not> f32_is_nan x"
  shows "f64_to_f32 (f32_to_f64 x) = x"
proof -
  define n where "n = unat x"
  define s where "s = n div 2 ^ 31"
  define e where "e = n div 2 ^ 23 mod 256"
  define f where "f = n mod 2 ^ 23"
  have "n < 2 ^ 32" using unat_less_2p [of x] by (simp add: n_def)
  note sp = f32_split [OF this, folded s_def e_def f_def]
  have x: "x = of_nat (s * 2 ^ 31 + (e * 2 ^ 23 + f))"
    by (simp only: sp(1) [symmetric] n_def of_nat_unat ucast_id)
  have fields: "f32_to_f64 x = of_nat (s * 2 ^ 63 +
      (if e = 255 then (if f = 0 then 2047 * 2 ^ 52
         else 2047 * 2 ^ 52 + (if f < 2 ^ 22 then f + 2 ^ 22 else f) * 2 ^ 29)
       else if e = 0 then (if f = 0 then 0
         else let k = bit_len f - 1 in (k + 874) * 2 ^ 52 + (f - 2 ^ k) * 2 ^ (52 - k))
       else (e + 896) * 2 ^ 52 + f * 2 ^ 29))"
    by (simp only: f32_to_f64_def Let_def n_def s_def e_def f_def)
  consider "e = 255" | "e = 0" "f = 0" | "e = 0" "f > 0" | "0 < e" "e < 255"
    using sp(3) by fastforce
  then show ?thesis
  proof cases
    case 1
    have "n mod 2 ^ 31 = e * 2 ^ 23 + f"
      using sp by (simp add: mod_mult2_eq [of n "2 ^ 23" 256, simplified] e_def f_def)
    then have "f = 0" using assms 1 by (simp add: f32_is_nan_def n_def [symmetric])
    have sp64: "n' < 2 ^ 64 \<and> n' div 2 ^ 63 = s \<and> n' div 2 ^ 52 mod 2048 = 2047 \<and> n' mod 2 ^ 52 = 0"
      if "n' = s * 2 ^ 63 + 2047 * 2 ^ 52" for n' :: nat
      using f64_split [OF sp(2), of 2047 0] that by simp
    have "unat (of_nat (s * 2 ^ 63 + 2047 * 2 ^ 52) :: u64) = s * 2 ^ 63 + 2047 * 2 ^ 52"
      using sp64 [OF refl] by (intro unat_of_nat_small) simp
    then have "f64_to_f32 (of_nat (s * 2 ^ 63 + 2047 * 2 ^ 52)) = of_nat (s * 2 ^ 31 + 255 * 2 ^ 23)"
      using sp64 [OF refl] by (simp only: f64_to_f32_def Let_def) simp
    with 1 \<open>f = 0\<close> fields x show ?thesis by simp
  next
    case 2
    have "s = 0 \<or> s = 1" using sp(2) by auto
    then have "f64_to_f32 (of_nat (s * 2 ^ 63)) = of_nat (s * 2 ^ 31)"
      by (auto simp: f64_to_f32_def)
    with 2 fields x show ?thesis by simp
  next
    case 3
    with f32_to_f64_subnormal [OF sp(2) 3(2) sp(4)] fields x show ?thesis by (simp add: Let_def)
  next
    case 4
    with f32_to_f64_normal [OF sp(2) 4 sp(4)] fields x show ?thesis by simp
  qed
qed

end
