(* ===== verification/Tarwyn_Value.thy ===== *)
theory Tarwyn_Value
  imports Rust_Float
begin

text \<open>
  The value type every transport carries (\<^verbatim>\<open>core/src/value.rs\<close>) and the NT4 table of
  numeric data types (\<^verbatim>\<open>core/src/websocket/protocol/datatype.rs\<close>).  A signed or unsigned
  integer of \<open>w\<close> bits is a \<open>w word\<close>, read by \<open>sint\<close> or \<open>unat\<close>; floats are
  their bit patterns.  The lemmas say that a value's own type is always representable, that
  type names and numbers agree, and what reshaping a value to a declared type can do.
\<close>

datatype nt_value =
    VInt8 u8 | VInt16 u16 | VInt32 u32 | VInt64 u64
  | VUint8 u8 | VUint16 u16 | VUint32 u32 | VUint64 u64
  | VFloat f32 | VDouble f64 | VString string | VBool bool | VBytes bytes
  | VInt8Array "u8 list" | VInt16Array "u16 list" | VInt32Array "u32 list" | VInt64Array "u64 list"
  | VUint8Array "u8 list" | VUint16Array "u16 list" | VUint32Array "u32 list"
  | VUint64Array "u64 list"
  | VFloatArray "f32 list" | VDoubleArray "f64 list" | VStringArray "string list"
  | VBoolArray "bool list"
  | VBytesList bytes | VCoordinate bytes | VBezier bytes

section \<open>The data type table\<close>

fun xt_data_type :: "nt_value \<Rightarrow> u32" where
  "xt_data_type (VBool _) = 0"
| "xt_data_type (VDouble _) = 1"
| "xt_data_type (VFloat _) = 3"
| "xt_data_type (VInt8 _) = 2"
| "xt_data_type (VUint8 _) = 2"
| "xt_data_type (VBoolArray _) = 16"
| "xt_data_type (VDoubleArray _) = 17"
| "xt_data_type (VFloatArray _) = 19"
| "xt_data_type (VStringArray _) = 20"
| "xt_data_type (VString _) = 4"
| "xt_data_type (VBytes _) = 5"
| "xt_data_type (VBytesList _) = 5"
| "xt_data_type (VCoordinate _) = 5"
| "xt_data_type (VBezier _) = 5"
| "xt_data_type (VInt16 _) = 2"
| "xt_data_type (VUint16 _) = 2"
| "xt_data_type (VInt32 _) = 2"
| "xt_data_type (VUint32 _) = 2"
| "xt_data_type (VInt64 _) = 2"
| "xt_data_type (VUint64 _) = 2"
| "xt_data_type (VInt8Array _) = 18"
| "xt_data_type (VUint8Array _) = 18"
| "xt_data_type (VInt16Array _) = 18"
| "xt_data_type (VUint16Array _) = 18"
| "xt_data_type (VInt32Array _) = 18"
| "xt_data_type (VUint32Array _) = 18"
| "xt_data_type (VInt64Array _) = 18"
| "xt_data_type (VUint64Array _) = 18"

definition type_string :: "u32 \<Rightarrow> string option" where
  "type_string data_type =
     (if data_type = 0 then Some ''boolean''
      else if data_type = 1 then Some ''double''
      else if data_type = 2 then Some ''int''
      else if data_type = 3 then Some ''float''
      else if data_type = 4 then Some ''string''
      else if data_type = 5 then Some ''raw''
      else if data_type = 16 then Some ''boolean[]''
      else if data_type = 17 then Some ''double[]''
      else if data_type = 18 then Some ''int[]''
      else if data_type = 19 then Some ''float[]''
      else if data_type = 20 then Some ''string[]''
      else None)"

definition data_type_from_string :: "string \<Rightarrow> u32" where
  "data_type_from_string s =
     (if s = ''boolean'' then 0
      else if s = ''double'' then 1
      else if s = ''int'' then 2
      else if s = ''float'' then 3
      else if s = ''string'' \<or> s = ''json'' then 4
      else if s = ''boolean[]'' then 16
      else if s = ''double[]'' then 17
      else if s = ''int[]'' then 18
      else if s = ''float[]'' then 19
      else if s = ''string[]'' then 20
      else 5)"

lemma type_string_xt_data_type: "type_string (xt_data_type v) \<noteq> None"
  by (cases v) (simp_all add: type_string_def)

lemma data_type_from_string_table [simp]:
  "data_type_from_string ''boolean'' = 0" "data_type_from_string ''double'' = 1"
  "data_type_from_string ''int'' = 2" "data_type_from_string ''float'' = 3"
  "data_type_from_string ''string'' = 4" "data_type_from_string ''json'' = 4"
  "data_type_from_string ''raw'' = 5" "data_type_from_string ''msgpack'' = 5"
  "data_type_from_string ''boolean[]'' = 16" "data_type_from_string ''double[]'' = 17"
  "data_type_from_string ''int[]'' = 18" "data_type_from_string ''float[]'' = 19"
  "data_type_from_string ''string[]'' = 20"
  by (simp_all add: data_type_from_string_def)

lemma data_type_from_type_string: "type_string d = Some s \<Longrightarrow> data_type_from_string s = d"
  unfolding type_string_def by (clarsimp split: if_splits simp del: list.inject)

lemma type_string_data_type_from_string: "\<exists>s'. type_string (data_type_from_string s) = Some s'"
  by (auto simp: type_string_def data_type_from_string_def)

section \<open>Reading a value\<close>

fun as_i64 :: "nt_value \<Rightarrow> u64 option" where
  "as_i64 (VInt8 v) = Some (scast v)"
| "as_i64 (VInt16 v) = Some (scast v)"
| "as_i64 (VInt32 v) = Some (scast v)"
| "as_i64 (VInt64 v) = Some v"
| "as_i64 _ = None"

fun as_u64 :: "nt_value \<Rightarrow> u64 option" where
  "as_u64 (VUint8 v) = Some (ucast v)"
| "as_u64 (VUint16 v) = Some (ucast v)"
| "as_u64 (VUint32 v) = Some (ucast v)"
| "as_u64 (VUint64 v) = Some v"
| "as_u64 _ = None"

fun as_f64 :: "nt_value \<Rightarrow> f64 option" where
  "as_f64 (VFloat v) = Some (f32_to_f64 v)"
| "as_f64 (VDouble v) = Some v"
| "as_f64 _ = None"

fun as_string :: "nt_value \<Rightarrow> string option" where
  "as_string (VString v) = Some v"
| "as_string _ = None"

fun as_bool :: "nt_value \<Rightarrow> bool option" where
  "as_bool (VBool v) = Some v"
| "as_bool _ = None"

text \<open>\<open>u64::try_from(i64)\<close> fails on a negative number.\<close>

definition as_u64_any :: "nt_value \<Rightarrow> u64 option" where
  "as_u64_any v = or_else (as_u64 v)
     (case as_i64 v of None \<Rightarrow> None | Some x \<Rightarrow> if 0 \<le> sint x then Some x else None)"

section \<open>Reshaping a value\<close>

fun widened :: "nt_value \<Rightarrow> nt_value" where
  "widened (VInt8 v) = VInt32 (scast v)"
| "widened (VInt16 v) = VInt32 (scast v)"
| "widened (VUint8 v) = VUint32 (ucast v)"
| "widened (VUint16 v) = VUint32 (ucast v)"
| "widened (VInt8Array v) = VInt32Array (map scast v)"
| "widened (VInt16Array v) = VInt32Array (map scast v)"
| "widened (VUint8Array v) = VUint32Array (map ucast v)"
| "widened (VUint16Array v) = VUint32Array (map ucast v)"
| "widened v = v"

fun conformed_integers :: "nt_value \<Rightarrow> f64 list option" where
  "conformed_integers (VInt8Array v) = Some (map (\<lambda>x. i64_to_f64 (scast x)) v)"
| "conformed_integers (VInt16Array v) = Some (map (\<lambda>x. i64_to_f64 (scast x)) v)"
| "conformed_integers (VInt32Array v) = Some (map (\<lambda>x. i64_to_f64 (scast x)) v)"
| "conformed_integers (VInt64Array v) = Some (map i64_to_f64 v)"
| "conformed_integers (VUint8Array v) = Some (map (\<lambda>x. u64_to_f64 (ucast x)) v)"
| "conformed_integers (VUint16Array v) = Some (map (\<lambda>x. u64_to_f64 (ucast x)) v)"
| "conformed_integers (VUint32Array v) = Some (map (\<lambda>x. u64_to_f64 (ucast x)) v)"
| "conformed_integers (VUint64Array v) = Some (map u64_to_f64 v)"
| "conformed_integers (VFloatArray v) = Some (map f32_to_f64 v)"
| "conformed_integers (VDoubleArray v) = Some v"
| "conformed_integers _ = None"

definition conformed :: "nt_value \<Rightarrow> u32 \<Rightarrow> nt_value" where
  "conformed v data_type =
     (if xt_data_type v = data_type then v
      else
        let empty = (v = VDoubleArray []);
            number = or_else (or_else (as_f64 v) (map_option i64_to_f64 (as_i64 v)))
                       (map_option u64_to_f64 (as_u64 v))
        in if data_type = 1 then (case number of None \<Rightarrow> v | Some x \<Rightarrow> VDouble x)
           else if data_type = 3 then (case number of None \<Rightarrow> v | Some x \<Rightarrow> VFloat (f64_to_f32 x))
           else if data_type = 16 \<and> empty then VBoolArray []
           else if data_type = 18 \<and> empty then VInt64Array []
           else if data_type = 20 \<and> empty then VStringArray []
           else if data_type = 17 then
             (case conformed_integers v of None \<Rightarrow> v | Some xs \<Rightarrow> VDoubleArray xs)
           else if data_type = 19 then
             (case conformed_integers v of None \<Rightarrow> v | Some xs \<Rightarrow> VFloatArray (map f64_to_f32 xs))
           else v)"

lemma conformed_id: "xt_data_type v = d \<Longrightarrow> conformed v d = v"
  by (simp add: conformed_def)



lemma widened_type: "xt_data_type (widened v) = xt_data_type v"
  by (cases v) auto

lemma widened_widened: "widened (widened v) = widened v"
  by (cases v) auto

end
