(* ===== verification/Json_Model.thy ===== *)
theory Json_Model
  imports Rust_Float
begin

text \<open>
  The document model of \<open>serde_json\<close> that the sources match on: the constructors of
  \<open>serde_json::Value\<close>, the three kinds of \<open>Number\<close> (a non-negative integer, a negative
  integer, a float) and the accessors the sources call, as that crate documents them.  An object
  is the crate's ordered map.  Parsing and printing text are not modelled: where a definition
  needs them they are its arguments.
\<close>

datatype jnumber = PosInt u64 | NegInt u64 | JFloat f64

datatype json =
    JNull
  | JBool bool
  | JNumber jnumber
  | JString string
  | JArray "json list"
  | JObject "(string \<times> json) list"

type_synonym jmap = "(string, json) om"

fun num_as_i64 :: "jnumber \<Rightarrow> u64 option" where
  "num_as_i64 (PosInt n) = (if unat n < 2 ^ 63 then Some n else None)"
| "num_as_i64 (NegInt i) = Some i"
| "num_as_i64 (JFloat _) = None"

fun num_as_u64 :: "jnumber \<Rightarrow> u64 option" where
  "num_as_u64 (PosInt n) = Some n"
| "num_as_u64 _ = None"

fun num_as_f64 :: "jnumber \<Rightarrow> f64 option" where
  "num_as_f64 (PosInt n) = Some (u64_to_f64 n)"
| "num_as_f64 (NegInt i) = Some (i64_to_f64 i)"
| "num_as_f64 (JFloat f) = Some f"

fun json_as_bool :: "json \<Rightarrow> bool option" where
  "json_as_bool (JBool b) = Some b"
| "json_as_bool _ = None"

fun json_as_str :: "json \<Rightarrow> string option" where
  "json_as_str (JString s) = Some s"
| "json_as_str _ = None"

fun json_as_object :: "json \<Rightarrow> jmap option" where
  "json_as_object (JObject m) = Some m"
| "json_as_object _ = None"

fun json_as_array :: "json \<Rightarrow> json list option" where
  "json_as_array (JArray a) = Some a"
| "json_as_array _ = None"

fun json_as_i64 :: "json \<Rightarrow> u64 option" where
  "json_as_i64 (JNumber n) = num_as_i64 n"
| "json_as_i64 _ = None"

fun json_as_f64 :: "json \<Rightarrow> f64 option" where
  "json_as_f64 (JNumber n) = num_as_f64 n"
| "json_as_f64 _ = None"

text \<open>\<open>Value::get\<close> with a string index: a member of an object.\<close>

fun json_get :: "json \<Rightarrow> string \<Rightarrow> json option" where
  "json_get (JObject m) k = om_get m k"
| "json_get _ k = None"

text \<open>\<open>json!\<close> and \<open>Json::from\<close> on numbers: a float that is not finite becomes null.\<close>

definition json_u64 :: "u64 \<Rightarrow> json" where
  "json_u64 n = JNumber (PosInt n)"

definition json_u32 :: "u32 \<Rightarrow> json" where
  "json_u32 n = JNumber (PosInt (ucast n))"

definition json_i64 :: "u64 \<Rightarrow> json" where
  "json_i64 i = JNumber (if sint i < 0 then NegInt i else PosInt i)"

definition f64_is_finite :: "f64 \<Rightarrow> bool" where
  "f64_is_finite x \<longleftrightarrow> unat x mod 2 ^ 63 < 2047 * 2 ^ 52"

definition json_f64 :: "f64 \<Rightarrow> json" where
  "json_f64 x = (if f64_is_finite x then JNumber (JFloat x) else JNull)"

definition json_f32 :: "f32 \<Rightarrow> json" where
  "json_f32 x = json_f64 (f32_to_f64 x)"

lemma json_as_i64_json_i64 [simp]: "json_as_i64 (json_i64 i) = Some i"
proof -
  have "unat i < 2 ^ 63" if "\<not> sint i < 0"
    using that sint_nonneg_iff [of i] by (simp add: not_less)
  then show ?thesis by (simp add: json_i64_def)
qed

end
