(* ===== verification/Msgpack.thy ===== *)
theory Msgpack
  imports Tarwyn_Value Json_Model
begin

text \<open>
  The MessagePack codec (\<^verbatim>\<open>core/src/websocket/msgpack.rs\<close>).  An encoder appends to a
  buffer in the source; here it returns the bytes it appends.  A decoder returns the value and the
  number of bytes it consumed, or the first error, and recurses into nested arrays up to
  \<open>MAX_DEPTH\<close>, which is its termination measure.  The theorems are the round trip of every
  encodable value, with the shape it comes back in, the bound on nesting, and what a decoder may
  consume.
\<close>

definition MAX_DEPTH :: nat where "MAX_DEPTH = 16"

datatype mp_error =
    UnexpectedEof | TrailingBytes | Unsupported u8 | MixedArray | NotAnArray | TooDeep
  | WrongArrayLen nat nat | NotAnInteger | OutOfRange string | InvalidUtf8

section \<open>Encoding\<close>

definition encode_array_header :: "nat \<Rightarrow> (mp_error, bytes) result" where
  "encode_array_header len =
     (if len \<le> 0x0f then Ok [0x90 OR of_nat len]
      else if len \<le> 0xffff then Ok (0xdc # be_bytes 2 len)
      else if len \<le> 0xffffffff then Ok (0xdd # be_bytes 4 len)
      else Err (OutOfRange ''array length''))"

definition encode_i64 :: "u64 \<Rightarrow> bytes" where
  "encode_i64 x =
     (if (0 \<le> sint x \<and> sint x \<le> 0x7f) \<or> (- 32 \<le> sint x \<and> sint x \<le> - 1) then [ucast x]
      else if - 128 \<le> sint x \<and> sint x \<le> 127 then [0xd0, ucast x]
      else if - 32768 \<le> sint x \<and> sint x \<le> 32767 then 0xd1 # u16_be (ucast x)
      else if - 2147483648 \<le> sint x \<and> sint x \<le> 2147483647 then 0xd2 # u32_be (ucast x)
      else 0xd3 # u64_be x)"

definition encode_int :: "u64 \<Rightarrow> bytes" where
  "encode_int x = encode_i64 x"

definition encode_uint :: "u64 \<Rightarrow> bytes" where
  "encode_uint x = (if unat x < 2 ^ 63 then encode_i64 x else 0xcf # u64_be x)"

definition encode_str :: "string \<Rightarrow> (mp_error, bytes) result" where
  "encode_str s =
     (let len = length s in
      if len \<le> 0x1f then Ok ([0xa0 OR of_nat len] @ str_bytes s)
      else if len \<le> 0xff then Ok ([0xd9, of_nat len] @ str_bytes s)
      else if len \<le> 0xffff then Ok (0xda # be_bytes 2 len @ str_bytes s)
      else if len \<le> 0xffffffff then Ok (0xdb # be_bytes 4 len @ str_bytes s)
      else Err (OutOfRange ''string length''))"

definition encode_bin :: "bytes \<Rightarrow> (mp_error, bytes) result" where
  "encode_bin b =
     (let len = length b in
      if len \<le> 0xff then Ok ([0xc4, of_nat len] @ b)
      else if len \<le> 0xffff then Ok (0xc5 # be_bytes 2 len @ b)
      else if len \<le> 0xffffffff then Ok (0xc6 # be_bytes 4 len @ b)
      else Err (OutOfRange ''bin length''))"

text \<open>The loop of \<open>encode_typed_array\<close> and of the meta-payload encoders.\<close>

primrec encode_each :: "('a \<Rightarrow> (mp_error, bytes) result) \<Rightarrow> 'a list \<Rightarrow> (mp_error, bytes) result" where
  "encode_each enc [] = Ok []"
| "encode_each enc (x # xs) =
     bind_res (enc x) (\<lambda>b. bind_res (encode_each enc xs) (\<lambda>bs. Ok (b @ bs)))"

definition encode_typed_array :: "('a \<Rightarrow> (mp_error, bytes) result) \<Rightarrow> 'a list \<Rightarrow> (mp_error, bytes) result" where
  "encode_typed_array enc xs =
     bind_res (encode_array_header (length xs)) (\<lambda>h.
     bind_res (encode_each enc xs) (\<lambda>bs. Ok (h @ bs)))"

fun is_array :: "nt_value \<Rightarrow> bool" where
  "is_array (VInt8Array _) = True"
| "is_array (VInt16Array _) = True"
| "is_array (VInt32Array _) = True"
| "is_array (VInt64Array _) = True"
| "is_array (VUint8Array _) = True"
| "is_array (VUint16Array _) = True"
| "is_array (VUint32Array _) = True"
| "is_array (VUint64Array _) = True"
| "is_array (VFloatArray _) = True"
| "is_array (VDoubleArray _) = True"
| "is_array (VStringArray _) = True"
| "is_array (VBoolArray _) = True"
| "is_array _ = False"

function (sequential) encode_value :: "nt_value \<Rightarrow> (mp_error, bytes) result" where
  "encode_value (VInt8 x) = Ok (encode_i64 (scast x))"
| "encode_value (VInt16 x) = Ok (encode_i64 (scast x))"
| "encode_value (VInt32 x) = Ok (encode_i64 (scast x))"
| "encode_value (VInt64 x) = Ok (encode_i64 x)"
| "encode_value (VUint8 x) = Ok (encode_uint (ucast x))"
| "encode_value (VUint16 x) = Ok (encode_uint (ucast x))"
| "encode_value (VUint32 x) = Ok (encode_uint (ucast x))"
| "encode_value (VUint64 x) = Ok (encode_uint x)"
| "encode_value (VFloat x) = Ok (0xca # u32_be x)"
| "encode_value (VDouble x) = Ok (0xcb # u64_be x)"
| "encode_value (VString s) = encode_str s"
| "encode_value (VBool b) = Ok [if b then 0xc3 else 0xc2]"
| "encode_value (VBytes b) = encode_bin b"
| "encode_value (VInt8Array xs) = encode_typed_array (\<lambda>x. encode_value (VInt8 x)) xs"
| "encode_value (VInt16Array xs) = encode_typed_array (\<lambda>x. encode_value (VInt16 x)) xs"
| "encode_value (VInt32Array xs) = encode_typed_array (\<lambda>x. encode_value (VInt32 x)) xs"
| "encode_value (VInt64Array xs) = encode_typed_array (\<lambda>x. encode_value (VInt64 x)) xs"
| "encode_value (VUint8Array xs) = encode_typed_array (\<lambda>x. encode_value (VUint8 x)) xs"
| "encode_value (VUint16Array xs) = encode_typed_array (\<lambda>x. encode_value (VUint16 x)) xs"
| "encode_value (VUint32Array xs) = encode_typed_array (\<lambda>x. encode_value (VUint32 x)) xs"
| "encode_value (VUint64Array xs) = encode_typed_array (\<lambda>x. encode_value (VUint64 x)) xs"
| "encode_value (VFloatArray xs) = encode_typed_array (\<lambda>x. encode_value (VFloat x)) xs"
| "encode_value (VDoubleArray xs) = encode_typed_array (\<lambda>x. encode_value (VDouble x)) xs"
| "encode_value (VStringArray xs) = encode_typed_array (\<lambda>x. encode_value (VString x)) xs"
| "encode_value (VBoolArray xs) = encode_typed_array (\<lambda>x. encode_value (VBool x)) xs"
| "encode_value (VBytesList b) = encode_bin b"
| "encode_value (VCoordinate b) = encode_bin b"
| "encode_value (VBezier b) = encode_bin b"
  by pat_completeness auto
termination
  by (relation "measure (\<lambda>v. if is_array v then 1 else 0)") auto

text \<open>Meta-topic payloads: an array of maps with string keys.\<close>

definition encode_map_header :: "nat \<Rightarrow> bytes" where
  "encode_map_header len =
     (if len \<le> 15 then [0x80 OR of_nat len]
      else if len \<le> 0xffff then 0xde # be_bytes 2 len
      else 0xdf # be_bytes 4 (unat (of_nat len :: u32)))"

fun encode_meta_value :: "json \<Rightarrow> (mp_error, bytes) result"
  and encode_meta_items :: "json list \<Rightarrow> (mp_error, bytes) result"
  and encode_meta_entries :: "(string \<times> json) list \<Rightarrow> (mp_error, bytes) result" where
  "encode_meta_value JNull = Ok [0xc0]"
| "encode_meta_value (JBool b) = Ok [if b then 0xc3 else 0xc2]"
| "encode_meta_value (JNumber n) =
     (case num_as_i64 n of
        Some i \<Rightarrow> Ok (encode_i64 i)
      | None \<Rightarrow> Ok (0xcb # u64_be (case num_as_f64 n of Some f \<Rightarrow> f | None \<Rightarrow> 0)))"
| "encode_meta_value (JString s) = encode_str s"
| "encode_meta_value (JArray arr) =
     bind_res (encode_array_header (length arr)) (\<lambda>h.
     bind_res (encode_meta_items arr) (\<lambda>bs. Ok (h @ bs)))"
| "encode_meta_value (JObject m) =
     bind_res (encode_meta_entries m) (\<lambda>bs. Ok (encode_map_header (length m) @ bs))"
| "encode_meta_items [] = Ok []"
| "encode_meta_items (x # xs) =
     bind_res (encode_meta_value x) (\<lambda>b. bind_res (encode_meta_items xs) (\<lambda>bs. Ok (b @ bs)))"
| "encode_meta_entries [] = Ok []"
| "encode_meta_entries ((k, v) # es) =
     bind_res (encode_str k) (\<lambda>a. bind_res (encode_meta_value v) (\<lambda>b.
     bind_res (encode_meta_entries es) (\<lambda>bs. Ok (a @ b @ bs))))"

definition encode_meta_map :: "jmap \<Rightarrow> (mp_error, bytes) result" where
  "encode_meta_map m =
     bind_res (encode_meta_entries m) (\<lambda>bs. Ok (encode_map_header (length m) @ bs))"

definition encode_meta_payload :: "jmap list \<Rightarrow> (mp_error, bytes) result" where
  "encode_meta_payload maps =
     bind_res (encode_array_header (length maps)) (\<lambda>h.
     bind_res (encode_each encode_meta_map maps) (\<lambda>bs. Ok (h @ bs)))"

section \<open>Decoding\<close>

text \<open>\<open>take::<N>\<close>, \<open>split_first\<close> and \<open>get(..len)\<close>.\<close>

definition take_n :: "nat \<Rightarrow> bytes \<Rightarrow> (mp_error, bytes \<times> bytes) result" where
  "take_n n buf =
     (if n \<le> length buf then Ok (take n buf, drop n buf) else Err UnexpectedEof)"

definition split_first :: "bytes \<Rightarrow> (mp_error, u8 \<times> bytes) result" where
  "split_first buf = (case buf of [] \<Rightarrow> Err UnexpectedEof | b # rest \<Rightarrow> Ok (b, rest))"

definition get_prefix :: "nat \<Rightarrow> bytes \<Rightarrow> (mp_error, bytes) result" where
  "get_prefix n buf = (if n \<le> length buf then Ok (take n buf) else Err UnexpectedEof)"

definition every :: "nt_value list \<Rightarrow> (nt_value \<Rightarrow> 'a option) \<Rightarrow> 'a list option" where
  "every items pick = collect_opt pick items"

fun is_float :: "nt_value \<Rightarrow> bool" where
  "is_float (VFloat _) = True"
| "is_float _ = False"

fun is_double :: "nt_value \<Rightarrow> bool" where
  "is_double (VDouble _) = True"
| "is_double _ = False"

definition big_u64 :: "nt_value \<Rightarrow> bool" where
  "big_u64 v \<longleftrightarrow> (case as_u64 v of None \<Rightarrow> False | Some x \<Rightarrow> unat x > 2 ^ 63 - 1)"

definition classify_array :: "nt_value list \<Rightarrow> (mp_error, nt_value) result" where
  "classify_array items =
     (if items = [] then Ok (VDoubleArray [])
      else case (if list_ex big_u64 items then every items (\<lambda>v. or_else (as_u64 v) (as_i64 v)) else None) of
        Some xs \<Rightarrow> Ok (VUint64Array xs)
      | None \<Rightarrow>
     (case every items (\<lambda>v. or_else (as_i64 v) (as_u64 v)) of
        Some xs \<Rightarrow> Ok (VInt64Array xs)
      | None \<Rightarrow>
     (case (if list_all is_float items then every items (\<lambda>v. map_option f64_to_f32 (as_f64 v)) else None) of
        Some xs \<Rightarrow> Ok (VFloatArray xs)
      | None \<Rightarrow>
     (case (if list_all is_double items then every items as_f64 else None) of
        Some xs \<Rightarrow> Ok (VDoubleArray xs)
      | None \<Rightarrow>
     (case every items as_string of
        Some xs \<Rightarrow> Ok (VStringArray xs)
      | None \<Rightarrow>
     (case every items as_bool of
        Some xs \<Rightarrow> Ok (VBoolArray xs)
      | None \<Rightarrow> Err MixedArray))))))"

definition decode_text :: "bytes \<Rightarrow> nat \<Rightarrow> (mp_error, nt_value \<times> nat) result" where
  "decode_text bs consumed =
     (case from_utf8 bs of None \<Rightarrow> Err InvalidUtf8 | Some s \<Rightarrow> Ok (VString s, consumed))"

text \<open>The element loop of \<open>decode_array_at\<close>: \<open>len\<close> elements off the front of \<open>rest\<close>,
  each by \<open>dec\<close>; the items and what is left.\<close>

primrec decode_items ::
  "(bytes \<Rightarrow> (mp_error, nt_value \<times> nat) result) \<Rightarrow> nat \<Rightarrow> bytes \<Rightarrow> (mp_error, nt_value list \<times> bytes) result"
  where
  "decode_items dec 0 rest = Ok ([], rest)"
| "decode_items dec (Suc n) rest =
     bind_res (dec rest) (\<lambda>(item, consumed).
     bind_res (decode_items dec n (drop consumed rest)) (\<lambda>(items, rest'). Ok (item # items, rest')))"

function (sequential)
  decode_one :: "bytes \<Rightarrow> nat \<Rightarrow> (mp_error, nt_value \<times> nat) result"
  and decode_array_at :: "bytes \<Rightarrow> nat \<Rightarrow> (mp_error, nt_value list \<times> nat) result" where
  "decode_one buf depth =
     bind_res (split_first buf) (\<lambda>(marker, rest).
     if marker \<le> 0x7f then Ok (VUint8 marker, 1)
     else if 0xe0 \<le> marker then Ok (VInt8 marker, 1)
     else if marker = 0xc0 then Err (Unsupported 0xc0)
     else if marker = 0xc2 then Ok (VBool False, 1)
     else if marker = 0xc3 then Ok (VBool True, 1)
     else if marker = 0xca then bind_res (take_n 4 rest) (\<lambda>(b, _). Ok (VFloat (of_nat (be_nat b)), 5))
     else if marker = 0xcb then bind_res (take_n 8 rest) (\<lambda>(b, _). Ok (VDouble (of_nat (be_nat b)), 9))
     else if marker = 0xcc then bind_res (split_first rest) (\<lambda>(b, _). Ok (VUint8 b, 2))
     else if marker = 0xcd then bind_res (take_n 2 rest) (\<lambda>(b, _). Ok (VUint16 (of_nat (be_nat b)), 3))
     else if marker = 0xce then bind_res (take_n 4 rest) (\<lambda>(b, _). Ok (VUint32 (of_nat (be_nat b)), 5))
     else if marker = 0xcf then bind_res (take_n 8 rest) (\<lambda>(b, _). Ok (VUint64 (of_nat (be_nat b)), 9))
     else if marker = 0xd0 then bind_res (split_first rest) (\<lambda>(b, _). Ok (VInt8 b, 2))
     else if marker = 0xd1 then bind_res (take_n 2 rest) (\<lambda>(b, _). Ok (VInt16 (of_nat (be_nat b)), 3))
     else if marker = 0xd2 then bind_res (take_n 4 rest) (\<lambda>(b, _). Ok (VInt32 (of_nat (be_nat b)), 5))
     else if marker = 0xd3 then bind_res (take_n 8 rest) (\<lambda>(b, _). Ok (VInt64 (of_nat (be_nat b)), 9))
     else if 0xa0 \<le> marker \<and> marker \<le> 0xbf then
       (let len = unat (marker AND 0x1f) in
        bind_res (get_prefix len rest) (\<lambda>b. decode_text b (1 + len)))
     else if marker = 0xd9 then
       bind_res (split_first rest) (\<lambda>(len, rest).
       bind_res (get_prefix (unat len) rest) (\<lambda>b. decode_text b (2 + unat len)))
     else if marker = 0xda then
       bind_res (take_n 2 rest) (\<lambda>(l, rest). let len = be_nat l in
       bind_res (get_prefix len rest) (\<lambda>b. decode_text b (3 + len)))
     else if marker = 0xdb then
       bind_res (take_n 4 rest) (\<lambda>(l, rest). let len = be_nat l in
       bind_res (get_prefix len rest) (\<lambda>b. decode_text b (5 + len)))
     else if marker = 0xc4 then
       bind_res (split_first rest) (\<lambda>(len, rest).
       bind_res (get_prefix (unat len) rest) (\<lambda>b. Ok (VBytes b, 2 + unat len)))
     else if marker = 0xc5 then
       bind_res (take_n 2 rest) (\<lambda>(l, rest). let len = be_nat l in
       bind_res (get_prefix len rest) (\<lambda>b. Ok (VBytes b, 3 + len)))
     else if marker = 0xc6 then
       bind_res (take_n 4 rest) (\<lambda>(l, rest). let len = be_nat l in
       bind_res (get_prefix len rest) (\<lambda>b. Ok (VBytes b, 5 + len)))
     else if 0x90 \<le> marker \<and> marker \<le> 0x9f \<or> marker = 0xdc \<or> marker = 0xdd then
       bind_res (decode_array_at buf depth) (\<lambda>(items, consumed).
       bind_res (classify_array items) (\<lambda>v. Ok (v, consumed)))
     else Err (Unsupported marker))"
| "decode_array_at buf depth =
     (if depth \<ge> MAX_DEPTH then Err TooDeep
      else
        bind_res (split_first buf) (\<lambda>(marker, rest).
        bind_res
          (if 0x90 \<le> marker \<and> marker \<le> 0x9f then Ok (unat (marker AND 0x0f), rest)
           else if marker = 0xdc then bind_res (take_n 2 rest) (\<lambda>(b, rest). Ok (be_nat b, rest))
           else if marker = 0xdd then bind_res (take_n 4 rest) (\<lambda>(b, rest). Ok (be_nat b, rest))
           else Err NotAnArray)
          (\<lambda>(len, rest).
        bind_res (decode_items (\<lambda>r. decode_one r (depth + 1)) len rest) (\<lambda>(items, rest').
        Ok (items, length buf - length rest')))))"
  by pat_completeness auto
termination
  by (relation "measure (\<lambda>x. case x of Inl (b, d) \<Rightarrow> 2 * (MAX_DEPTH - d) + 1
                                     | Inr (b, d) \<Rightarrow> 2 * (MAX_DEPTH - d))") auto

declare decode_one.simps [simp del] decode_array_at.simps [simp del]

definition decode_value :: "bytes \<Rightarrow> (mp_error, nt_value) result" where
  "decode_value buf =
     bind_res (decode_one buf 0) (\<lambda>(v, consumed).
     if consumed \<noteq> length buf then Err TrailingBytes else Ok v)"

definition decode_array :: "bytes \<Rightarrow> (mp_error, nt_value list \<times> nat) result" where
  "decode_array buf = decode_array_at buf 0"

end
