(* ===== verification/Msgpack_Props.thy ===== *)
theory Msgpack_Props
  imports Msgpack
begin

text \<open>
  Properties of the MessagePack codec: what \<open>decode_value\<close> makes of an encoded value
  (\<open>wire_form\<close>), that re-encoding gives the same bytes, the bound on nesting, and the bound
  on what a decoder consumes.
\<close>

section \<open>The shape a value comes back in\<close>

text \<open>MessagePack does not record the width of an integer: the decoder picks the width of the
  marker, and an array of integers becomes 64 bits wide.  An empty array has no element type and
  comes back as an empty double array.\<close>

definition int_wire :: "u64 \<Rightarrow> nt_value" where
  "int_wire x =
     (if 0 \<le> sint x \<and> sint x \<le> 127 then VUint8 (ucast x)
      else if - 128 \<le> sint x \<and> sint x \<le> 127 then VInt8 (ucast x)
      else if - 32768 \<le> sint x \<and> sint x \<le> 32767 then VInt16 (ucast x)
      else if - 2147483648 \<le> sint x \<and> sint x \<le> 2147483647 then VInt32 (ucast x)
      else VInt64 x)"

definition uint_wire :: "u64 \<Rightarrow> nt_value" where
  "uint_wire x = (if unat x < 2 ^ 63 then int_wire x else VUint64 x)"

definition list_wire :: "('a list \<Rightarrow> nt_value) \<Rightarrow> 'a list \<Rightarrow> nt_value" where
  "list_wire f xs = (if xs = [] then VDoubleArray [] else f xs)"

definition uints_wire :: "u64 list \<Rightarrow> nt_value" where
  "uints_wire xs = (if list_ex (\<lambda>x. unat x \<ge> 2 ^ 63) xs then VUint64Array xs else VInt64Array xs)"

fun wire_form :: "nt_value \<Rightarrow> nt_value" where
  "wire_form (VInt8 x) = int_wire (scast x)"
| "wire_form (VInt16 x) = int_wire (scast x)"
| "wire_form (VInt32 x) = int_wire (scast x)"
| "wire_form (VInt64 x) = int_wire x"
| "wire_form (VUint8 x) = uint_wire (ucast x)"
| "wire_form (VUint16 x) = uint_wire (ucast x)"
| "wire_form (VUint32 x) = uint_wire (ucast x)"
| "wire_form (VUint64 x) = uint_wire x"
| "wire_form (VBytesList b) = VBytes b"
| "wire_form (VCoordinate b) = VBytes b"
| "wire_form (VBezier b) = VBytes b"
| "wire_form (VInt8Array xs) = list_wire VInt64Array (map scast xs)"
| "wire_form (VInt16Array xs) = list_wire VInt64Array (map scast xs)"
| "wire_form (VInt32Array xs) = list_wire VInt64Array (map scast xs)"
| "wire_form (VInt64Array xs) = list_wire VInt64Array xs"
| "wire_form (VUint8Array xs) = list_wire uints_wire (map ucast xs)"
| "wire_form (VUint16Array xs) = list_wire uints_wire (map ucast xs)"
| "wire_form (VUint32Array xs) = list_wire uints_wire (map ucast xs)"
| "wire_form (VUint64Array xs) = list_wire uints_wire xs"
| "wire_form (VFloatArray xs) = list_wire VFloatArray xs"
| "wire_form (VStringArray xs) = list_wire VStringArray xs"
| "wire_form (VBoolArray xs) = list_wire VBoolArray xs"
| "wire_form v = v"

text \<open>What a Rust value always satisfies (strings are UTF-8), and no NaN inside a float array,
  whose payload the decoder's widening would quiet.\<close>

fun wire_ok :: "nt_value \<Rightarrow> bool" where
  "wire_ok (VString s) = is_str s"
| "wire_ok (VStringArray xs) = list_all is_str xs"
| "wire_ok (VFloatArray xs) = list_all (\<lambda>x. \<not> f32_is_nan x) xs"
| "wire_ok _ = True"

section \<open>Single values\<close>

lemma take_n_append [simp]: "length b = n \<Longrightarrow> take_n n (b @ rest) = Ok (b, rest)"
  by (simp add: take_n_def)

lemma get_prefix_append [simp]: "length b = n \<Longrightarrow> get_prefix n (b @ rest) = Ok b"
  by (simp add: get_prefix_def)

lemma split_first_Cons [simp]: "split_first (b # rest) = Ok (b, rest)"
  by (simp add: split_first_def)

lemma u8_le_uint: "(a :: u8) \<le> b \<longleftrightarrow> uint a \<le> uint b"
  by (rule word_le_def)

lemma uint_ucast_u8: "uint (ucast (x :: u64) :: u8) = sint x mod 256"
  using uint_ucast_sint [where ?'a = 64 and ?'b = 8] by simp

lemma decode_one_fixint:
  assumes "0 \<le> sint x" and "sint x \<le> 127"
  shows "decode_one (ucast (x :: u64) # rest) d = Ok (VUint8 (ucast x), 1)"
proof -
  have "(ucast x :: u8) \<le> 0x7f" unfolding u8_le_uint uint_ucast_u8 using assms by simp
  then show ?thesis by (simp add: decode_one.simps)
qed

lemma decode_one_negfixint:
  assumes "- 32 \<le> sint x" and "sint x \<le> - 1"
  shows "decode_one (ucast (x :: u64) # rest) d = Ok (VInt8 (ucast x), 1)"
proof -
  have "sint x mod 256 = sint x + 256"
    using assms by presburger
  then have "(0xe0 :: u8) \<le> ucast x" and "\<not> (ucast x :: u8) \<le> 0x7f"
    unfolding u8_le_uint uint_ucast_u8 using assms by simp_all
  then show ?thesis by (simp add: decode_one.simps)
qed

lemma decode_one_i64:
  "decode_one (encode_i64 x @ rest) d = Ok (int_wire x, length (encode_i64 x))"
proof -
  consider "0 \<le> sint x \<and> sint x \<le> 127" | "- 32 \<le> sint x \<and> sint x \<le> - 1"
    | "- 128 \<le> sint x \<and> sint x < - 32"
    | "\<not> (- 128 \<le> sint x \<and> sint x \<le> 127)" "- 32768 \<le> sint x \<and> sint x \<le> 32767"
    | "\<not> (- 32768 \<le> sint x \<and> sint x \<le> 32767)" "- 2147483648 \<le> sint x \<and> sint x \<le> 2147483647"
    | "\<not> (- 2147483648 \<le> sint x \<and> sint x \<le> 2147483647)"
    by linarith
  then show ?thesis
  proof cases
    case 1 then show ?thesis by (simp add: encode_i64_def int_wire_def decode_one_fixint)
  next
    case 2 then show ?thesis by (simp add: encode_i64_def int_wire_def decode_one_negfixint)
  next
    case 3 then show ?thesis by (simp add: encode_i64_def int_wire_def decode_one.simps)
  next
    case 4
    then have "encode_i64 x = 0xd1 # u16_be (ucast x)" "int_wire x = VInt16 (ucast x)"
      by (auto simp: encode_i64_def int_wire_def)
    then show ?thesis by (simp add: decode_one.simps)
  next
    case 5
    then have "encode_i64 x = 0xd2 # u32_be (ucast x)" "int_wire x = VInt32 (ucast x)"
      by (auto simp: encode_i64_def int_wire_def)
    then show ?thesis by (simp add: decode_one.simps)
  next
    case 6
    then have "encode_i64 x = 0xd3 # u64_be x" "int_wire x = VInt64 x"
      by (auto simp: encode_i64_def int_wire_def)
    then show ?thesis by (simp add: decode_one.simps)
  qed
qed

lemma decode_one_uint:
  "decode_one (encode_uint x @ rest) d = Ok (uint_wire x, length (encode_uint x))"
  by (simp add: encode_uint_def uint_wire_def decode_one_i64) (simp add: decode_one.simps)

lemma fix_markers:
  "\<forall>n \<in> set [0..<32]. let m = (0xa0 :: u8) OR of_nat n in
     0xa0 \<le> m \<and> m \<le> 0xbf \<and> unat (m AND 0x1f) = n"
  "\<forall>n \<in> set [0..<16]. let m = (0x90 :: u8) OR of_nat n in
     0x90 \<le> m \<and> m \<le> 0x9f \<and> unat (m AND 0x0f) = n"
  by code_simp+

lemma fixstr_marker:
  assumes "n \<le> 31"
  shows "(0xa0 :: u8) \<le> 0xa0 OR of_nat n" "0xa0 OR of_nat n \<le> (0xbf :: u8)"
    "unat ((0xa0 OR of_nat n) AND (0x1f :: u8)) = n"
  using fix_markers(1) assms by (simp_all add: Let_def Ball_def)

lemma fixarray_marker:
  assumes "n \<le> 15"
  shows "(0x90 :: u8) \<le> 0x90 OR of_nat n" "0x90 OR of_nat n \<le> (0x9f :: u8)"
    "unat ((0x90 OR of_nat n) AND (0x0f :: u8)) = n"
  using fix_markers(2) assms by (simp_all add: Let_def Ball_def)

lemma u8_range_distinct:
  fixes m :: u8
  assumes "a \<le> m" and "m \<le> b"
  shows "c < a \<Longrightarrow> m \<noteq> c" "b < c \<Longrightarrow> m \<noteq> c" "c < a \<Longrightarrow> \<not> m \<le> c" "b < c \<Longrightarrow> \<not> c \<le> m"
  using assms by auto

lemma decode_text_str: "is_str s \<Longrightarrow> decode_text (str_bytes s) n = Ok (VString s, n)"
  by (simp add: decode_text_def from_utf8_str_bytes)

lemma be_nat_be_bytes_2 [simp]: "n \<le> 0xffff \<Longrightarrow> be_nat (be_bytes 2 n) = n"
  by (rule be_nat_be_bytes_id) simp

lemma be_nat_be_bytes_4 [simp]: "n \<le> 0xffffffff \<Longrightarrow> be_nat (be_bytes 4 n) = n"
  by (rule be_nat_be_bytes_id) simp

lemma unat_of_nat_u8_id: "n \<le> 0xff \<Longrightarrow> unat (of_nat n :: u8) = n"
  by (rule unat_of_nat_small) simp

lemma decode_one_str:
  assumes "encode_str s = Ok bs" and "is_str s"
  shows "decode_one (bs @ rest) d = Ok (VString s, length bs)"
proof -
  consider "length s \<le> 31" | "31 < length s" "length s \<le> 0xff"
    | "0xff < length s" "length s \<le> 0xffff" | "0xffff < length s" "length s \<le> 0xffffffff"
    | "length s > 0xffffffff"
    by linarith
  then show ?thesis
  proof cases
    case 1
    note m = fixstr_marker [OF 1]
    note ne = u8_range_distinct [OF m(1,2)]
    from 1 assms(1) have bs: "bs = (0xa0 OR of_nat (length s)) # str_bytes s"
      by (simp add: encode_str_def)
    show ?thesis unfolding bs using m(1,2) assms(2)
      by (simp add: decode_one.simps ne m(3) decode_text_str)
  next
    case 2
    with assms show ?thesis
      by (auto simp: encode_str_def decode_one.simps unat_of_nat_u8_id decode_text_str)
  next
    case 3
    with assms show ?thesis by (auto simp: encode_str_def decode_one.simps decode_text_str)
  next
    case 4
    with assms show ?thesis by (auto simp: encode_str_def decode_one.simps decode_text_str)
  next
    case 5
    with assms show ?thesis by (simp add: encode_str_def)
  qed
qed

lemma decode_one_bin:
  assumes "encode_bin b = Ok bs"
  shows "decode_one (bs @ rest) d = Ok (VBytes b, length bs)"
proof -
  consider "length b \<le> 0xff"
    | "0xff < length b" "length b \<le> 0xffff" | "0xffff < length b" "length b \<le> 0xffffffff"
    | "length b > 0xffffffff"
    by linarith
  then show ?thesis
    using assms
    by cases (auto simp: encode_bin_def decode_one.simps unat_of_nat_u8_id)
qed

section \<open>Arrays\<close>

lemma decode_items_each:
  assumes "encode_each enc xs = Ok bs"
    and "\<And>x b rest. x \<in> set xs \<Longrightarrow> enc x = Ok b \<Longrightarrow> dec (b @ rest) = Ok (w x, length b)"
  shows "decode_items dec (length xs) (bs @ rest) = Ok (map w xs, rest)"
  using assms
proof (induction xs arbitrary: bs)
  case (Cons x xs)
  from Cons.prems(1) obtain b bs' where b: "enc x = Ok b" "encode_each enc xs = Ok bs'" "bs = b @ bs'"
    by (auto simp: bind_res_Inr_conv)
  have "decode_items dec (length xs) (bs' @ rest) = Ok (map w xs, rest)"
    using Cons.IH [OF b(2)] Cons.prems(2) by simp
  with Cons.prems(2) [of x b "bs' @ rest"] b show ?case by simp
qed simp

text \<open>An array header begins with an array marker and is read back as its length.\<close>

definition array_marker :: "u8 \<Rightarrow> bool" where
  "array_marker m \<longleftrightarrow> 0x90 \<le> m \<and> m \<le> 0x9f \<or> m = 0xdc \<or> m = 0xdd"

lemma array_marker_header:
  assumes "encode_array_header n = Ok h"
  obtains m h' where "h = m # h'" "array_marker m"
  using assms fixarray_marker [of n]
  by (auto simp: encode_array_header_def array_marker_def split: if_splits)

lemma decode_array_header:
  assumes "encode_array_header n = Ok h" and "d < MAX_DEPTH"
  shows "decode_array_at (h @ rest) d =
    bind_res (decode_items (\<lambda>r. decode_one r (d + 1)) n rest) (\<lambda>(items, rest').
      Ok (items, length h + length rest - length rest'))"
proof -
  consider "n \<le> 15" | "15 < n" "n \<le> 0xffff" | "0xffff < n" "n \<le> 0xffffffff" | "n > 0xffffffff"
    by linarith
  then show ?thesis
  proof cases
    case 1
    note m = fixarray_marker [OF 1]
    from 1 assms show ?thesis
      by (auto simp: encode_array_header_def decode_array_at.simps m)
  qed (use assms in \<open>auto simp: encode_array_header_def decode_array_at.simps\<close>)
qed

lemma decode_one_marker:
  assumes "array_marker m"
  shows "decode_one (m # bs) d =
    bind_res (decode_array_at (m # bs) d) (\<lambda>(items, consumed).
    bind_res (classify_array items) (\<lambda>v. Ok (v, consumed)))"
proof -
  consider "0x90 \<le> m" "m \<le> 0x9f" | "m = 0xdc" | "m = 0xdd"
    using assms by (auto simp: array_marker_def)
  then show ?thesis
  proof cases
    case 1
    note ne = u8_range_distinct [OF 1]
    show ?thesis by (subst decode_one.simps) (simp add: 1 ne)
  qed (subst decode_one.simps, simp)+
qed

lemma decode_one_array:
  assumes "encode_typed_array enc xs = Ok bs" and "d < MAX_DEPTH"
    and "\<And>x b rest. x \<in> set xs \<Longrightarrow> enc x = Ok b \<Longrightarrow> decode_one (b @ rest) (d + 1) = Ok (w x, length b)"
    and "classify_array (map w xs) = Ok v"
  shows "decode_one (bs @ rest) d = Ok (v, length bs)"
proof -
  from assms(1) obtain h es where h: "encode_array_header (length xs) = Ok h"
    "encode_each enc xs = Ok es" "bs = h @ es"
    by (auto simp: encode_typed_array_def bind_res_Inr_conv)
  obtain m h' where m: "h = m # h'" "array_marker m"
    using array_marker_header [OF h(1)] by blast
  have "decode_items (\<lambda>r. decode_one r (d + 1)) (length xs) (es @ rest) = Ok (map w xs, rest)"
    by (rule decode_items_each [OF h(2)]) (rule assms(3))
  then have "decode_array_at (h @ (es @ rest)) d = Ok (map w xs, length bs)"
    using decode_array_header [OF h(1) assms(2), of "es @ rest"] h(3) by simp
  moreover have "bs @ rest = m # (h' @ es @ rest)" using h(3) m(1) by simp
  ultimately show ?thesis
    using decode_one_marker [OF m(2), of "h' @ es @ rest" d] m(1) assms(4) by simp
qed

text \<open>Which typed list the elements form.\<close>

lemma scast_ucast_id:
  assumes "LENGTH('b::len) \<le> 64" and "- (2 ^ (LENGTH('b) - 1)) \<le> sint x" and "sint x < 2 ^ (LENGTH('b) - 1)"
  shows "scast (ucast (x :: u64) :: 'b word) = x"
proof -
  obtain n where n: "LENGTH('b) = Suc n" by (cases "LENGTH('b)") simp_all
  have "sint (ucast x :: 'b word) = signed_take_bit n (sint x)"
  proof -
    have "sint (ucast x :: 'b word) = signed_take_bit n (uint (ucast x :: 'b word))"
      by (simp add: sint_uint n)
    also have "uint (ucast x :: 'b word) = take_bit (Suc n) (sint x)"
      using uint_ucast_sint [of x, where ?'b = 'b] assms(1) by (simp add: n take_bit_eq_mod)
    also have "signed_take_bit n \<dots> = signed_take_bit n (sint x)"
      by (simp add: signed_take_bit_take_bit)
    finally show ?thesis .
  qed
  also have "\<dots> = sint x"
    using assms(2,3) n by (simp add: signed_take_bit_int_eq_self)
  finally have "sint (ucast x :: 'b word) = sint x" .
  then have "(of_int (sint (ucast x :: 'b word)) :: u64) = of_int (sint x)" by (simp only:)
  then show ?thesis by (simp only: of_int_sint scast_id)
qed

lemma int_wire_reads:
  "or_else (as_i64 (int_wire x)) (as_u64 (int_wire x)) = Some x"
  "or_else (as_u64 (int_wire x)) (as_i64 (int_wire x)) = Some x"
  "\<not> big_u64 (int_wire x)"
proof -
  have u8: "ucast (ucast x :: u8) = x" if "0 \<le> sint x" "sint x \<le> 127"
  proof -
    have "uint (ucast (ucast x :: u8) :: u64) = uint (ucast x :: u8)"
      by (rule uint_up_ucast) (simp add: is_up)
    also have "\<dots> = sint x" using that by (simp add: uint_ucast_u8)
    also have "\<dots> = uint x"
      using that(1) sint_cases [of x] unsigned_less [of x, where ?'a = int] by (auto split: if_splits)
    finally show ?thesis by (rule word_uint_eq_iff [THEN iffD2])
  qed
  have i8: "scast (ucast x :: u8) = x" if "- 128 \<le> sint x" "sint x \<le> 127"
    using scast_ucast_id [where ?'b = 8] that by simp
  have i16: "scast (ucast x :: u16) = x" if "- 32768 \<le> sint x" "sint x \<le> 32767"
    using scast_ucast_id [where ?'b = 16] that by simp
  have i32: "scast (ucast x :: u32) = x" if "- 2147483648 \<le> sint x" "sint x \<le> 2147483647"
    using scast_ucast_id [where ?'b = 32] that by simp
  show "or_else (as_i64 (int_wire x)) (as_u64 (int_wire x)) = Some x"
    and "or_else (as_u64 (int_wire x)) (as_i64 (int_wire x)) = Some x"
    by (auto simp: int_wire_def u8 i8 i16 i32)
  have "\<not> unat (ucast (b :: u8) :: u64) > 2 ^ 63 - 1" for b
  proof -
    have b: "unat b < 256" using unat_less_2p [of b] by simp
    then have "unat (ucast b :: u64) = unat b"
      by (simp add: unsigned_ucast_eq take_bit_nat_eq_self)
    with b show ?thesis by simp
  qed
  then show "\<not> big_u64 (int_wire x)" by (auto simp: big_u64_def int_wire_def)
qed

lemma uint_wire_reads:
  "or_else (as_i64 (uint_wire x)) (as_u64 (uint_wire x)) = Some x"
  "or_else (as_u64 (uint_wire x)) (as_i64 (uint_wire x)) = Some x"
  "big_u64 (uint_wire x) \<longleftrightarrow> unat x \<ge> 2 ^ 63"
  by (simp_all add: uint_wire_def int_wire_reads) (simp add: big_u64_def)

lemma classify_signed:
  "xs \<noteq> [] \<Longrightarrow> classify_array (map int_wire xs) = Ok (VInt64Array xs)"
proof -
  assume "xs \<noteq> []"
  moreover have "\<not> list_ex big_u64 (map int_wire xs)"
    by (auto simp: list_ex_iff int_wire_reads)
  moreover have "every (map int_wire xs) (\<lambda>v. or_else (as_i64 v) (as_u64 v)) = Some xs"
    using collect_opt_map [of xs "\<lambda>v. or_else (as_i64 v) (as_u64 v)" int_wire id]
    by (simp add: every_def int_wire_reads)
  ultimately show ?thesis by (simp add: classify_array_def)
qed

lemma classify_unsigned:
  "xs \<noteq> [] \<Longrightarrow> classify_array (map uint_wire xs) = Ok (uints_wire xs)"
proof -
  assume ne: "xs \<noteq> []"
  have big: "list_ex big_u64 (map uint_wire xs) \<longleftrightarrow> list_ex (\<lambda>x. unat x \<ge> 2 ^ 63) xs"
    by (simp add: list_ex_iff uint_wire_reads)
  have "every (map uint_wire xs) (\<lambda>v. or_else (as_i64 v) (as_u64 v)) = Some xs"
    using collect_opt_map [of xs "\<lambda>v. or_else (as_i64 v) (as_u64 v)" uint_wire id]
    by (simp add: every_def uint_wire_reads)
  moreover have "every (map uint_wire xs) (\<lambda>v. or_else (as_u64 v) (as_i64 v)) = Some xs"
    using collect_opt_map [of xs "\<lambda>v. or_else (as_u64 v) (as_i64 v)" uint_wire id]
    by (simp add: every_def uint_wire_reads)
  ultimately show ?thesis using ne big by (simp add: classify_array_def uints_wire_def)
qed

lemma not_integers:
  assumes "xs \<noteq> []" and "\<And>x. as_i64 (f x) = None \<and> as_u64 (f x) = None"
  shows "\<not> list_ex big_u64 (map f xs)"
    and "every (map f xs) (\<lambda>v. or_else (as_i64 v) (as_u64 v)) = None"
  using assms by (auto simp: list_ex_iff big_u64_def every_def neq_Nil_conv)

lemma every_none:
  assumes "xs \<noteq> []" and "\<And>x. pick (f x) = None"
  shows "every (map f xs) pick = None"
  using assms by (auto simp: every_def neq_Nil_conv)

lemma classify_floats:
  assumes "xs \<noteq> []" and "list_all (\<lambda>x. \<not> f32_is_nan x) xs"
  shows "classify_array (map VFloat xs) = Ok (VFloatArray xs)"
proof -
  have "every (map VFloat xs) (\<lambda>v. map_option f64_to_f32 (as_f64 v)) = Some (map id xs)"
    unfolding every_def using assms(2)
    by (intro collect_opt_map) (auto simp: list_all_iff f64_to_f32_to_f64)
  with assms(1) not_integers [of xs VFloat] show ?thesis
    by (simp add: classify_array_def list_all_iff)
qed

lemma classify_doubles:
  assumes "xs \<noteq> []"
  shows "classify_array (map VDouble xs) = Ok (VDoubleArray xs)"
proof -
  have "every (map VDouble xs) as_f64 = Some (map id xs)"
    unfolding every_def by (intro collect_opt_map) auto
  moreover have "\<not> list_all is_float (map VDouble xs)" using assms by (auto simp: neq_Nil_conv)
  ultimately show ?thesis
    using assms not_integers [of xs VDouble] by (simp add: classify_array_def list_all_iff)
qed

lemma classify_strings:
  assumes "xs \<noteq> []"
  shows "classify_array (map VString xs) = Ok (VStringArray xs)"
proof -
  have "every (map VString xs) as_string = Some (map id xs)"
    unfolding every_def by (intro collect_opt_map) auto
  moreover have "\<not> list_all is_float (map VString xs)" "\<not> list_all is_double (map VString xs)"
    using assms by (auto simp: neq_Nil_conv)
  ultimately show ?thesis
    using assms not_integers [of xs VString] by (simp add: classify_array_def list_all_iff)
qed

lemma classify_bools:
  assumes "xs \<noteq> []"
  shows "classify_array (map VBool xs) = Ok (VBoolArray xs)"
proof -
  have "every (map VBool xs) as_bool = Some (map id xs)"
    unfolding every_def by (intro collect_opt_map) auto
  moreover have "\<not> list_all is_float (map VBool xs)" "\<not> list_all is_double (map VBool xs)"
    using assms by (auto simp: neq_Nil_conv)
  ultimately show ?thesis
    using assms not_integers [of xs VBool] every_none [of xs as_string VBool]
    by (simp add: classify_array_def list_all_iff)
qed

lemma classify_list_wire:
  assumes "xs \<noteq> [] \<Longrightarrow> classify_array (map w xs) = Ok (f xs)"
  shows "classify_array (map w xs) = Ok (list_wire f xs)"
  using assms by (cases "xs = []") (auto simp: list_wire_def classify_array_def)

lemma classify_signed_map:
  "classify_array (map (\<lambda>x. int_wire (g x)) xs) = Ok (list_wire VInt64Array (map g xs))"
  using classify_list_wire [where f = VInt64Array, OF classify_signed, of "map g xs"]
  by (simp add: comp_def)

lemma classify_unsigned_map:
  "classify_array (map (\<lambda>x. uint_wire (g x)) xs) = Ok (list_wire uints_wire (map g xs))"
  using classify_list_wire [where f = uints_wire, OF classify_unsigned, of "map g xs"]
  by (simp add: comp_def)

lemma list_wire_VDoubleArray: "list_wire VDoubleArray xs = VDoubleArray xs"
  by (simp add: list_wire_def)

lemmas classify_wire =
  classify_signed_map classify_signed_map [where g = "\<lambda>x. x", simplified]
  classify_unsigned_map classify_unsigned_map [where g = "\<lambda>x. x", simplified]
  classify_list_wire [where f = VFloatArray, OF classify_floats]
  classify_list_wire [where f = VStringArray, OF classify_strings]
  classify_list_wire [where f = VBoolArray, OF classify_bools]
  classify_list_wire [where f = VDoubleArray, OF classify_doubles, unfolded list_wire_VDoubleArray]

section \<open>The round trip\<close>

lemma decode_one_scalar:
  assumes "encode_value v = Ok bs" and "wire_ok v" and "\<not> is_array v"
  shows "decode_one (bs @ rest) d = Ok (wire_form v, length bs)"
proof (cases v)
  case (VFloat x) with assms show ?thesis by (auto simp: decode_one.simps)
next
  case (VDouble x) with assms show ?thesis by (auto simp: decode_one.simps)
next
  case (VBool b) with assms show ?thesis by (auto simp: decode_one.simps split: if_splits)
qed (use assms in \<open>auto simp: decode_one_i64 decode_one_uint decode_one_str decode_one_bin\<close>)

lemma decode_one_elements:
  assumes "encode_typed_array (\<lambda>x. encode_value (c x)) xs = Ok bs" and "d < MAX_DEPTH"
    and "list_all (\<lambda>x. wire_ok (c x) \<and> \<not> is_array (c x)) xs"
    and "classify_array (map (\<lambda>x. wire_form (c x)) xs) = Ok w"
  shows "decode_one (bs @ rest) d = Ok (w, length bs)"
  using assms(3) by (intro decode_one_array [OF assms(1,2) decode_one_scalar assms(4)])
    (auto simp: list_all_iff)

lemma decode_one_encode_array:
  assumes "encode_value v = Ok bs" and "wire_ok v" and "is_array v" and "d < MAX_DEPTH"
  shows "decode_one (bs @ rest) d = Ok (wire_form v, length bs)"
proof -
  note elements = decode_one_elements [OF _ assms(4), where rest = rest]
  show ?thesis
  proof (cases v)
    case (VInt8Array xs)
    with assms show ?thesis by (intro elements [of VInt8 xs]) (auto simp: classify_wire list_all_iff)
  next
    case (VInt16Array xs)
    with assms show ?thesis by (intro elements [of VInt16 xs]) (auto simp: classify_wire list_all_iff)
  next
    case (VInt32Array xs)
    with assms show ?thesis by (intro elements [of VInt32 xs]) (auto simp: classify_wire list_all_iff)
  next
    case (VInt64Array xs)
    with assms show ?thesis by (intro elements [of VInt64 xs]) (auto simp: classify_wire list_all_iff)
  next
    case (VUint8Array xs)
    with assms show ?thesis by (intro elements [of VUint8 xs]) (auto simp: classify_wire list_all_iff)
  next
    case (VUint16Array xs)
    with assms show ?thesis by (intro elements [of VUint16 xs]) (auto simp: classify_wire list_all_iff)
  next
    case (VUint32Array xs)
    with assms show ?thesis by (intro elements [of VUint32 xs]) (auto simp: classify_wire list_all_iff)
  next
    case (VUint64Array xs)
    with assms show ?thesis by (intro elements [of VUint64 xs]) (auto simp: classify_wire list_all_iff)
  next
    case (VFloatArray xs)
    with assms show ?thesis by (intro elements [of VFloat xs]) (auto simp: classify_wire list_all_iff)
  next
    case (VDoubleArray xs)
    with assms show ?thesis by (intro elements [of VDouble xs]) (auto simp: classify_wire list_all_iff)
  next
    case (VStringArray xs)
    with assms show ?thesis by (intro elements [of VString xs]) (auto simp: classify_wire list_all_iff)
  next
    case (VBoolArray xs)
    with assms show ?thesis by (intro elements [of VBool xs]) (auto simp: classify_wire list_all_iff)
  qed (use assms in auto)
qed

lemma decode_one_encode_value:
  assumes "encode_value v = Ok bs" and "wire_ok v" and "d < MAX_DEPTH"
  shows "decode_one (bs @ rest) d = Ok (wire_form v, length bs)"
  using decode_one_scalar [OF assms(1,2)] decode_one_encode_array [OF assms(1,2) _ assms(3)]
  by (cases "is_array v") auto



section \<open>Re-encoding\<close>

lemma encode_i64_cast:
  assumes "LENGTH('b::len) \<le> 64" and "- (2 ^ (LENGTH('b) - 1)) \<le> sint x" and "sint x < 2 ^ (LENGTH('b) - 1)"
  shows "encode_i64 (scast (ucast x :: 'b word)) = encode_i64 x"
  using scast_ucast_id [OF assms] by simp

lemma encode_int_wire: "encode_value (int_wire x) = Ok (encode_i64 x)"
proof -
  have "scast (ucast x :: u8) = x" if "- 128 \<le> sint x" "sint x \<le> 127"
    using scast_ucast_id [where ?'b = 8] that by simp
  moreover have "scast (ucast x :: u16) = x" if "- 32768 \<le> sint x" "sint x \<le> 32767"
    using scast_ucast_id [where ?'b = 16] that by simp
  moreover have "scast (ucast x :: u32) = x" if "- 2147483648 \<le> sint x" "sint x \<le> 2147483647"
    using scast_ucast_id [where ?'b = 32] that by simp
  moreover have "ucast (ucast x :: u8) = x \<and> unat x < 2 ^ 63" if "0 \<le> sint x" "sint x \<le> 127"
  proof
    show "ucast (ucast x :: u8) = x"
      using int_wire_reads(2) [of x] that by (simp add: int_wire_def)
    show "unat x < 2 ^ 63" using that(1) sint_nonneg_iff [of x] by simp
  qed
  ultimately show ?thesis by (auto simp: int_wire_def encode_uint_def)
qed

lemma encode_uint_wire: "encode_value (uint_wire x) = Ok (encode_uint x)"
  by (simp add: uint_wire_def encode_int_wire) (simp add: encode_uint_def)

lemma encode_each_map: "encode_each enc (map f xs) = encode_each (\<lambda>x. enc (f x)) xs"
  by (induction xs) auto

lemma encode_typed_array_map:
  "encode_typed_array enc (map f xs) = encode_typed_array (\<lambda>x. enc (f x)) xs"
  by (simp add: encode_typed_array_def encode_each_map)

lemma encode_list_wire:
  assumes "encode_value (f xs) = encode_typed_array enc xs"
  shows "encode_value (list_wire f xs) = encode_typed_array enc xs"
  using assms by (simp add: list_wire_def encode_typed_array_def)

lemma encode_each_cong:
  "(\<And>x. x \<in> set xs \<Longrightarrow> f x = g x) \<Longrightarrow> encode_each f xs = encode_each g xs"
  by (induction xs) auto

lemma encode_uints_wire: "encode_value (uints_wire xs) = encode_typed_array (\<lambda>x. Ok (encode_uint x)) xs"
proof (cases "list_ex (\<lambda>x. unat x \<ge> 2 ^ 63) xs")
  case False
  then have "encode_each (\<lambda>x. Ok (encode_i64 x)) xs = encode_each (\<lambda>x. Ok (encode_uint x)) xs"
    by (intro encode_each_cong) (auto simp: list_ex_iff encode_uint_def)
  with False show ?thesis by (simp add: uints_wire_def encode_typed_array_def)
qed (simp add: uints_wire_def)

lemma encode_wire_form: "encode_value (wire_form v) = encode_value v"
proof -
  note simps = encode_int_wire encode_uint_wire encode_typed_array_map
    encode_list_wire [where enc = "\<lambda>x. Ok (encode_i64 x)" and f = VInt64Array]
    encode_list_wire [where f = uints_wire, OF encode_uints_wire]
    encode_list_wire [where f = VFloatArray] encode_list_wire [where f = VStringArray]
    encode_list_wire [where f = VBoolArray]
  show ?thesis by (cases v) (simp_all add: simps)
qed



section \<open>Bounds\<close>

lemma decode_items_bounds:
  assumes "\<And>r v n. dec r = Ok (v, n) \<Longrightarrow> 0 < n \<and> n \<le> length r"
    and "decode_items dec len rest = Ok (items, rest')"
  shows "length items = len \<and> length rest' + len \<le> length rest"
  using assms(2)
proof (induction len arbitrary: rest items)
  case (Suc len)
  from Suc.prems obtain v n items' where step: "dec rest = Ok (v, n)"
    "decode_items dec len (drop n rest) = Ok (items', rest')" "items = v # items'"
    by (auto simp: bind_res_Inr_conv split: prod.splits)
  from Suc.IH [OF step(2)] assms(1) [OF step(1)] step(3) show ?case by auto
qed simp

lemma take_n_OkD: "take_n n buf = Ok (b, rest) \<Longrightarrow> length b = n \<and> length buf = n + length rest"
  by (auto simp: take_n_def split: if_splits)

lemma split_first_OkD: "split_first buf = Ok (b, rest) \<Longrightarrow> buf = b # rest"
  by (auto simp: split_first_def split: list.splits)

lemma get_prefix_OkD: "get_prefix n buf = Ok b \<Longrightarrow> n \<le> length buf"
  by (auto simp: get_prefix_def split: if_splits)

lemma decode_text_OkD: "decode_text b n = Ok (v, k) \<Longrightarrow> k = n"
  by (auto simp: decode_text_def split: option.splits)

lemmas decoder_dests = take_n_OkD split_first_OkD get_prefix_OkD decode_text_OkD

lemma decode_one_bounds_step:
  assumes arr: "\<And>items n. decode_array_at buf d = Ok (items, n) \<Longrightarrow> length items < n \<and> n \<le> length buf"
    and one: "decode_one buf d = Ok (v, n)"
  shows "0 < n \<and> n \<le> length buf"
proof -
  obtain marker rest where buf: "buf = marker # rest"
    using one by (auto simp: decode_one.simps [of buf] bind_res_Inr_conv dest: split_first_OkD)
  show ?thesis
  proof (cases "array_marker marker")
    case True
    from one obtain items where "decode_array_at buf d = Ok (items, n)"
      unfolding buf decode_one_marker [OF True] by (auto simp: bind_res_Inr_conv)
    from arr [OF this] show ?thesis by auto
  next
    case False
    with one show ?thesis
      unfolding buf array_marker_def decode_one.simps
      by (auto simp: bind_res_Inr_conv Let_def split: if_splits dest!: decoder_dests)
  qed
qed

lemma decode_array_at_bounds:
  "decode_array_at buf d = Ok (items, n) \<Longrightarrow> length items < n \<and> n \<le> length buf"
proof (induction "MAX_DEPTH - d" arbitrary: d buf items n rule: less_induct)
  case less
  from less.prems have shallow: "d < MAX_DEPTH"
    by (auto simp: decode_array_at.simps [of buf] split: if_splits)
  have elem: "0 < k \<and> k \<le> length r" if "decode_one r (d + 1) = Ok (v, k)" for r v k
    by (rule decode_one_bounds_step [OF _ that], rule less.hyps) (use shallow in auto)
  from less.prems obtain rest len rest' where
    body: "decode_items (\<lambda>r. decode_one r (d + 1)) len rest = Ok (items, rest')"
    and n: "n = length buf - length rest'" and rest: "length rest < length buf"
    unfolding decode_array_at.simps [of buf]
    by (auto simp: bind_res_Inr_conv split: if_splits dest!: decoder_dests)
  have "length items = len \<and> length rest' + len \<le> length rest"
    by (rule decode_items_bounds [OF _ body]) (use elem in simp)
  with n rest show ?case by auto
qed

lemma decode_one_bounds: "decode_one buf d = Ok (v, n) \<Longrightarrow> 0 < n \<and> n \<le> length buf"
  by (rule decode_one_bounds_step [OF decode_array_at_bounds])

text \<open>Decoding never reads past its input: a value taken off the front of a buffer of any
  bytes uses at least one byte and at most the bytes there are, and an array's header and elements
  fit in what it consumed, so an array cannot claim more elements than it has bytes.\<close>

lemma msgpack_decode_bounds:
  assumes "decode_one buf 0 = Ok (v, n)" and "decode_array buf = Ok (vs, k)"
  shows "0 < n \<and> n \<le> length buf \<and> length vs < k \<and> k \<le> length buf"
  using decode_one_bounds [OF assms(1)] decode_array_at_bounds [OF assms(2) [unfolded decode_array_def]]
  by simp

text \<open>The nesting limit: more than sixteen one-element array headers in a row are refused
  with \<open>TooDeep\<close> whatever follows them, so that hostile input bounds the decoder's recursion.\<close>

lemma msgpack_too_deep:
  assumes "MAX_DEPTH < k"
  shows "decode_value (replicate k 0x91 @ rest) = Err TooDeep"
proof -
  have "decode_one (replicate (Suc j) 0x91 @ rest) d = Err TooDeep" if "MAX_DEPTH \<le> d + j" for j d
    using that
  proof (induction j arbitrary: d)
    case 0
    then show ?case
      by (simp add: decode_one_marker array_marker_def decode_array_at.simps)
  next
    case (Suc j)
    then show ?case
      by (simp add: decode_one_marker array_marker_def decode_array_at.simps split_first_def)
  qed
  from this [where j = "k - 1" and d = 0] assms show ?thesis
    by (cases k) (simp_all add: decode_value_def)
qed

end
