(* ===== verification/Nt_Registry.thy ===== *)
theory Nt_Registry
  imports Nt_Message
begin

text \<open>
  The NT4 registry (\<^verbatim>\<open>core/src/websocket/protocol.rs\<close>): topics, publishers, subscribers
  and retained values.  The registry is a record with the source's fields; a handler takes it and
  returns the frames to send, keyed by client, with the registry after it.

  A \<open>HashMap\<close> is an association list and a \<open>HashSet\<close> a list without repetition, in the
  iteration order the source leaves open.  Topic ids, the publisher count and the persistence
  generation are natural numbers: the source's \<open>u32\<close>, \<open>usize\<close> and \<open>u64\<close> counters do
  not reach their limits, and an id becomes a \<open>u32\<close> where it goes on the wire.  The clock
  \<open>now_micros\<close> and the JSON printer are members of the environment; the registry carries the
  number of clock readings so far, so that every reading may differ.
\<close>

type_synonym client_id = u64

record env =
  to_string :: "json \<Rightarrow> string"
  clock :: "nat \<Rightarrow> u64"

datatype outbound = Text string | ValueFrame bytes

type_synonym routes = "(client_id \<times> outbound) list"

record stamped_value =
  ts_micros :: u64
  stamped :: nt_value

record topic_state =
  t_name :: string
  t_data_type :: u32
  t_type_str :: string
  t_properties :: jmap
  t_current :: "stamped_value option"
  t_publishers :: nat
  t_retained :: bool
  t_cached :: bool
  t_persistent :: bool

record subscription =
  s_patterns :: "string list"
  s_prefix :: bool
  s_topics_only :: bool
  s_matched :: "nat list"
  s_options :: jmap

record client_state =
  pubs :: "(u32, nat) hm"
  subs :: "(u32, subscription) hm"
  conn_info :: string

record nt_registry =
  topics :: "(nat, topic_state) hm"
  by_name :: "(string, nat) hm"
  clients :: "(client_id, client_state) hm"
  topic_subscribers :: "(nat, client_id list) hm"
  topic_announced :: "(nat, client_id list) hm"
  freed :: "nat list"
  next_id :: nat
  client_names :: "string list"
  client_name_by_id :: "(client_id, string) hm"
  persistent_generation :: nat
  clock_reads :: nat

definition MAX_PER_CLIENT :: nat where "MAX_PER_CLIENT = 512"

definition MAX_TOPICS :: nat where "MAX_TOPICS = 16384"

definition registry_new :: nt_registry where
  "registry_new = \<lparr> topics = [], by_name = [], clients = [], topic_subscribers = [],
     topic_announced = [], freed = [], next_id = 0, client_names = [], client_name_by_id = [],
     persistent_generation = 0, clock_reads = 0 \<rparr>"

definition client_default :: client_state where
  "client_default = \<lparr> pubs = [], subs = [], conn_info = '''' \<rparr>"

text \<open>\<open>routes.extend(self.f(..))\<close>: run the next step on the registry and append its frames.\<close>

definition extend :: "routes \<times> nt_registry \<Rightarrow> (nt_registry \<Rightarrow> routes \<times> nt_registry) \<Rightarrow> routes \<times> nt_registry" where
  "extend p f = (let (more, r) = f (snd p) in (fst p @ more, r))"

text \<open>A loop that extends \<open>routes\<close> once per item.\<close>

primrec extend_each ::
  "('a \<Rightarrow> nt_registry \<Rightarrow> routes \<times> nt_registry) \<Rightarrow> 'a list \<Rightarrow> nt_registry \<Rightarrow> routes \<times> nt_registry" where
  "extend_each f [] r = ([], r)"
| "extend_each f (x # xs) r = extend (f x r) (extend_each f xs)"

section \<open>Names, patterns and properties\<close>

definition is_meta_topic :: "string \<Rightarrow> bool" where
  "is_meta_topic name = starts_with name ''$''"

definition sub_visible_to :: "subscription \<Rightarrow> string \<Rightarrow> bool" where
  "sub_visible_to sub topic_name \<longleftrightarrow>
     \<not> starts_with topic_name ''$'' \<or> list_ex (\<lambda>p. starts_with p ''$'') (s_patterns sub)"

definition pattern_matches :: "bool \<Rightarrow> string \<Rightarrow> string \<Rightarrow> bool" where
  "pattern_matches prefix pattern name = (if prefix then starts_with name pattern else name = pattern)"

definition sub_matches :: "subscription \<Rightarrow> string \<Rightarrow> bool" where
  "sub_matches sub name = list_ex (\<lambda>p. pattern_matches (s_prefix sub) p name) (s_patterns sub)"

definition bool_property :: "jmap \<Rightarrow> string \<Rightarrow> bool \<Rightarrow> bool" where
  "bool_property properties key dflt =
     (case Option.bind (om_get properties key) json_as_bool of Some b \<Rightarrow> b | None \<Rightarrow> dflt)"

definition sync_properties :: "topic_state \<Rightarrow> topic_state" where
  "sync_properties t = t\<lparr> t_cached := bool_property (t_properties t) ''cached'' True,
                           t_persistent := bool_property (t_properties t) ''persistent'' False \<rparr>"

definition is_retained :: "topic_state \<Rightarrow> bool" where
  "is_retained t \<longleftrightarrow> t_retained t \<or>
     list_ex (\<lambda>key. bool_property (t_properties t) key False) [''persistent'', ''retained'']"

text \<open>The encoder panics on a value of 4 GiB or more, where \<open>encode_once\<close> has no frame; the
  model then yields the empty frame, which is never the encoding of a value message.\<close>

definition encode_once :: "nt_value \<Rightarrow> u64 \<Rightarrow> u32 \<Rightarrow> bytes" where
  "encode_once v ts topic_id =
     (case encode_value_message topic_id ts (xt_data_type v) v of Ok b \<Rightarrow> b | Err _ \<Rightarrow> [])"

section \<open>Ids, clients and announcements\<close>

definition alloc_id :: "nt_registry \<Rightarrow> nat \<times> nt_registry" where
  "alloc_id r =
     (if freed r \<noteq> []
      then let i = Min (set (freed r)) in (i, r\<lparr> freed := remove1 i (freed r) \<rparr>)
      else (next_id r, r\<lparr> next_id := next_id r + 1 \<rparr>))"

definition free_id :: "nat \<Rightarrow> nt_registry \<Rightarrow> nt_registry" where
  "free_id i r = r\<lparr> freed := freed r @ [i] \<rparr>"

text \<open>What every place that creates a topic does: take an id, store the state under it and the id
  under its name.\<close>

definition insert_topic :: "topic_state \<Rightarrow> nt_registry \<Rightarrow> nat \<times> nt_registry" where
  "insert_topic t r =
     (let (i, r) = alloc_id r in
      (i, r\<lparr> topics := hm_insert (topics r) i t, by_name := hm_insert (by_name r) (t_name t) i \<rparr>))"

definition ensure_client :: "client_id \<Rightarrow> nt_registry \<Rightarrow> nt_registry" where
  "ensure_client c r =
     (if hm_has (clients r) c then r else r\<lparr> clients := hm_insert (clients r) c client_default \<rparr>)"

definition list_of :: "('k, 'a list) hm \<Rightarrow> 'k \<Rightarrow> 'a list" where
  "list_of m k = (case hm_get m k of Some xs \<Rightarrow> xs | None \<Rightarrow> [])"

definition add_subscriber :: "client_id \<Rightarrow> nat \<Rightarrow> nt_registry \<Rightarrow> nt_registry" where
  "add_subscriber c i r =
     (let xs = list_of (topic_subscribers r) i in
      r\<lparr> topic_subscribers :=
          hm_insert (topic_subscribers r) i (if c \<in> set xs then xs else xs @ [c]) \<rparr>)"

definition add_announced :: "client_id \<Rightarrow> nat \<Rightarrow> nt_registry \<Rightarrow> bool \<times> nt_registry" where
  "add_announced c i r =
     (let xs = list_of (topic_announced r) i in
      if c \<in> set xs then (False, r\<lparr> topic_announced := hm_insert (topic_announced r) i xs \<rparr>)
      else (True, r\<lparr> topic_announced := hm_insert (topic_announced r) i (xs @ [c]) \<rparr>))"

text \<open>\<open>announce_json\<close> indexes \<open>topics\<close> and panics without the topic; every caller has it.\<close>

definition announce_json :: "env \<Rightarrow> nat \<Rightarrow> u32 option \<Rightarrow> nt_registry \<Rightarrow> string" where
  "announce_json E i pubuid r =
     (case hm_get (topics r) i of
        Some t \<Rightarrow> to_json (to_string E)
                    (Announce (t_name t) (of_nat i) (t_type_str t) (t_properties t) pubuid)
      | None \<Rightarrow> [])"

definition unannounce_json :: "env \<Rightarrow> nat \<Rightarrow> string \<Rightarrow> string" where
  "unannounce_json E i name = to_json (to_string E) (Unannounce name (of_nat i))"

definition properties_json :: "env \<Rightarrow> string \<Rightarrow> jmap \<Rightarrow> bool option \<Rightarrow> string" where
  "properties_json E name update ack = to_json (to_string E) (PropertiesUpdate name update ack)"

text \<open>\<open>announce_to_matching\<close>: a first loop over the clients marks the matching subscriptions and
  collects the targets, a second one announces.\<close>

definition note_match :: "nat \<Rightarrow> string \<Rightarrow> subscription \<Rightarrow> subscription" where
  "note_match i name sub =
     (if sub_visible_to sub name \<and> sub_matches sub name
      then sub\<lparr> s_matched := List.insert i (s_matched sub) \<rparr> else sub)"

definition match_targets :: "string \<Rightarrow> (client_id, client_state) hm \<Rightarrow> (client_id \<times> bool) list" where
  "match_targets name cs =
     filter_map (\<lambda>(cid, st).
       let hits = filter (\<lambda>sub. sub_visible_to sub name \<and> sub_matches sub name) (map snd (subs st)) in
       if hits \<noteq> [] then Some (cid, list_ex (\<lambda>sub. \<not> s_topics_only sub) hits) else None) cs"

definition announce_one :: "env \<Rightarrow> nat \<Rightarrow> client_id \<times> bool \<Rightarrow> nt_registry \<Rightarrow> routes \<times> nt_registry" where
  "announce_one E i target r =
     (let (cid, wants_values) = target;
          (first, r) = add_announced cid i r;
          routes = (if first then [(cid, Text (announce_json E i None r))] else []);
          r = (if wants_values then add_subscriber cid i r else r)
      in (routes, r))"

definition announce_to_matching :: "env \<Rightarrow> nat \<Rightarrow> string \<Rightarrow> nt_registry \<Rightarrow> routes \<times> nt_registry" where
  "announce_to_matching E i name r =
     (let targets = match_targets name (clients r);
          r = r\<lparr> clients := hm_map (\<lambda>st. st\<lparr> subs := hm_map (note_match i name) (subs st) \<rparr>) (clients r) \<rparr>
      in extend_each (announce_one E i) targets r)"

section \<open>Values\<close>

definition registry_topic_id :: "string \<Rightarrow> nt_registry \<Rightarrow> nat option" where
  "registry_topic_id name r = hm_get (by_name r) name"

definition topic_name :: "nat \<Rightarrow> nt_registry \<Rightarrow> string option" where
  "topic_name i r = map_option t_name (hm_get (topics r) i)"

definition topic_id_for_pubuid :: "client_id \<Rightarrow> u32 \<Rightarrow> nt_registry \<Rightarrow> nat option" where
  "topic_id_for_pubuid c pubuid r =
     Option.bind (hm_get (clients r) c) (\<lambda>st. hm_get (pubs st) pubuid)"

definition conform :: "nat \<Rightarrow> nt_value \<Rightarrow> nt_registry \<Rightarrow> nt_value" where
  "conform i v r = (case hm_get (topics r) i of Some t \<Rightarrow> conformed v (t_data_type t) | None \<Rightarrow> v)"

definition accepts_value :: "nat \<Rightarrow> nt_value \<Rightarrow> nt_registry \<Rightarrow> bool" where
  "accepts_value i v r =
     (case hm_get (topics r) i of Some t \<Rightarrow> xt_data_type v = t_data_type t | None \<Rightarrow> False)"

definition handle_topic_value :: "nat \<Rightarrow> nt_value \<Rightarrow> u64 \<Rightarrow> nt_registry \<Rightarrow> routes \<times> nt_registry" where
  "handle_topic_value i v ts r =
     (case hm_get (topics r) i of
        None \<Rightarrow> ([], r)
      | Some topic \<Rightarrow>
          if xt_data_type v \<noteq> t_data_type topic then ([], r)
          else
            let cached = t_cached topic;
                retain = (case t_current topic of None \<Rightarrow> True | Some cur \<Rightarrow> ts \<ge> ts_micros cur);
                r = (if retain \<and> cached
                     then r\<lparr> topics := hm_modify (topics r) i
                               (\<lambda>t. t\<lparr> t_current := Some \<lparr> ts_micros = ts, stamped = v \<rparr> \<rparr>),
                             persistent_generation :=
                               persistent_generation r + (if t_persistent topic then 1 else 0) \<rparr>
                     else r);
                frame = encode_once v ts (of_nat i)
            in (map (\<lambda>c. (c, ValueFrame frame)) (list_of (topic_subscribers r) i), r))"

definition handle_value :: "client_id \<Rightarrow> u32 \<Rightarrow> nt_value \<Rightarrow> u64 \<Rightarrow> nt_registry \<Rightarrow> routes \<times> nt_registry" where
  "handle_value c pubuid v ts r =
     (case topic_id_for_pubuid c pubuid r of
        None \<Rightarrow> ([], r)
      | Some i \<Rightarrow> handle_topic_value i v ts r)"

definition handle_upsert_value :: "string \<Rightarrow> nt_value \<Rightarrow> u64 \<Rightarrow> nt_registry \<Rightarrow> routes \<times> nt_registry" where
  "handle_upsert_value name v ts r =
     (case hm_get (by_name r) name of
        Some i \<Rightarrow> handle_topic_value i v ts r
      | None \<Rightarrow>
          if length (topics r) \<ge> MAX_TOPICS then ([], r)
          else
            let (i, r) = insert_topic
                  \<lparr> t_name = name, t_data_type = xt_data_type v,
                    t_type_str = (case type_string (xt_data_type v) of Some s \<Rightarrow> s | None \<Rightarrow> []),
                    t_properties = [], t_current = None, t_publishers = 0,
                    t_retained = True, t_cached = True, t_persistent = False \<rparr> r
            in handle_topic_value i v ts r)"

definition handle_timestamp :: "client_id \<Rightarrow> nt_value \<Rightarrow> u64 \<Rightarrow> nt_registry \<Rightarrow> routes \<times> nt_registry" where
  "handle_timestamp c v server_ts r =
     ([(c, ValueFrame (encode_once v server_ts RTT_TOPIC_ID))], r)"

section \<open>Meta topics\<close>

definition ensure_meta_topic :: "env \<Rightarrow> string \<Rightarrow> nt_registry \<Rightarrow> nat \<times> routes \<times> nt_registry" where
  "ensure_meta_topic E name r =
     (case hm_get (by_name r) name of
        Some i \<Rightarrow> (i, [], r)
      | None \<Rightarrow>
          let (i, r) = insert_topic
                \<lparr> t_name = name, t_data_type = 5, t_type_str = ''msgpack'', t_properties = [],
                  t_current = None, t_publishers = 0, t_retained = True, t_cached = True,
                  t_persistent = False \<rparr> r
          in (i, announce_to_matching E i name r))"

definition now_micros :: "env \<Rightarrow> nt_registry \<Rightarrow> u64 \<times> nt_registry" where
  "now_micros E r = (clock E (clock_reads r), r\<lparr> clock_reads := clock_reads r + 1 \<rparr>)"

definition publish_meta :: "env \<Rightarrow> string \<Rightarrow> jmap list \<Rightarrow> nt_registry \<Rightarrow> routes \<times> nt_registry" where
  "publish_meta E name maps r =
     (let (i, routes, r) = ensure_meta_topic E name r in
      case encode_meta_payload maps of
        Err _ \<Rightarrow> (routes, r)
      | Ok bs \<Rightarrow>
          let (now, r) = now_micros E r in
          extend (routes, r) (handle_topic_value i (VBytes bs) now))"

definition client_name :: "client_id \<Rightarrow> nt_registry \<Rightarrow> string option" where
  "client_name c r = hm_get (client_name_by_id r) c"

definition name_or_empty :: "client_id \<Rightarrow> nt_registry \<Rightarrow> string" where
  "name_or_empty c r = (case hm_get (client_name_by_id r) c of Some n \<Rightarrow> n | None \<Rightarrow> '''')"

definition update_meta_clients :: "env \<Rightarrow> nt_registry \<Rightarrow> routes \<times> nt_registry" where
  "update_meta_clients E r =
     publish_meta E ''$clients''
       (map (\<lambda>(cid, cs). inserted [(''id'', JString (name_or_empty cid r)),
                                    (''conn'', JString (conn_info cs))]) (clients r)) r"

definition update_meta_clientpub :: "env \<Rightarrow> client_id \<Rightarrow> nt_registry \<Rightarrow> routes \<times> nt_registry" where
  "update_meta_clientpub E c r =
     (case hm_get (client_name_by_id r) c of
        None \<Rightarrow> ([], r)
      | Some name \<Rightarrow>
          publish_meta E (''$clientpub$'' @ name)
            (case hm_get (clients r) c of
               None \<Rightarrow> []
             | Some cs \<Rightarrow> map (\<lambda>(uid, tid). inserted ([(''uid'', json_u32 uid)]
                 @ (case hm_get (topics r) tid of
                      Some t \<Rightarrow> [(''topic'', JString (t_name t))] | None \<Rightarrow> []))) (pubs cs)) r)"

definition update_meta_clientsub :: "env \<Rightarrow> client_id \<Rightarrow> nt_registry \<Rightarrow> routes \<times> nt_registry" where
  "update_meta_clientsub E c r =
     (case hm_get (client_name_by_id r) c of
        None \<Rightarrow> ([], r)
      | Some name \<Rightarrow>
          publish_meta E (''$clientsub$'' @ name)
            (case hm_get (clients r) c of
               None \<Rightarrow> []
             | Some cs \<Rightarrow> map (\<lambda>(uid, sub). inserted [(''uid'', json_u32 uid),
                 (''topics'', JArray (map JString (s_patterns sub))),
                 (''options'', JObject (s_options sub))]) (subs cs)) r)"

definition update_meta_sub :: "env \<Rightarrow> string \<Rightarrow> nt_registry \<Rightarrow> routes \<times> nt_registry" where
  "update_meta_sub E name r =
     (case hm_get (by_name r) name of
        None \<Rightarrow> ([], r)
      | Some i \<Rightarrow>
          publish_meta E (''$sub$'' @ name)
            (concat (map (\<lambda>cid. case hm_get (clients r) cid of
                None \<Rightarrow> []
              | Some cs \<Rightarrow> filter_map (\<lambda>(subuid, sub).
                  if i \<in> set (s_matched sub)
                  then Some (inserted [(''client'', JString (name_or_empty cid r)),
                         (''subuid'', json_u32 subuid), (''options'', JObject (s_options sub))])
                  else None) (subs cs))
              (list_of (topic_subscribers r) i))) r)"

definition update_meta_sub_for :: "env \<Rightarrow> nat list \<Rightarrow> nt_registry \<Rightarrow> routes \<times> nt_registry" where
  "update_meta_sub_for E ids r =
     (let names = map t_name (filter (\<lambda>t. \<not> is_meta_topic (t_name t))
                    (filter_map (hm_get (topics r)) ids))
      in extend_each (update_meta_sub E) names r)"

definition update_meta_pub :: "env \<Rightarrow> string \<Rightarrow> nt_registry \<Rightarrow> routes \<times> nt_registry" where
  "update_meta_pub E name r =
     (case hm_get (by_name r) name of
        None \<Rightarrow> ([], r)
      | Some i \<Rightarrow>
          publish_meta E (''$pub$'' @ name)
            (concat (map (\<lambda>(cid, cs). filter_map (\<lambda>(uid, tid).
                if tid = i
                then Some (inserted [(''client'', JString (name_or_empty cid r)),
                                     (''pubuid'', json_u32 uid)])
                else None) (pubs cs)) (clients r))) r)"

definition update_meta_serversub :: "env \<Rightarrow> nt_registry \<Rightarrow> routes \<times> nt_registry" where
  "update_meta_serversub E r = publish_meta E ''$serversub'' [] r"

definition update_meta_serverpub :: "env \<Rightarrow> nt_registry \<Rightarrow> routes \<times> nt_registry" where
  "update_meta_serverpub E r = publish_meta E ''$serverpub'' [] r"

section \<open>Deleting topics\<close>

text \<open>\<open>delete_topic\<close> up to its two calls on the topic's meta topics.\<close>

definition forget_match :: "nat \<Rightarrow> client_state \<Rightarrow> client_state" where
  "forget_match i cs =
     cs\<lparr> subs := hm_map (\<lambda>sub. sub\<lparr> s_matched := removeAll i (s_matched sub) \<rparr>) (subs cs) \<rparr>"

definition unlink_topic :: "nat \<Rightarrow> topic_state \<Rightarrow> nt_registry \<Rightarrow> nt_registry" where
  "unlink_topic i topic r =
     free_id i (r\<lparr>
       topics := hm_remove (topics r) i,
       persistent_generation := persistent_generation r + (if t_persistent topic then 1 else 0),
       by_name := hm_remove (by_name r) (t_name topic),
       topic_subscribers := hm_remove (topic_subscribers r) i,
       topic_announced := hm_remove (topic_announced r) i,
       clients := hm_map (forget_match i) (clients r) \<rparr>)"

lemma topics_unlink_topic [simp]: "topics (unlink_topic i t r) = hm_remove (topics r) i"
  by (simp add: unlink_topic_def free_id_def)

lemma hm_remove_shorter: "hm_get m k = Some v \<Longrightarrow> length (hm_remove m k) < length m"
  by (induction m) (auto simp: hm_remove_def less_Suc_eq_le)

text \<open>The recursion through \<open>delete_topic_if_exists\<close> ends because every call that recurses has
  removed a topic.\<close>

function delete_topic :: "env \<Rightarrow> nat \<Rightarrow> nt_registry \<Rightarrow> routes \<times> nt_registry" where
  "delete_topic E i r =
     (case hm_get (topics r) i of
        None \<Rightarrow> ([], r)
      | Some topic \<Rightarrow>
          let r1 = unlink_topic i topic r;
              r2 = (case hm_get (by_name r1) (''$pub$'' @ t_name topic) of
                      Some j \<Rightarrow> snd (delete_topic E j r1) | None \<Rightarrow> r1);
              r3 = (case hm_get (by_name r2) (''$sub$'' @ t_name topic) of
                      Some j \<Rightarrow> snd (delete_topic E j r2) | None \<Rightarrow> r2)
          in (map (\<lambda>c. (c, Text (unannounce_json E i (t_name topic)))) (list_of (topic_announced r) i), r3))"
  by pat_completeness auto

lemma delete_topic_shrinks:
  "delete_topic_dom (E, i, r) \<Longrightarrow> length (topics (snd (delete_topic E i r))) \<le> length (topics r)"
proof (induction rule: delete_topic.pinduct)
  case (1 E i r)
  have "length (hm_remove (topics r) i) \<le> length (topics r)"
    by (simp add: hm_remove_def)
  with 1 show ?case
    by (subst delete_topic.psimps)
      (fastforce simp: Let_def split: option.splits intro: order_trans)+
qed

termination delete_topic
proof (relation "measure (\<lambda>(E, i, r). length (topics r))", goal_cases)
  case (2 E i r topic r1 j)
  then show ?case by (auto dest: hm_remove_shorter)
next
  case (3 E i r topic r1 r2 j)
  then show ?case
    using delete_topic_shrinks by (fastforce dest: hm_remove_shorter split: option.splits)
qed simp

declare delete_topic.simps [simp del]

definition delete_topic_if_exists :: "env \<Rightarrow> string \<Rightarrow> nt_registry \<Rightarrow> nt_registry" where
  "delete_topic_if_exists E name r =
     (case hm_get (by_name r) name of Some i \<Rightarrow> snd (delete_topic E i r) | None \<Rightarrow> r)"

lemma delete_topic_eq:
  "delete_topic E i r =
     (case hm_get (topics r) i of
        None \<Rightarrow> ([], r)
      | Some topic \<Rightarrow>
          (map (\<lambda>c. (c, Text (unannounce_json E i (t_name topic)))) (list_of (topic_announced r) i),
           delete_topic_if_exists E (''$sub$'' @ t_name topic)
             (delete_topic_if_exists E (''$pub$'' @ t_name topic) (unlink_topic i topic r))))"
  by (subst delete_topic.simps) (simp add: delete_topic_if_exists_def Let_def split: option.splits)

section \<open>Publishing\<close>

definition release_publisher :: "env \<Rightarrow> nat \<Rightarrow> nt_registry \<Rightarrow> routes \<times> nt_registry" where
  "release_publisher E i r =
     (case hm_get (topics r) i of
        None \<Rightarrow> ([], r)
      | Some topic \<Rightarrow>
          let r = r\<lparr> topics := hm_modify (topics r) i (\<lambda>t. t\<lparr> t_publishers := t_publishers t - 1 \<rparr>) \<rparr>;
              orphaned = (t_publishers topic - 1 = 0 \<and> \<not> is_retained topic)
          in extend (if orphaned then delete_topic E i r else ([], r))
               (update_meta_pub E (t_name topic)))"

definition update_client :: "client_id \<Rightarrow> (client_state \<Rightarrow> client_state) \<Rightarrow> nt_registry \<Rightarrow> nt_registry" where
  "update_client c f r = r\<lparr> clients := hm_modify (clients r) c f \<rparr>"

text \<open>Whether a client may not hold one more of a kind of uid.\<close>

definition at_cap :: "(u32, 'a) hm \<Rightarrow> u32 \<Rightarrow> bool" where
  "at_cap m uid \<longleftrightarrow> \<not> hm_has m uid \<and> length m \<ge> MAX_PER_CLIENT"

definition client_of :: "client_id \<Rightarrow> nt_registry \<Rightarrow> client_state" where
  "client_of c r = (case hm_get (clients r) c of Some cs \<Rightarrow> cs | None \<Rightarrow> client_default)"

definition publish_topic ::
  "string \<Rightarrow> string \<Rightarrow> jmap \<Rightarrow> nt_registry \<Rightarrow> nat \<times> nt_registry" where
  "publish_topic name type_str properties r =
     (let topic = sync_properties
            \<lparr> t_name = name, t_data_type = data_type_from_string type_str, t_type_str = type_str,
              t_properties = properties, t_current = None, t_publishers = 0,
              t_retained = False, t_cached = True, t_persistent = False \<rparr>;
          (i, r) = insert_topic topic r
      in (i, r\<lparr> persistent_generation := persistent_generation r + (if t_persistent topic then 1 else 0) \<rparr>))"

definition handle_publish ::
  "env \<Rightarrow> client_id \<Rightarrow> string \<Rightarrow> u32 \<Rightarrow> string \<Rightarrow> jmap \<Rightarrow> nt_registry \<Rightarrow> routes \<times> nt_registry" where
  "handle_publish E c name pubuid type_str properties r =
     (let r = ensure_client c r in
      if at_cap (pubs (client_of c r)) pubuid then ([], r)
      else if hm_get (by_name r) name = None \<and> length (topics r) \<ge> MAX_TOPICS then ([], r)
      else
        let (is_new, i, r) =
              (case hm_get (by_name r) name of
                 Some i \<Rightarrow> (False, i, r)
               | None \<Rightarrow> (True, publish_topic name type_str properties r));
            previous = hm_get (pubs (client_of c r)) pubuid;
            r = update_client c (\<lambda>cs. cs\<lparr> pubs := hm_insert (pubs cs) pubuid i \<rparr>) r;
            r = (if previous \<noteq> Some i
                 then r\<lparr> topics := hm_modify (topics r) i (\<lambda>t. t\<lparr> t_publishers := t_publishers t + 1 \<rparr>) \<rparr>
                 else r);
            r = snd (add_announced c i r);
            p = ([(c, Text (announce_json E i (Some pubuid) r))], r);
            p = (if is_new then extend p (announce_to_matching E i name) else p);
            p = (case previous of
                   Some old \<Rightarrow> if old \<noteq> i then extend p (release_publisher E old) else p
                 | None \<Rightarrow> p);
            p = extend p (update_meta_clientpub E c)
        in extend p (update_meta_pub E name))"

definition handle_unpublish :: "env \<Rightarrow> client_id \<Rightarrow> u32 \<Rightarrow> nt_registry \<Rightarrow> routes \<times> nt_registry" where
  "handle_unpublish E c pubuid r =
     (case topic_id_for_pubuid c pubuid r of
        None \<Rightarrow> ([], r)
      | Some i \<Rightarrow>
          let r = update_client c (\<lambda>cs. cs\<lparr> pubs := hm_remove (pubs cs) pubuid \<rparr>) r in
          if \<not> hm_has (topics r) i
          then ([], r\<lparr> clients := hm_map (\<lambda>cs. cs\<lparr> pubs := filter (\<lambda>(_, tid). tid \<noteq> i) (pubs cs) \<rparr>)
                                    (clients r) \<rparr>)
          else extend (release_publisher E i r) (update_meta_clientpub E c))"

definition handle_unannounce :: "env \<Rightarrow> client_id \<Rightarrow> string \<Rightarrow> nt_registry \<Rightarrow> routes \<times> nt_registry" where
  "handle_unannounce E c name r =
     (case hm_get (by_name r) name of
        None \<Rightarrow> ([], r)
      | Some i \<Rightarrow>
          let r = update_client c (\<lambda>cs. cs\<lparr> pubs := filter (\<lambda>(_, tid). tid \<noteq> i) (pubs cs) \<rparr>) r in
          extend (extend (delete_topic E i r) (update_meta_clientpub E c)) (update_meta_pub E name))"

definition apply_update :: "jmap \<Rightarrow> jmap \<Rightarrow> jmap" where
  "apply_update update properties =
     fold (\<lambda>(key, v) m. if v = JNull then om_remove m key else om_insert m key v) update properties"

definition handle_setproperties :: "env \<Rightarrow> client_id \<Rightarrow> string \<Rightarrow> jmap \<Rightarrow> nt_registry \<Rightarrow> routes \<times> nt_registry" where
  "handle_setproperties E c name update r =
     (case hm_get (by_name r) name of
        None \<Rightarrow> ([], r)
      | Some i \<Rightarrow>
          let change = (\<lambda>t. sync_properties (t\<lparr> t_properties := apply_update update (t_properties t) \<rparr>));
              r = (case hm_get (topics r) i of
                     None \<Rightarrow> r
                   | Some topic \<Rightarrow>
                       r\<lparr> topics := hm_modify (topics r) i change,
                          persistent_generation := persistent_generation r +
                            (if t_persistent topic \<or> t_persistent (change topic) then 1 else 0) \<rparr>);
              with_ack = properties_json E name update (Some True);
              no_ack = properties_json E name update None
          in (map (\<lambda>a. (a, Text (if a = c then with_ack else no_ack))) (list_of (topic_announced r) i), r))"

section \<open>Subscribing\<close>

definition drop_subscriber :: "client_id \<Rightarrow> nat \<Rightarrow> nt_registry \<Rightarrow> nt_registry" where
  "drop_subscriber c i r =
     r\<lparr> topic_subscribers := hm_modify (topic_subscribers r) i (removeAll c) \<rparr>"

text \<open>The loop of \<open>handle_subscribe\<close> over one matched topic.\<close>

definition subscribe_one :: "env \<Rightarrow> client_id \<Rightarrow> bool \<Rightarrow> nat \<Rightarrow> nt_registry \<Rightarrow> routes \<times> nt_registry" where
  "subscribe_one E c topics_only i r =
     (let r = (if \<not> topics_only then add_subscriber c i r else r);
          (first, r) = add_announced c i r;
          routes = (if first then [(c, Text (announce_json E i None r))] else []);
          late = (case hm_get (topics r) i of
                    Some t \<Rightarrow> if t_cached t then t_current t else None | None \<Rightarrow> None)
      in (routes @ (if topics_only then []
                    else case late of
                      Some sv \<Rightarrow> [(c, ValueFrame (encode_once (stamped sv) (ts_micros sv) (of_nat i)))]
                    | None \<Rightarrow> []), r))"

definition matched_ids :: "subscription \<Rightarrow> nt_registry \<Rightarrow> nat list" where
  "matched_ids sub r =
     sort (map snd (filter (\<lambda>(nm, _). sub_visible_to sub nm \<and> sub_matches sub nm) (by_name r)))"

definition set_insert_all :: "'a list \<Rightarrow> 'a list \<Rightarrow> 'a list" where
  "set_insert_all xs s = fold List.insert xs s"

text \<open>Taking a subscription away: the client leaves the fan-out of every topic it matched.\<close>

definition drop_subscription :: "client_id \<Rightarrow> u32 \<Rightarrow> nt_registry \<Rightarrow> nat list \<times> nt_registry" where
  "drop_subscription c subuid r =
     (case hm_get (subs (client_of c r)) subuid of
        None \<Rightarrow> ([], r)
      | Some prev \<Rightarrow>
          (s_matched prev,
           fold (drop_subscriber c) (s_matched prev)
             (update_client c (\<lambda>cs. cs\<lparr> subs := hm_remove (subs cs) subuid \<rparr>) r)))"

definition handle_subscribe ::
  "env \<Rightarrow> client_id \<Rightarrow> string list \<Rightarrow> u32 \<Rightarrow> bool \<Rightarrow> bool \<Rightarrow> jmap \<Rightarrow> nt_registry \<Rightarrow> routes \<times> nt_registry" where
  "handle_subscribe E c patterns subuid prefix topics_only options r =
     (let r = ensure_client c r in
      if at_cap (subs (client_of c r)) subuid then ([], r)
      else
        let (touched, r) = drop_subscription c subuid r;
            sub = \<lparr> s_patterns = patterns, s_prefix = prefix, s_topics_only = topics_only,
                    s_matched = [], s_options = options \<rparr>;
            ids = matched_ids sub r;
            sub = sub\<lparr> s_matched := set_insert_all ids [] \<rparr>;
            touched = set_insert_all ids touched;
            (routes, r) = extend_each (subscribe_one E c topics_only) ids r;
            r = update_client c (\<lambda>cs. cs\<lparr> subs := hm_insert (subs cs) subuid sub \<rparr>) r
        in extend (extend (routes, r) (update_meta_clientsub E c)) (update_meta_sub_for E touched))"

definition handle_unsubscribe :: "env \<Rightarrow> client_id \<Rightarrow> u32 \<Rightarrow> nt_registry \<Rightarrow> routes \<times> nt_registry" where
  "handle_unsubscribe E c subuid r =
     (let (touched, r) = drop_subscription c subuid r
      in extend (extend ([], r) (update_meta_clientsub E c)) (update_meta_sub_for E touched))"

section \<open>Persistence\<close>

definition persistent_snapshot :: "nt_registry \<Rightarrow> (string \<times> string \<times> nt_value \<times> jmap) list" where
  "persistent_snapshot r =
     filter_map (\<lambda>t. map_option (\<lambda>sv. (t_name t, t_type_str t, stamped sv, t_properties t)) (t_current t))
       (filter (\<lambda>t. bool_property (t_properties t) ''persistent'' False) (map snd (topics r)))"

definition restore_one :: "u64 \<Rightarrow> string \<times> string \<times> nt_value \<times> jmap \<Rightarrow> nt_registry \<Rightarrow> nt_registry" where
  "restore_one ts e r =
     (let (name, type_str, v, properties) = e in
      if hm_has (by_name r) name then r
      else snd (insert_topic (sync_properties
             \<lparr> t_name = name, t_data_type = data_type_from_string type_str, t_type_str = type_str,
               t_properties = properties, t_current = Some \<lparr> ts_micros = ts, stamped = v \<rparr>,
               t_publishers = 0, t_retained = True, t_cached = True, t_persistent = False \<rparr>) r))"

definition restore_persistent :: "(string \<times> string \<times> nt_value \<times> jmap) list \<Rightarrow> u64 \<Rightarrow> nt_registry \<Rightarrow> nt_registry" where
  "restore_persistent entries ts r =
     (let r = fold (restore_one ts) entries r
      in r\<lparr> persistent_generation := persistent_generation r + 1 \<rparr>)"

definition set_retained :: "string \<Rightarrow> bool \<Rightarrow> nt_registry \<Rightarrow> nt_registry" where
  "set_retained name retained r =
     (case hm_get (by_name r) name of
        None \<Rightarrow> r
      | Some i \<Rightarrow> r\<lparr> topics := hm_modify (topics r) i (\<lambda>t. t\<lparr> t_retained := retained \<rparr>) \<rparr>)"

section \<open>Connections\<close>

text \<open>Decimal printing of an unsigned number, as \<open>format!\<close> does it, and its inverse.\<close>

fun show_nat :: "nat \<Rightarrow> string" where
  "show_nat n = (if n < 10 then [char_of (48 + n)] else show_nat (n div 10) @ [char_of (48 + n mod 10)])"

declare show_nat.simps [simp del]

definition read_nat :: "string \<Rightarrow> nat" where
  "read_nat s = foldl (\<lambda>acc c. 10 * acc + (of_char c - 48)) 0 s"

lemma read_show_nat [simp]: "read_nat (show_nat n) = n"
proof (induction n rule: show_nat.induct)
  case (1 n)
  have digit: "of_char (char_of (48 + d :: nat)) - 48 = d" if "d < 10" for d :: nat
    using that by (simp add: of_char_of)
  show ?case
  proof (cases "n < 10")
    case True
    then show ?thesis by (subst show_nat.simps) (simp add: read_nat_def digit)
  next
    case False
    with 1 show ?thesis
      by (subst show_nat.simps) (simp add: read_nat_def digit)
  qed
qed

lemma show_nat_inject [simp]: "show_nat m = show_nat n \<longleftrightarrow> m = n"
  by (metis read_show_nat)

definition name_candidate :: "string \<Rightarrow> nat \<Rightarrow> string" where
  "name_candidate base suffix = base @ ''@'' @ show_nat suffix"

lemma name_candidate_inject [simp]: "name_candidate base m = name_candidate base n \<longleftrightarrow> m = n"
  by (simp add: name_candidate_def)

text \<open>The loop \<open>for suffix in 1u32..\<close>: it ends because only finitely many names are taken.\<close>

function free_suffix :: "string list \<Rightarrow> string \<Rightarrow> nat \<Rightarrow> nat" where
  "free_suffix names base suffix =
     (if name_candidate base suffix \<in> set names then free_suffix names base (suffix + 1) else suffix)"
  by pat_completeness auto
termination
proof (relation "measure (\<lambda>(names, base, n). card {m. n \<le> m \<and> name_candidate base m \<in> set names})", goal_cases)
  case (2 names base n)
  have "inj (name_candidate base)" by (simp add: inj_on_def)
  then have fin: "finite {m. n \<le> m \<and> name_candidate base m \<in> set names}"
    using finite_vimageI [of "set names" "name_candidate base"]
    by (auto intro: finite_subset simp: vimage_def)
  have "{m. n + 1 \<le> m \<and> name_candidate base m \<in> set names}
      \<subseteq> {m. n \<le> m \<and> name_candidate base m \<in> set names} - {n}"
    by auto
  then have "{m. n + 1 \<le> m \<and> name_candidate base m \<in> set names}
      \<subset> {m. n \<le> m \<and> name_candidate base m \<in> set names}"
    using 2 by blast
  from psubset_card_mono [OF fin this] show ?case by simp
qed simp

declare free_suffix.simps [simp del]

definition dedup_client_name :: "string \<Rightarrow> nt_registry \<Rightarrow> string \<times> nt_registry" where
  "dedup_client_name base r =
     (let name = (if base \<notin> set (client_names r) then base
                  else name_candidate base (free_suffix (client_names r) base 1))
      in (name, r\<lparr> client_names := client_names r @ [name] \<rparr>))"

definition release_client_name :: "string \<Rightarrow> nt_registry \<Rightarrow> nt_registry" where
  "release_client_name name r = r\<lparr> client_names := removeAll name (client_names r) \<rparr>"

definition on_connect :: "env \<Rightarrow> client_id \<Rightarrow> string \<Rightarrow> string \<Rightarrow> nt_registry \<Rightarrow> routes \<times> nt_registry" where
  "on_connect E c base_name info r =
     (let (name, r) = dedup_client_name base_name r;
          r = r\<lparr> client_name_by_id := hm_insert (client_name_by_id r) c name \<rparr>;
          r = ensure_client c r;
          r = update_client c (\<lambda>cs. cs\<lparr> conn_info := info \<rparr>) r;
          p = update_meta_clients E r;
          p = extend p (update_meta_clientpub E c);
          p = extend p (update_meta_clientsub E c);
          p = extend p (update_meta_serversub E)
      in extend p (update_meta_serverpub E))"

text \<open>The first loop of \<open>on_disconnect\<close>: one publisher less per published id that still names a
  topic, and those ids once each.\<close>

primrec drop_publishers :: "nat list \<Rightarrow> nat list \<Rightarrow> nt_registry \<Rightarrow> nat list \<times> nt_registry" where
  "drop_publishers [] candidates r = (candidates, r)"
| "drop_publishers (i # ids) candidates r =
     (if hm_has (topics r) i
      then drop_publishers ids (if i \<in> set candidates then candidates else candidates @ [i])
             (r\<lparr> topics := hm_modify (topics r) i (\<lambda>t. t\<lparr> t_publishers := t_publishers t - 1 \<rparr>) \<rparr>)
      else drop_publishers ids candidates r)"

definition delete_if_orphaned :: "env \<Rightarrow> nat \<Rightarrow> nt_registry \<Rightarrow> routes \<times> nt_registry" where
  "delete_if_orphaned E i r =
     (case hm_get (topics r) i of
        Some t \<Rightarrow> if t_publishers t = 0 \<and> \<not> is_retained t then delete_topic E i r else ([], r)
      | None \<Rightarrow> ([], r))"

definition on_disconnect :: "env \<Rightarrow> client_id \<Rightarrow> nt_registry \<Rightarrow> routes \<times> nt_registry" where
  "on_disconnect E c r =
     (let name = hm_get (client_name_by_id r) c;
          r = r\<lparr> client_name_by_id := hm_remove (client_name_by_id r) c \<rparr>;
          published = map snd (pubs (client_of c r));
          pub_topic_names = filter_map (\<lambda>i. topic_name i r) published;
          subscribed = set_insert_all (concat (map (\<lambda>(_, s). s_matched s) (subs (client_of c r)))) [];
          r = r\<lparr> clients := hm_remove (clients r) c \<rparr>;
          r = (case name of
                 Some n \<Rightarrow> delete_topic_if_exists E (''$clientsub$'' @ n)
                             (delete_topic_if_exists E (''$clientpub$'' @ n) (release_client_name n r))
               | None \<Rightarrow> r);
          (candidates, r) = drop_publishers published [] r;
          p = extend_each (delete_if_orphaned E) candidates r;
          p = extend p (update_meta_clients E);
          p = extend p (update_meta_sub_for E subscribed)
      in extend p (extend_each (update_meta_pub E) pub_topic_names))"

end
