(* ===== verification/Nt_Registry_Inv.thy ===== *)
theory Nt_Registry_Inv
  imports Nt_Registry
begin

text \<open>
  The registry's invariant.  \<open>reg_step\<close> lists the elementary changes the registry's code makes;
  every handler is shown to be a sequence of them, so that a property of states or of pairs of
  states is proved once, on the elementary changes, and holds of every handler.
\<close>

section \<open>The invariant\<close>

definition topic_ok :: "topic_state \<Rightarrow> bool" where
  "topic_ok t \<longleftrightarrow>
     t_cached t = bool_property (t_properties t) ''cached'' True \<and>
     t_persistent t = bool_property (t_properties t) ''persistent'' False \<and>
     t_data_type t = data_type_from_string (t_type_str t) \<and>
     (case t_current t of Some sv \<Rightarrow> xt_data_type (stamped sv) = t_data_type t | None \<Rightarrow> True)"

definition maps_ok :: "nt_registry \<Rightarrow> bool" where
  "maps_ok r \<longleftrightarrow> hm_ok (topics r) \<and> hm_ok (by_name r) \<and> hm_ok (clients r) \<and>
     hm_ok (topic_subscribers r) \<and> hm_ok (topic_announced r) \<and> hm_ok (client_name_by_id r)"

definition topics_ok :: "nt_registry \<Rightarrow> bool" where
  "topics_ok r \<longleftrightarrow> (\<forall>i t. hm_get (topics r) i = Some t \<longrightarrow> topic_ok t)"

definition names_ok :: "nt_registry \<Rightarrow> bool" where
  "names_ok r \<longleftrightarrow>
     (\<forall>n i. hm_get (by_name r) n = Some i \<longleftrightarrow> (\<exists>t. hm_get (topics r) i = Some t \<and> t_name t = n))"

definition ids_ok :: "nt_registry \<Rightarrow> bool" where
  "ids_ok r \<longleftrightarrow> distinct (freed r) \<and>
     (\<forall>i. i < next_id r \<longleftrightarrow> hm_has (topics r) i \<or> i \<in> set (freed r)) \<and>
     (\<forall>i \<in> set (freed r). \<not> hm_has (topics r) i)"

definition lists_ok :: "nt_registry \<Rightarrow> bool" where
  "lists_ok r \<longleftrightarrow>
     (\<forall>i xs. hm_get (topic_subscribers r) i = Some xs \<longrightarrow> hm_has (topics r) i \<and> distinct xs) \<and>
     (\<forall>i xs. hm_get (topic_announced r) i = Some xs \<longrightarrow> hm_has (topics r) i \<and> distinct xs)"

definition matches_topic :: "nt_registry \<Rightarrow> subscription \<Rightarrow> nat \<Rightarrow> bool" where
  "matches_topic r s i \<longleftrightarrow>
     (\<exists>t. hm_get (topics r) i = Some t \<and> sub_visible_to s (t_name t) \<and> sub_matches s (t_name t))"

definition sub_ok :: "nt_registry \<Rightarrow> subscription \<Rightarrow> bool" where
  "sub_ok r s \<longleftrightarrow> distinct (s_matched s) \<and> (\<forall>i \<in> set (s_matched s). matches_topic r s i)"

definition client_ok :: "nt_registry \<Rightarrow> client_state \<Rightarrow> bool" where
  "client_ok r cs \<longleftrightarrow> hm_ok (pubs cs) \<and> hm_ok (subs cs) \<and>
     length (pubs cs) \<le> MAX_PER_CLIENT \<and> length (subs cs) \<le> MAX_PER_CLIENT \<and>
     (\<forall>u s. hm_get (subs cs) u = Some s \<longrightarrow> sub_ok r s)"

definition clients_ok :: "nt_registry \<Rightarrow> bool" where
  "clients_ok r \<longleftrightarrow> (\<forall>c cs. hm_get (clients r) c = Some cs \<longrightarrow> client_ok r cs)"

definition client_names_ok :: "nt_registry \<Rightarrow> bool" where
  "client_names_ok r \<longleftrightarrow> distinct (client_names r) \<and>
     (\<forall>c n. hm_get (client_name_by_id r) c = Some n \<longrightarrow> n \<in> set (client_names r)) \<and>
     (\<forall>c c' n. hm_get (client_name_by_id r) c = Some n \<longrightarrow>
               hm_get (client_name_by_id r) c' = Some n \<longrightarrow> c = c')"

definition registry_ok :: "nt_registry \<Rightarrow> bool" where
  "registry_ok r \<longleftrightarrow> maps_ok r \<and> topics_ok r \<and> names_ok r \<and> ids_ok r \<and> lists_ok r \<and>
     clients_ok r \<and> client_names_ok r"

section \<open>Elementary changes\<close>

definition new_topic_ok :: "topic_state \<Rightarrow> bool" where
  "new_topic_ok t \<longleftrightarrow> topic_ok t \<and> t_publishers t = 0"

text \<open>A value replaces the one a topic holds.\<close>

definition store_value :: "nat \<Rightarrow> topic_state \<Rightarrow> nt_value \<Rightarrow> u64 \<Rightarrow> nt_registry \<Rightarrow> nt_registry" where
  "store_value i topic v ts r =
     r\<lparr> topics := hm_modify (topics r) i (\<lambda>t. t\<lparr> t_current := Some \<lparr> ts_micros = ts, stamped = v \<rparr> \<rparr>),
        persistent_generation := persistent_generation r + (if t_persistent topic then 1 else 0) \<rparr>"

definition change_properties :: "jmap \<Rightarrow> topic_state \<Rightarrow> topic_state" where
  "change_properties update t = sync_properties (t\<lparr> t_properties := apply_update update (t_properties t) \<rparr>)"

inductive reg_step :: "nt_registry \<Rightarrow> nt_registry \<Rightarrow> bool" where
  insert: "hm_get (by_name r) (t_name t) = None \<Longrightarrow> new_topic_ok t \<Longrightarrow> t_current t = None \<Longrightarrow>
    is_meta_topic (t_name t) \<or> length (topics r) < MAX_TOPICS \<Longrightarrow>
    reg_step r ((snd (insert_topic t r))\<lparr> persistent_generation :=
      persistent_generation r + (if t_persistent t then 1 else 0) \<rparr>)"
| unlink: "hm_get (topics r) i = Some t \<Longrightarrow> reg_step r (unlink_topic i t r)"
| publishers: "reg_step r (r\<lparr> topics :=
    hm_modify (topics r) i (\<lambda>t. t\<lparr> t_publishers := f (t_publishers t) \<rparr>) \<rparr>)"
| retained: "reg_step r (r\<lparr> topics := hm_modify (topics r) i (\<lambda>t. t\<lparr> t_retained := b \<rparr>) \<rparr>)"
| val: "hm_get (topics r) i = Some t \<Longrightarrow> xt_data_type v = t_data_type t \<Longrightarrow> t_cached t \<Longrightarrow>
    (case t_current t of None \<Rightarrow> True | Some cur \<Rightarrow> ts \<ge> ts_micros cur) \<Longrightarrow>
    reg_step r (store_value i t v ts r)"
| properties: "hm_get (topics r) i = Some t \<Longrightarrow>
    reg_step r (r\<lparr> topics := hm_modify (topics r) i (change_properties update),
      persistent_generation := persistent_generation r +
        (if t_persistent t \<or> t_persistent (change_properties update t) then 1 else 0) \<rparr>)"
| subscriber: "hm_has (topics r) i \<Longrightarrow> reg_step r (add_subscriber c i r)"
| no_subscriber: "reg_step r (drop_subscriber c i r)"
| announced: "hm_has (topics r) i \<Longrightarrow> reg_step r (snd (add_announced c i r))"
| matched: "hm_get (topics r) i = Some t \<Longrightarrow> reg_step r (r\<lparr> clients :=
    hm_map (\<lambda>st. st\<lparr> subs := hm_map (note_match i (t_name t)) (subs st) \<rparr>) (clients r) \<rparr>)"
| client: "reg_step r (ensure_client c r)"
| no_client: "reg_step r (r\<lparr> clients := hm_remove (clients r) c \<rparr>)"
| pub: "\<not> at_cap (pubs (client_of c r)) u \<Longrightarrow>
    reg_step r (update_client c (\<lambda>cs. cs\<lparr> pubs := hm_insert (pubs cs) u i \<rparr>) r)"
| no_pubs: "reg_step r (update_client c (\<lambda>cs. cs\<lparr> pubs := filter f (pubs cs) \<rparr>) r)"
| no_pubs_all: "reg_step r (r\<lparr> clients := hm_map (\<lambda>cs. cs\<lparr> pubs := filter f (pubs cs) \<rparr>) (clients r) \<rparr>)"
| sub: "\<not> at_cap (subs (client_of c r)) u \<Longrightarrow> sub_ok r s \<Longrightarrow>
    reg_step r (update_client c (\<lambda>cs. cs\<lparr> subs := hm_insert (subs cs) u s \<rparr>) r)"
| no_sub: "reg_step r (update_client c (\<lambda>cs. cs\<lparr> subs := hm_remove (subs cs) u \<rparr>) r)"
| info: "reg_step r (update_client c (\<lambda>cs. cs\<lparr> conn_info := info \<rparr>) r)"
| name: "dedup_client_name base r = (n, r1) \<Longrightarrow>
    reg_step r (r1\<lparr> client_name_by_id := hm_insert (client_name_by_id r1) c n \<rparr>)"
| no_name: "reg_step r (r\<lparr> client_name_by_id := hm_remove (client_name_by_id r) c \<rparr>)"
| release: "\<forall>c. hm_get (client_name_by_id r) c \<noteq> Some n \<Longrightarrow> reg_step r (release_client_name n r)"
| tick: "reg_step r (r\<lparr> clock_reads := clock_reads r + 1 \<rparr>)"

section \<open>Elementary changes keep the invariant\<close>

lemma insert_topic_cases:
  assumes "ids_ok r"
  obtains i f n where "insert_topic t r = (i, r\<lparr> freed := f, next_id := n,
      topics := hm_insert (topics r) i t, by_name := hm_insert (by_name r) (t_name t) i \<rparr>)"
    and "\<not> hm_has (topics r) i" and "i < n" and "set f = set (freed r) - {i}" and "distinct f"
    and "\<And>j. j < n \<longleftrightarrow> j = i \<or> j < next_id r"
proof (cases "freed r = []")
  case True
  with assms show thesis
    by (intro that [where i = "next_id r" and f = "[]" and n = "next_id r + 1"])
      (auto simp: insert_topic_def alloc_id_def ids_ok_def less_Suc_eq)
next
  case False
  let ?i = "Min (set (freed r))"
  have "?i \<in> set (freed r)" using False by simp
  with assms False show thesis
    by (intro that [where i = ?i and f = "remove1 ?i (freed r)" and n = "next_id r"])
      (auto simp: insert_topic_def alloc_id_def ids_ok_def Let_def set_remove1_eq)
qed

lemmas step_defs = unlink_topic_def free_id_def store_value_def add_subscriber_def drop_subscriber_def
  add_announced_def ensure_client_def update_client_def release_client_name_def dedup_client_name_def Let_def

lemma maps_ok_step: "reg_step r r' \<Longrightarrow> ids_ok r \<Longrightarrow> maps_ok r \<Longrightarrow> maps_ok r'"
proof (induction rule: reg_step.induct)
  case (insert r t)
  from insert.prems(1) show ?case
    by (rule insert_topic_cases [where t = t]) (use insert.prems in \<open>auto simp: maps_ok_def\<close>)
qed (auto simp: maps_ok_def step_defs split: if_splits)

lemma topic_ok_update [simp]:
  "topic_ok (t\<lparr> t_publishers := n \<rparr>) = topic_ok t" "topic_ok (t\<lparr> t_retained := b \<rparr>) = topic_ok t"
  by (auto simp: topic_ok_def split: option.splits)

lemma topic_ok_change_properties [simp]: "topic_ok t \<Longrightarrow> topic_ok (change_properties update t)"
  by (auto simp: topic_ok_def change_properties_def sync_properties_def split: option.splits)

lemma topics_ok_step: "reg_step r r' \<Longrightarrow> ids_ok r \<Longrightarrow> topics_ok r \<Longrightarrow> topics_ok r'"
proof (induction rule: reg_step.induct)
  case (insert r t)
  from insert.prems(1) show ?case
    by (rule insert_topic_cases [where t = t])
      (use insert in \<open>auto simp: topics_ok_def new_topic_ok_def\<close>)
next
  case (val r i t v ts)
  then show ?case by (auto simp: topics_ok_def store_value_def topic_ok_def)
qed (auto simp: topics_ok_def step_defs split: if_splits)

lemma names_ok_step: "reg_step r r' \<Longrightarrow> ids_ok r \<Longrightarrow> names_ok r \<Longrightarrow> names_ok r'"
proof (induction rule: reg_step.induct)
  case (insert r t)
  have "t_name t' \<noteq> t_name t" if "hm_get (topics r) j = Some t'" for j t'
    using that insert.prems(2) insert.hyps(1) unfolding names_ok_def by (metis option.distinct(1))
  with insert.prems(1) show ?case
    by (rule_tac insert_topic_cases [where t = t and r = r])
      (use insert.hyps(1) insert.prems(2) in \<open>auto simp: names_ok_def\<close>)
next
  case (properties r i t update)
  then show ?case by (auto simp: names_ok_def change_properties_def sync_properties_def)
next
  case (unlink r i t)
  have by_name: "hm_get (by_name r) n = Some j \<longleftrightarrow> (\<exists>t. hm_get (topics r) j = Some t \<and> t_name t = n)" for n j
    using unlink.prems(2) by (simp add: names_ok_def)
  show ?case
    unfolding names_ok_def
  proof (intro allI)
    fix n j
    show "hm_get (by_name (unlink_topic i t r)) n = Some j \<longleftrightarrow>
        (\<exists>t'. hm_get (topics (unlink_topic i t r)) j = Some t' \<and> t_name t' = n)"
      using by_name [of n j] by_name [of n i] unlink.hyps
      by (cases "n = t_name t"; cases "j = i") (simp_all add: unlink_topic_def free_id_def)
  qed
qed (auto simp: names_ok_def step_defs split: if_splits)

lemma ids_ok_step: "reg_step r r' \<Longrightarrow> ids_ok r \<Longrightarrow> ids_ok r'"
proof (induction rule: reg_step.induct)
  case (insert r t)
  from insert.prems show ?case
    by (rule insert_topic_cases [where t = t]) (use insert.prems in \<open>auto simp: ids_ok_def\<close>)
next
  case (unlink r i t)
  then show ?case by (auto simp: ids_ok_def step_defs)
qed (auto simp: ids_ok_def step_defs split: if_splits)

lemma lists_ok_list_of:
  "lists_ok r \<Longrightarrow> distinct (list_of (topic_subscribers r) i)"
  "lists_ok r \<Longrightarrow> distinct (list_of (topic_announced r) i)"
  by (auto simp: lists_ok_def list_of_def split: option.splits)

lemma lists_ok_step: "reg_step r r' \<Longrightarrow> ids_ok r \<Longrightarrow> lists_ok r \<Longrightarrow> lists_ok r'"
proof (induction rule: reg_step.induct)
  case (insert r t)
  from insert.prems(1) show ?case
    by (rule insert_topic_cases [where t = t]) (use insert.prems in \<open>simp add: lists_ok_def, blast\<close>)
next
  case (subscriber r i c)
  note d = lists_ok_list_of(1) [OF subscriber.prems(2), of i]
  from subscriber d show ?case by (simp add: lists_ok_def add_subscriber_def Let_def)
next
  case (announced r i c)
  note d = lists_ok_list_of(2) [OF announced.prems(2), of i]
  from announced d show ?case by (simp add: lists_ok_def add_announced_def Let_def)
next
  case (no_subscriber r c i)
  then show ?case by (simp add: lists_ok_def drop_subscriber_def) (metis distinct_removeAll)
next
  case (unlink r i t)
  then show ?case by (auto simp: lists_ok_def unlink_topic_def free_id_def)
qed (simp_all add: lists_ok_def store_value_def ensure_client_def update_client_def
    release_client_name_def dedup_client_name_def Let_def, blast+)

text \<open>A change that keeps every topic under its id and name keeps a client's matches.\<close>

definition keeps_topics :: "nt_registry \<Rightarrow> nt_registry \<Rightarrow> bool" where
  "keeps_topics r r' \<longleftrightarrow> (\<forall>i t. hm_get (topics r) i = Some t \<longrightarrow>
     (\<exists>t'. hm_get (topics r') i = Some t' \<and> t_name t' = t_name t))"

lemma sub_ok_keeps: "keeps_topics r r' \<Longrightarrow> sub_ok r s \<Longrightarrow> sub_ok r' s"
  by (fastforce simp: sub_ok_def matches_topic_def keeps_topics_def)

lemma client_ok_keeps: "keeps_topics r r' \<Longrightarrow> client_ok r cs \<Longrightarrow> client_ok r' cs"
  using sub_ok_keeps by (auto simp: client_ok_def)

lemma clients_ok_keeps:
  "keeps_topics r r' \<Longrightarrow> clients r' = clients r \<Longrightarrow> clients_ok r \<Longrightarrow> clients_ok r'"
  using client_ok_keeps by (auto simp: clients_ok_def)

lemma sub_ok_topics_eq: "topics r' = topics r \<Longrightarrow> sub_ok r' s = sub_ok r s"
  by (simp add: sub_ok_def matches_topic_def)

lemma client_ok_topics_eq: "topics r' = topics r \<Longrightarrow> client_ok r' cs = client_ok r cs"
  by (simp add: client_ok_def sub_ok_def matches_topic_def)

lemma client_ok_clients [simp]:
  "client_ok (r\<lparr> clients := x \<rparr>) cs = client_ok r cs" "sub_ok (r\<lparr> clients := x \<rparr>) s = sub_ok r s"
  by (simp_all add: client_ok_topics_eq [of "r\<lparr> clients := x \<rparr>" r] sub_ok_topics_eq [of "r\<lparr> clients := x \<rparr>" r])

lemma length_hm_map [simp]: "length (hm_map f m) = length m"
  by (simp add: hm_map_def)

lemma clients_ok_update_client:
  assumes "clients_ok r" and "\<And>cs. hm_get (clients r) c = Some cs \<Longrightarrow> client_ok r cs \<Longrightarrow> client_ok r (f cs)"
  shows "clients_ok (update_client c f r)"
proof -
  have "client_ok r cs'" if "hm_get (hm_modify (clients r) c f) c' = Some cs'" for c' cs'
    using that assms by (cases "c' = c") (auto simp: clients_ok_def)
  then show ?thesis by (simp add: clients_ok_def update_client_def)
qed

lemma client_ok_default: "client_ok r client_default"
  by (simp add: client_ok_def client_default_def)

lemma client_of_Some: "hm_get (clients r) c = Some cs \<Longrightarrow> client_of c r = cs"
  by (simp add: client_of_def)

lemma length_insert_cap: "\<not> at_cap m u \<Longrightarrow> length m \<le> MAX_PER_CLIENT \<Longrightarrow> length (hm_insert m u x) \<le> MAX_PER_CLIENT"
  by (auto simp: at_cap_def length_hm_insert)

lemma client_ok_filter_pubs: "client_ok r cs \<Longrightarrow> client_ok r (cs\<lparr> pubs := filter f (pubs cs) \<rparr>)"
  by (auto simp: client_ok_def distinct_map_filter intro: order_trans [OF length_filter_le])

lemma note_match_ok:
  assumes "hm_get (topics r) i = Some t" and "sub_ok r s"
  shows "sub_ok r (note_match i (t_name t) s)"
  using assms by (auto simp: note_match_def sub_ok_def matches_topic_def sub_visible_to_def sub_matches_def)

lemma clients_ok_step: "reg_step r r' \<Longrightarrow> ids_ok r \<Longrightarrow> clients_ok r \<Longrightarrow> clients_ok r'"
proof (induction rule: reg_step.induct)
  case (insert r t)
  from insert.prems(1) show ?case
    by (rule insert_topic_cases [where t = t])
      (rule clients_ok_keeps [OF _ _ insert.prems(2)], auto simp: keeps_topics_def)
next
  case (unlink r i t)
  have "sub_ok (unlink_topic i t r) (s\<lparr> s_matched := removeAll i (s_matched s) \<rparr>)" if "sub_ok r s" for s
    using that by (auto simp: sub_ok_def matches_topic_def distinct_removeAll
        sub_visible_to_def sub_matches_def)
  then have "client_ok (unlink_topic i t r) (forget_match i cs)" if "client_ok r cs" for cs
    using that by (auto simp: client_ok_def forget_match_def)
  with unlink.prems show ?case
    by (auto simp: clients_ok_def unlink_topic_def free_id_def)
next
  case (matched r i t)
  have "client_ok r (cs\<lparr> subs := hm_map (note_match i (t_name t)) (subs cs) \<rparr>)" if "client_ok r cs" for cs
    using that note_match_ok [OF matched.hyps] by (auto simp: client_ok_def)
  with matched.prems show ?case
    by (auto simp: clients_ok_def)
next
  case (client r c)
  then show ?case
    by (auto simp: clients_ok_def ensure_client_def client_ok_default)
next
  case (no_client r c)
  then show ?case
    by (auto simp: clients_ok_def)
next
  case (pub c r u i)
  show ?case
    by (rule clients_ok_update_client [OF pub.prems(2)])
      (use pub.hyps in \<open>auto simp: client_ok_def client_of_Some length_insert_cap\<close>)
next
  case (no_pubs r c f)
  show ?case by (rule clients_ok_update_client [OF no_pubs.prems(2)]) (rule client_ok_filter_pubs)
next
  case (no_pubs_all r f)
  then show ?case
    by (auto simp: clients_ok_def client_ok_filter_pubs)
next
  case (sub c r u s)
  show ?case
    by (rule clients_ok_update_client [OF sub.prems(2)])
      (use sub.hyps in \<open>auto simp: client_ok_def client_of_Some length_insert_cap\<close>)
next
  case (no_sub r c u)
  have "length (hm_remove m u) \<le> length m" for m :: "(u32, subscription) hm" by (simp add: hm_remove_def)
  then show ?case
    by (intro clients_ok_update_client [OF no_sub.prems(2)])
      (auto simp: client_ok_def intro: order_trans)
next
  case (info r c info)
  show ?case by (rule clients_ok_update_client [OF info.prems(2)]) (auto simp: client_ok_def)
qed (auto simp: step_defs keeps_topics_def change_properties_def sync_properties_def
    elim!: clients_ok_keeps [rotated -1] split: if_splits)

lemma free_suffix_free: "name_candidate base (free_suffix names base n) \<notin> set names"
  by (induction names base n rule: free_suffix.induct) (subst free_suffix.simps, simp)

lemma dedup_fresh: "dedup_client_name base r = (n, r1) \<Longrightarrow> n \<notin> set (client_names r)"
  using free_suffix_free by (auto simp: dedup_client_name_def Let_def split: if_splits)

lemma client_names_ok_step: "reg_step r r' \<Longrightarrow> ids_ok r \<Longrightarrow> client_names_ok r \<Longrightarrow> client_names_ok r'"
proof (induction rule: reg_step.induct)
  case (insert r t)
  from insert.prems(1) show ?case
    by (rule insert_topic_cases [where t = t]) (use insert.prems in \<open>auto simp: client_names_ok_def\<close>)
next
  case (name base r n r1 c)
  note fresh = dedup_fresh [OF name.hyps]
  from name.hyps have "r1 = r\<lparr> client_names := client_names r @ [n] \<rparr>"
    by (auto simp: dedup_client_name_def Let_def)
  with name.prems fresh show ?case by (auto simp: client_names_ok_def split: if_splits)
next
  case (no_name r c)
  then show ?case unfolding client_names_ok_def by (auto split: if_splits)
next
  case (release r n)
  then show ?case by (auto simp: client_names_ok_def release_client_name_def distinct_removeAll)
qed (auto simp: client_names_ok_def step_defs split: if_splits)

theorem registry_ok_step: "reg_step r r' \<Longrightarrow> registry_ok r \<Longrightarrow> registry_ok r'"
  unfolding registry_ok_def
  using maps_ok_step topics_ok_step names_ok_step ids_ok_step lists_ok_step clients_ok_step
    client_names_ok_step by blast

section \<open>Handlers are sequences of elementary changes\<close>

abbreviation reg_steps :: "nt_registry \<Rightarrow> nt_registry \<Rightarrow> bool" where
  "reg_steps \<equiv> rtranclp reg_step"

lemma reg_steps_ok: "reg_steps r r' \<Longrightarrow> registry_ok r \<Longrightarrow> registry_ok r'"
  by (induction rule: rtranclp_induct) (auto intro: registry_ok_step)

lemma snd_extend [simp]: "snd (extend p f) = snd (f (snd p))"
  by (simp add: extend_def split: prod.splits)

lemma fst_extend [simp]: "fst (extend p f) = fst p @ fst (f (snd p))"
  by (simp add: extend_def split: prod.splits)

lemma extend_steps:
  assumes "reg_steps r (snd p)" and "registry_ok r" and "\<And>s. registry_ok s \<Longrightarrow> reg_steps s (snd (f s))"
  shows "reg_steps r (snd (extend p f))"
  using assms reg_steps_ok by (auto intro: rtranclp_trans)

lemma extend_each_steps:
  assumes "Q r" and "\<And>x s. x \<in> set xs \<Longrightarrow> Q s \<Longrightarrow> reg_steps s (snd (f x s)) \<and> Q (snd (f x s))"
  shows "reg_steps r (snd (extend_each f xs r)) \<and> Q (snd (extend_each f xs r))"
  using assms
proof (induction xs arbitrary: r)
  case (Cons x xs)
  from Cons.prems have "reg_steps r (snd (f x r)) \<and> Q (snd (f x r))" by simp
  with Cons.IH [of "snd (f x r)"] Cons.prems(2) show ?case by (auto intro: rtranclp_trans)
qed simp

lemma extend_each_steps_ok:
  assumes "registry_ok r" and "\<And>x s. registry_ok s \<Longrightarrow> reg_steps s (snd (f x s))"
  shows "reg_steps r (snd (extend_each f xs r))"
proof -
  have "reg_steps s (snd (f x s)) \<and> registry_ok (snd (f x s))" if "registry_ok s" for x s
    using assms(2) [OF that, of x] reg_steps_ok [OF assms(2) [OF that, of x] that] by simp
  from extend_each_steps [where Q = registry_ok and f = f and xs = xs, OF assms(1) this]
  show ?thesis by simp
qed

lemma hm_has_by_name:
  "registry_ok r \<Longrightarrow> hm_get (by_name r) n = Some i \<Longrightarrow> \<exists>t. hm_get (topics r) i = Some t \<and> t_name t = n"
  by (simp add: registry_ok_def names_ok_def)

lemma topics_frame [simp]:
  "topics (add_subscriber c i r) = topics r" "topics (snd (add_announced c i r)) = topics r"
  "topics (drop_subscriber c i r) = topics r" "topics (update_client c f r) = topics r"
  "topics (ensure_client c r) = topics r" "topics (release_client_name n r) = topics r"
  by (simp_all add: add_subscriber_def add_announced_def drop_subscriber_def update_client_def
      ensure_client_def release_client_name_def Let_def)

lemma announce_one_steps:
  "hm_has (topics r) i \<Longrightarrow> reg_steps r (snd (announce_one E i target r)) \<and>
     topics (snd (announce_one E i target r)) = topics r"
proof (cases target)
  case (Pair cid wants)
  assume i: "hm_has (topics r) i"
  let ?r = "snd (add_announced cid i r)"
  have "reg_step r ?r" using i by (rule reg_step.announced)
  moreover have "reg_step ?r (add_subscriber cid i ?r)" by (rule reg_step.subscriber) (simp add: i)
  ultimately show ?thesis
    by (auto simp: announce_one_def Pair Let_def case_prod_beta intro: rtranclp.intros)
qed

lemma announce_to_matching_steps:
  assumes "hm_get (topics r) i = Some t" and "t_name t = name"
  shows "reg_steps r (snd (announce_to_matching E i name r))"
    and "topics (snd (announce_to_matching E i name r)) = topics r"
proof -
  let ?r = "r\<lparr> clients := hm_map (\<lambda>st. st\<lparr> subs := hm_map (note_match i name) (subs st) \<rparr>) (clients r) \<rparr>"
  have "reg_step r ?r" using reg_step.matched [OF assms(1)] assms(2) by simp
  moreover have "reg_steps ?r (snd (extend_each (announce_one E i) (match_targets name (clients r)) ?r))
      \<and> topics (snd (extend_each (announce_one E i) (match_targets name (clients r)) ?r)) = topics r"
    by (rule extend_each_steps [where Q = "\<lambda>s. topics s = topics r"])
      (use announce_one_steps assms(1) in auto)
  ultimately show "reg_steps r (snd (announce_to_matching E i name r))"
    and "topics (snd (announce_to_matching E i name r)) = topics r"
    by (auto simp: announce_to_matching_def Let_def intro: converse_rtranclp_into_rtranclp)
qed

lemma handle_topic_value_steps: "reg_steps r (snd (handle_topic_value i v ts r))"
proof (cases "hm_get (topics r) i")
  case (Some t)
  then show ?thesis
    using reg_step.val [OF Some, of v ts]
    by (auto simp: handle_topic_value_def Let_def store_value_def)
qed (simp add: handle_topic_value_def)

lemma insert_topic_new:
  assumes "registry_ok r" and "insert_topic t r = (i, r1)"
  shows "hm_get (topics r1) i = Some t" "topics r1 = hm_insert (topics r) i t"
    "clients r1 = clients r" "persistent_generation r1 = persistent_generation r"
    "hm_get (by_name r1) (t_name t) = Some i" "topic_subscribers r1 = topic_subscribers r"
    "topic_announced r1 = topic_announced r" "\<not> hm_has (topics r) i"
    "by_name r1 = hm_insert (by_name r) (t_name t) i"
proof -
  have "ids_ok r" using assms(1) by (simp add: registry_ok_def)
  then obtain i' f n where r1: "insert_topic t r = (i', r\<lparr> freed := f, next_id := n,
      topics := hm_insert (topics r) i' t, by_name := hm_insert (by_name r) (t_name t) i' \<rparr>)"
    "\<not> hm_has (topics r) i'"
    by (rule insert_topic_cases)
  with assms(2) show "hm_get (topics r1) i = Some t" "topics r1 = hm_insert (topics r) i t"
    "clients r1 = clients r" "persistent_generation r1 = persistent_generation r"
    "hm_get (by_name r1) (t_name t) = Some i" "topic_subscribers r1 = topic_subscribers r"
    "topic_announced r1 = topic_announced r" "\<not> hm_has (topics r) i"
    "by_name r1 = hm_insert (by_name r) (t_name t) i" by auto
qed

lemma insert_topic_step:
  assumes "registry_ok r" and "insert_topic t r = (i, r1)" and "hm_get (by_name r) (t_name t) = None"
    and "new_topic_ok t" and "t_current t = None" and "\<not> t_persistent t"
    and "is_meta_topic (t_name t) \<or> length (topics r) < MAX_TOPICS"
  shows "reg_step r r1"
proof -
  have "r1 = (snd (insert_topic t r))\<lparr> persistent_generation := persistent_generation r + 0 \<rparr>"
    using insert_topic_new(4) [OF assms(1,2)] assms(2) by simp
  with reg_step.insert [OF assms(3,4,5,7)] assms(6) show ?thesis by simp
qed

lemma new_topic_ok_upsert:
  "new_topic_ok \<lparr> t_name = name, t_data_type = xt_data_type v,
     t_type_str = (case type_string (xt_data_type v) of Some s \<Rightarrow> s | None \<Rightarrow> []),
     t_properties = [], t_current = None, t_publishers = 0,
     t_retained = True, t_cached = True, t_persistent = False \<rparr>"
  using type_string_xt_data_type [of v]
  by (auto simp: new_topic_ok_def topic_ok_def bool_property_def data_type_from_type_string)

lemma new_topic_ok_meta:
  "new_topic_ok \<lparr> t_name = name, t_data_type = 5, t_type_str = ''msgpack'', t_properties = [],
     t_current = None, t_publishers = 0, t_retained = True, t_cached = True, t_persistent = False \<rparr>"
  by (simp add: new_topic_ok_def topic_ok_def bool_property_def)

lemma handle_upsert_value_steps:
  assumes "registry_ok r"
  shows "reg_steps r (snd (handle_upsert_value name v ts r))"
proof (cases "hm_get (by_name r) name")
  case None
  let ?t = "\<lparr> t_name = name, t_data_type = xt_data_type v,
     t_type_str = (case type_string (xt_data_type v) of Some s \<Rightarrow> s | None \<Rightarrow> []),
     t_properties = [], t_current = None, t_publishers = 0,
     t_retained = True, t_cached = True, t_persistent = False \<rparr>"
  obtain i r1 where ins: "insert_topic ?t r = (i, r1)" by fastforce
  have "reg_step r r1" if "\<not> length (topics r) \<ge> MAX_TOPICS"
    using insert_topic_step [OF assms ins] None new_topic_ok_upsert that by simp
  then show ?thesis
    using None ins handle_topic_value_steps [of r1 i v ts]
    by (auto simp: handle_upsert_value_def intro: converse_rtranclp_into_rtranclp)
qed (simp add: handle_upsert_value_def handle_topic_value_steps)

lemma ensure_meta_topic_steps:
  assumes "registry_ok r" and "ensure_meta_topic E name r = (i, routes, r')" and "is_meta_topic name"
  shows "reg_steps r r'"
proof (cases "hm_get (by_name r) name")
  case None
  let ?t = "\<lparr> t_name = name, t_data_type = 5, t_type_str = ''msgpack'', t_properties = [],
     t_current = None, t_publishers = 0, t_retained = True, t_cached = True, t_persistent = False \<rparr>"
  obtain j r1 where ins: "insert_topic ?t r = (j, r1)" by fastforce
  have "reg_step r r1" using insert_topic_step [OF assms(1) ins] None new_topic_ok_meta assms(3) by simp
  moreover have "reg_steps r1 (snd (announce_to_matching E j name r1))"
    by (rule announce_to_matching_steps(1) [OF insert_topic_new(1) [OF assms(1) ins]]) simp
  ultimately show ?thesis
    using assms(2) None ins
    by (auto simp: ensure_meta_topic_def intro: converse_rtranclp_into_rtranclp)
qed (use assms in \<open>simp add: ensure_meta_topic_def\<close>)

lemma publish_meta_steps:
  assumes "registry_ok r" and "is_meta_topic name"
  shows "reg_steps r (snd (publish_meta E name maps r))"
proof -
  obtain i routes r1 where m: "ensure_meta_topic E name r = (i, routes, r1)"
    by (metis prod_cases3)
  have "reg_step r1 (r1\<lparr> clock_reads := clock_reads r1 + 1 \<rparr>)" by (rule reg_step.tick)
  with ensure_meta_topic_steps [OF assms(1) m assms(2)] show ?thesis
    using handle_topic_value_steps
    by (auto simp: publish_meta_def m now_micros_def split: sum.splits
        intro: rtranclp.rtrancl_into_rtrancl rtranclp_trans)
qed

lemma update_meta_steps:
  assumes "registry_ok r"
  shows "reg_steps r (snd (update_meta_clients E r))"
    and "reg_steps r (snd (update_meta_clientpub E c r))"
    and "reg_steps r (snd (update_meta_clientsub E c r))"
    and "reg_steps r (snd (update_meta_sub E name r))"
    and "reg_steps r (snd (update_meta_pub E name r))"
    and "reg_steps r (snd (update_meta_serversub E r))"
    and "reg_steps r (snd (update_meta_serverpub E r))"
    and "reg_steps r (snd (update_meta_sub_for E ids r))"
proof -
  have sub: "reg_steps s (snd (update_meta_sub E name s))" if "registry_ok s" for s name
    using that by (auto simp: update_meta_sub_def is_meta_topic_def intro: publish_meta_steps split: option.split)
  then show "reg_steps r (snd (update_meta_sub_for E ids r))" and "reg_steps r (snd (update_meta_sub E name r))"
    using assms by (simp_all add: update_meta_sub_for_def extend_each_steps_ok)
qed (auto simp: update_meta_clients_def update_meta_clientpub_def update_meta_clientsub_def
    update_meta_pub_def update_meta_serversub_def update_meta_serverpub_def is_meta_topic_def assms
    intro!: publish_meta_steps split: option.split)

lemma delete_topic_steps: "reg_steps r (snd (delete_topic E i r))"
proof (induction E i r rule: delete_topic.induct)
  case (1 E i r)
  show ?case
  proof (cases "hm_get (topics r) i")
    case None
    then show ?thesis by (simp add: delete_topic_eq)
  next
    case (Some t)
    let ?r1 = "unlink_topic i t r"
    let ?r2 = "case hm_get (by_name ?r1) (''$pub$'' @ t_name t) of
      Some j \<Rightarrow> snd (delete_topic E j ?r1) | None \<Rightarrow> ?r1"
    let ?r3 = "case hm_get (by_name ?r2) (''$sub$'' @ t_name t) of
      Some j \<Rightarrow> snd (delete_topic E j ?r2) | None \<Rightarrow> ?r2"
    have "reg_step r ?r1" using Some by (rule reg_step.unlink)
    moreover have "reg_steps ?r1 ?r2" using "1.IH"(1) [OF Some refl] by (auto split: option.split)
    moreover have "reg_steps ?r2 ?r3" using "1.IH"(2) [OF Some refl refl] by (auto split: option.split)
    ultimately have "reg_steps r ?r3" by (meson converse_rtranclp_into_rtranclp rtranclp_trans)
    moreover have "snd (delete_topic E i r) = ?r3" by (simp only: delete_topic.simps [of E i r] Some option.case Let_def snd_conv)
    ultimately show ?thesis by simp
  qed
qed

lemma delete_topic_if_exists_steps: "reg_steps r (delete_topic_if_exists E name r)"
  by (auto simp: delete_topic_if_exists_def delete_topic_steps split: option.split)

lemma release_publisher_steps:
  assumes "registry_ok r"
  shows "reg_steps r (snd (release_publisher E i r))"
proof (cases "hm_get (topics r) i")
  case (Some t)
  let ?r = "r\<lparr> topics := hm_modify (topics r) i (\<lambda>t. t\<lparr> t_publishers := t_publishers t - 1 \<rparr>) \<rparr>"
  have step: "reg_step r ?r" by (rule reg_step.publishers)
  then have ok: "registry_ok ?r" using assms registry_ok_step by blast
  have "reg_steps ?r (snd (extend (if t_publishers t - 1 = 0 \<and> \<not> is_retained t
      then delete_topic E i ?r else ([], ?r)) (update_meta_pub E (t_name t))))"
    by (rule extend_steps [OF _ ok update_meta_steps(5)]) (auto simp: delete_topic_steps)
  with step show ?thesis
    unfolding release_publisher_def Some option.case Let_def by (rule converse_rtranclp_into_rtranclp)
qed (simp add: release_publisher_def)

lemma new_topic_ok_publish:
  "new_topic_ok (sync_properties \<lparr> t_name = name, t_data_type = data_type_from_string type_str,
     t_type_str = type_str, t_properties = properties, t_current = None, t_publishers = 0,
     t_retained = False, t_cached = True, t_persistent = False \<rparr>)"
  by (simp add: new_topic_ok_def topic_ok_def sync_properties_def)

lemma t_name_sync [simp]: "t_name (sync_properties t) = t_name t" "t_current (sync_properties t) = t_current t"
  by (simp_all add: sync_properties_def)

lemma publish_topic_steps:
  assumes "registry_ok r" and "hm_get (by_name r) name = None" and "length (topics r) < MAX_TOPICS"
    and "publish_topic name type_str properties r = (i, r1)"
  shows "reg_step r r1" and "\<exists>t. hm_get (topics r1) i = Some t \<and> t_name t = name"
    and "clients r1 = clients r"
proof -
  let ?t = "sync_properties \<lparr> t_name = name, t_data_type = data_type_from_string type_str,
     t_type_str = type_str, t_properties = properties, t_current = None, t_publishers = 0,
     t_retained = False, t_cached = True, t_persistent = False \<rparr>"
  obtain r0 where ins: "insert_topic ?t r = (i, r0)"
    and r1: "r1 = r0\<lparr> persistent_generation := persistent_generation r0 + (if t_persistent ?t then 1 else 0) \<rparr>"
    using assms(4) by (auto simp: publish_topic_def Let_def split: prod.splits)
  note new = insert_topic_new [OF assms(1) ins]
  have "reg_step r ((snd (insert_topic ?t r))\<lparr> persistent_generation :=
      persistent_generation r + (if t_persistent ?t then 1 else 0) \<rparr>)"
    by (rule reg_step.insert) (use assms(2,3) new_topic_ok_publish in simp_all)
  then show "reg_step r r1" using ins new(4) r1 by simp
  show "\<exists>t. hm_get (topics r1) i = Some t \<and> t_name t = name" "clients r1 = clients r"
    using new(1,3) r1 by auto
qed

lemma publish_entry_steps:
  assumes ok: "registry_ok r" and room: "\<not> (hm_get (by_name r) name = None \<and> length (topics r) \<ge> MAX_TOPICS)"
    and entry: "(case hm_get (by_name r) name of Some i \<Rightarrow> (False, i, r)
                 | None \<Rightarrow> (True, publish_topic name type_str properties r)) = (is_new, i, r1)"
  shows "reg_steps r r1" and "\<exists>t. hm_get (topics r1) i = Some t \<and> t_name t = name"
    and "clients r1 = clients r"
proof -
  have "reg_steps r r1 \<and> (\<exists>t. hm_get (topics r1) i = Some t \<and> t_name t = name) \<and> clients r1 = clients r"
  proof (cases "hm_get (by_name r) name")
    case None
    with room entry publish_topic_steps [OF ok None, of type_str properties i r1] show ?thesis by auto
  next
    case (Some k)
    with entry hm_has_by_name [OF ok Some] show ?thesis by auto
  qed
  then show "reg_steps r r1" "\<exists>t. hm_get (topics r1) i = Some t \<and> t_name t = name" "clients r1 = clients r"
    by blast+
qed

lemma client_of_cong: "clients r = clients r' \<Longrightarrow> client_of c r = client_of c r'"
  by (simp add: client_of_def)

lemma release_moved_steps:
  assumes "reg_steps r (snd p)" and "registry_ok r"
  shows "reg_steps r (snd (case prev of
    Some old \<Rightarrow> if old \<noteq> i then extend p (release_publisher E old) else p | None \<Rightarrow> p))"
  using extend_steps [OF assms release_publisher_steps] assms(1) by (auto split: option.split)

text \<open>A publish that is let through: the entry for the name, the client's uid, the publisher count
  and the announcement to the publisher, then the frames in the order of the source.\<close>

lemma handle_publish_shape:
  assumes ok: "registry_ok r"
    and through: "\<not> at_cap (pubs (client_of c (ensure_client c r))) pubuid"
      "\<not> (hm_get (by_name (ensure_client c r)) name = None \<and> length (topics (ensure_client c r)) \<ge> MAX_TOPICS)"
  obtains is_new i r1 prev r3 r4 p5 p6 where
    "(case hm_get (by_name (ensure_client c r)) name of Some i \<Rightarrow> (False, i, ensure_client c r)
        | None \<Rightarrow> (True, publish_topic name type_str properties (ensure_client c r))) = (is_new, i, r1)"
    and "prev = hm_get (pubs (client_of c r1)) pubuid"
    and "r3 = (let s = update_client c (\<lambda>cs. cs\<lparr> pubs := hm_insert (pubs cs) pubuid i \<rparr>) r1 in
           if prev \<noteq> Some i
           then s\<lparr> topics := hm_modify (topics s) i (\<lambda>t. t\<lparr> t_publishers := t_publishers t + 1 \<rparr>) \<rparr> else s)"
    and "r4 = snd (add_announced c i r3)"
    and "p5 = (let p = ([(c, Text (announce_json E i (Some pubuid) r4))], r4)
               in if is_new then extend p (announce_to_matching E i name) else p)"
    and "p6 = (case prev of Some old \<Rightarrow> if old \<noteq> i then extend p5 (release_publisher E old) else p5
               | None \<Rightarrow> p5)"
    and "handle_publish E c name pubuid type_str properties r =
        extend (extend p6 (update_meta_clientpub E c)) (update_meta_pub E name)"
    and "reg_steps r r4" and "\<exists>t. hm_get (topics r4) i = Some t \<and> t_name t = name"
proof -
  have s0: "reg_step r (ensure_client c r)" by (rule reg_step.client)
  have ok0: "registry_ok (ensure_client c r)" using registry_ok_step [OF s0 ok] .
  obtain is_new i r1 where entry: "(case hm_get (by_name (ensure_client c r)) name of
        Some i \<Rightarrow> (False, i, ensure_client c r)
      | None \<Rightarrow> (True, publish_topic name type_str properties (ensure_client c r))) = (is_new, i, r1)"
    by (metis prod_cases3)
  note r1 = publish_entry_steps [OF ok0 through(2) entry]
  define prev where "prev = hm_get (pubs (client_of c r1)) pubuid"
  define r2 where "r2 = update_client c (\<lambda>cs. cs\<lparr> pubs := hm_insert (pubs cs) pubuid i \<rparr>) r1"
  define r3 where "r3 = (if prev \<noteq> Some i
    then r2\<lparr> topics := hm_modify (topics r2) i (\<lambda>t. t\<lparr> t_publishers := t_publishers t + 1 \<rparr>) \<rparr> else r2)"
  have t: "\<exists>t. hm_get (topics r3) i = Some t \<and> t_name t = name" using r1(2) by (auto simp: r3_def r2_def)
  have "reg_step r1 r2"
    unfolding r2_def by (rule reg_step.pub) (use through client_of_cong [OF r1(3)] in auto)
  moreover have "reg_steps r2 r3" using reg_step.publishers [of r2 i "\<lambda>n. n + 1"] by (auto simp: r3_def)
  moreover have "reg_step r3 (snd (add_announced c i r3))" by (rule reg_step.announced) (use t in auto)
  ultimately have s4: "reg_steps r (snd (add_announced c i r3))"
    using s0 r1(1)
    by (meson converse_rtranclp_into_rtranclp rtranclp.rtrancl_into_rtrancl rtranclp_trans)
  show thesis
  proof (rule that [OF entry prev_def _ refl refl refl _ s4])
    show "r3 = (let s = update_client c (\<lambda>cs. cs\<lparr> pubs := hm_insert (pubs cs) pubuid i \<rparr>) r1 in
           if prev \<noteq> Some i
           then s\<lparr> topics := hm_modify (topics s) i (\<lambda>t. t\<lparr> t_publishers := t_publishers t + 1 \<rparr>) \<rparr> else s)"
      by (simp add: r3_def r2_def)
    show "handle_publish E c name pubuid type_str properties r =
        extend (extend (case prev of Some old \<Rightarrow>
          if old \<noteq> i then extend (let p = ([(c, Text (announce_json E i (Some pubuid) (snd (add_announced c i r3))))],
              snd (add_announced c i r3)) in if is_new then extend p (announce_to_matching E i name) else p)
            (release_publisher E old)
          else (let p = ([(c, Text (announce_json E i (Some pubuid) (snd (add_announced c i r3))))],
              snd (add_announced c i r3)) in if is_new then extend p (announce_to_matching E i name) else p)
        | None \<Rightarrow> (let p = ([(c, Text (announce_json E i (Some pubuid) (snd (add_announced c i r3))))],
              snd (add_announced c i r3)) in if is_new then extend p (announce_to_matching E i name) else p))
          (update_meta_clientpub E c)) (update_meta_pub E name)"
      unfolding handle_publish_def Let_def entry case_prod_conv prev_def [symmetric] r2_def [symmetric]
        r3_def [symmetric] using through by (simp only: if_False)
  qed (use t in simp)
qed

lemma handle_publish_steps:
  assumes ok: "registry_ok r"
  shows "reg_steps r (snd (handle_publish E c name pubuid type_str properties r))"
proof (cases "at_cap (pubs (client_of c (ensure_client c r))) pubuid \<or>
    hm_get (by_name (ensure_client c r)) name = None \<and> length (topics (ensure_client c r)) \<ge> MAX_TOPICS")
  case True
  then show ?thesis
    using reg_step.client [of r c] unfolding handle_publish_def Let_def by auto
next
  case False
  obtain is_new i prev r4 p5 p6 where
    p5: "p5 = (let p = ([(c, Text (announce_json E i (Some pubuid) r4))], r4)
               in if is_new then extend p (announce_to_matching E i name) else p)"
    and p6: "p6 = (case prev of Some old \<Rightarrow> if old \<noteq> i then extend p5 (release_publisher E old) else p5
               | None \<Rightarrow> p5)"
    and h: "handle_publish E c name pubuid type_str properties r =
        extend (extend p6 (update_meta_clientpub E c)) (update_meta_pub E name)"
    and r4: "reg_steps r r4" "\<exists>t. hm_get (topics r4) i = Some t \<and> t_name t = name"
    by (rule handle_publish_shape [OF ok]) (use False in blast)+
  have ok4: "registry_ok r4" using reg_steps_ok [OF r4(1) ok] .
  have s5: "reg_steps r4 (snd p5)"
    unfolding p5 Let_def using r4(2) announce_to_matching_steps(1) by auto
  have "reg_steps r4 (snd p6)" unfolding p6 by (rule release_moved_steps [OF s5 ok4])
  then have "reg_steps r4 (snd (extend (extend p6 (update_meta_clientpub E c)) (update_meta_pub E name)))"
    by (intro extend_steps [OF _ ok4] update_meta_steps)
  with r4(1) show ?thesis unfolding h by (rule rtranclp_trans)
qed

lemma handle_unpublish_steps:
  assumes "registry_ok r"
  shows "reg_steps r (snd (handle_unpublish E c pubuid r))"
proof (cases "topic_id_for_pubuid c pubuid r")
  case (Some i)
  let ?r = "update_client c (\<lambda>cs. cs\<lparr> pubs := hm_remove (pubs cs) pubuid \<rparr>) r"
  have step: "reg_step r ?r" unfolding hm_remove_def by (rule reg_step.no_pubs)
  then have ok: "registry_ok ?r" using registry_ok_step assms by blast
  have "reg_steps ?r (snd (extend (release_publisher E i ?r) (update_meta_clientpub E c)))"
    by (intro extend_steps [OF _ ok] release_publisher_steps ok update_meta_steps)
  moreover have "reg_step ?r (?r\<lparr> clients := hm_map (\<lambda>cs. cs\<lparr> pubs := filter (\<lambda>(_, tid). tid \<noteq> i) (pubs cs) \<rparr>)
      (clients ?r) \<rparr>)"
    by (rule reg_step.no_pubs_all)
  ultimately show ?thesis
    using step unfolding handle_unpublish_def Some option.case Let_def
    by (auto intro: converse_rtranclp_into_rtranclp)
qed (simp add: handle_unpublish_def)

lemma handle_unannounce_steps:
  assumes "registry_ok r"
  shows "reg_steps r (snd (handle_unannounce E c name r))"
proof (cases "hm_get (by_name r) name")
  case (Some i)
  let ?r = "update_client c (\<lambda>cs. cs\<lparr> pubs := filter (\<lambda>(_, tid). tid \<noteq> i) (pubs cs) \<rparr>) r"
  have step: "reg_step r ?r" by (rule reg_step.no_pubs)
  then have ok: "registry_ok ?r" using registry_ok_step assms by blast
  have "reg_steps ?r (snd (extend (extend (delete_topic E i ?r) (update_meta_clientpub E c)) (update_meta_pub E name)))"
    by (intro extend_steps [OF _ ok] delete_topic_steps update_meta_steps)
  with step show ?thesis
    unfolding handle_unannounce_def Some option.case Let_def by (rule converse_rtranclp_into_rtranclp)
qed (simp add: handle_unannounce_def)

lemma handle_setproperties_steps: "reg_steps r (snd (handle_setproperties E c name update r))"
proof (cases "hm_get (by_name r) name")
  case (Some i)
  then show ?thesis
    using reg_step.properties [of r i _ update]
    by (cases "hm_get (topics r) i")
      (auto simp: handle_setproperties_def Let_def change_properties_def [abs_def])
qed (simp add: handle_setproperties_def)

lemma drop_subscribers_steps:
  "reg_steps r (fold (drop_subscriber c) ids r) \<and> topics (fold (drop_subscriber c) ids r) = topics r
   \<and> by_name (fold (drop_subscriber c) ids r) = by_name r \<and> clients (fold (drop_subscriber c) ids r) = clients r"
proof (induction ids arbitrary: r)
  case (Cons i ids)
  have "by_name (drop_subscriber c i r) = by_name r" "clients (drop_subscriber c i r) = clients r"
    by (simp_all add: drop_subscriber_def)
  with Cons [of "drop_subscriber c i r"] reg_step.no_subscriber [of r c i] show ?case
    by (auto intro: converse_rtranclp_into_rtranclp)
qed simp

lemma drop_subscription_steps:
  assumes "drop_subscription c subuid r = (touched, r')"
  shows "reg_steps r r'" and "\<not> at_cap (subs (client_of c r)) subuid \<Longrightarrow> registry_ok r \<Longrightarrow>
    \<not> at_cap (subs (client_of c r')) subuid"
proof -
  have "reg_steps r r' \<and> (\<not> at_cap (subs (client_of c r)) subuid \<longrightarrow> registry_ok r \<longrightarrow>
    \<not> at_cap (subs (client_of c r')) subuid)"
  proof (cases "hm_get (subs (client_of c r)) subuid")
    case None
    with assms show ?thesis by (auto simp: drop_subscription_def)
  next
    case (Some prev)
    let ?r = "update_client c (\<lambda>cs. cs\<lparr> subs := hm_remove (subs cs) subuid \<rparr>) r"
    have r': "r' = fold (drop_subscriber c) (s_matched prev) ?r"
      using assms Some by (auto simp: drop_subscription_def)
    obtain cs where cs: "hm_get (clients r) c = Some cs" "client_of c r = cs"
      using Some by (cases "hm_get (clients r) c") (auto simp: client_of_def client_default_def)
    have "clients r' = clients ?r" using drop_subscribers_steps r' by blast
    then have subs: "subs (client_of c r') = hm_remove (subs cs) subuid"
      using cs by (simp add: client_of_def update_client_def)
    have "length (subs cs) \<le> MAX_PER_CLIENT" if "registry_ok r"
      using that cs by (auto simp: registry_ok_def clients_ok_def client_ok_def)
    moreover have "length (hm_remove (subs cs) subuid) < length (subs cs)"
      using hm_remove_shorter Some cs by simp
    ultimately have "\<not> at_cap (subs (client_of c r')) subuid" if "registry_ok r"
      using that subs by (auto simp: at_cap_def)
    moreover have "reg_step r ?r" by (rule reg_step.no_sub)
    ultimately show ?thesis
      using drop_subscribers_steps [of ?r c "s_matched prev"] r'
      by (auto intro: converse_rtranclp_into_rtranclp)
  qed
  then show "reg_steps r r'" "\<not> at_cap (subs (client_of c r)) subuid \<Longrightarrow> registry_ok r \<Longrightarrow>
    \<not> at_cap (subs (client_of c r')) subuid" by blast+
qed

lemma subscribe_one_steps:
  assumes "hm_has (topics r) i"
  shows "reg_steps r (snd (subscribe_one E c topics_only i r))"
    and "topics (snd (subscribe_one E c topics_only i r)) = topics r"
    and "clients (snd (subscribe_one E c topics_only i r)) = clients r"
proof -
  let ?r = "if \<not> topics_only then add_subscriber c i r else r"
  have "reg_steps r ?r" using reg_step.subscriber [OF assms] by auto
  moreover have "reg_step ?r (snd (add_announced c i ?r))"
    by (rule reg_step.announced) (use assms in auto)
  moreover have "snd (subscribe_one E c topics_only i r) = snd (add_announced c i ?r)"
    by (simp add: subscribe_one_def Let_def case_prod_beta)
  ultimately show "reg_steps r (snd (subscribe_one E c topics_only i r))"
    and "topics (snd (subscribe_one E c topics_only i r)) = topics r"
    and "clients (snd (subscribe_one E c topics_only i r)) = clients r"
    by (auto simp: add_subscriber_def add_announced_def Let_def)
qed

lemma set_insert_all_set [simp]: "set (set_insert_all xs s) = set xs \<union> set s"
  by (induction xs arbitrary: s) (auto simp: set_insert_all_def)

lemma set_insert_all_distinct: "distinct s \<Longrightarrow> distinct (set_insert_all xs s)"
  by (induction xs arbitrary: s) (simp_all add: set_insert_all_def)

lemma matched_ids_matches:
  assumes "registry_ok r" and "i \<in> set (matched_ids s r)"
  shows "matches_topic r s i"
proof -
  obtain nm where nm: "(nm, i) \<in> set (by_name r)" "sub_visible_to s nm" "sub_matches s nm"
    using assms(2) by (auto simp: matched_ids_def)
  moreover have "hm_ok (by_name r)" using assms(1) by (simp add: registry_ok_def maps_ok_def)
  ultimately have "hm_get (by_name r) nm = Some i" by (simp add: hm_get_mem)
  from hm_has_by_name [OF assms(1) this] nm show ?thesis by (auto simp: matches_topic_def)
qed

lemma drop_subscription_frame:
  "drop_subscription c subuid r = (touched, r') \<Longrightarrow> topics r' = topics r \<and> by_name r' = by_name r"
  using drop_subscribers_steps [of "update_client c f r" c ids for f ids]
  by (auto simp: drop_subscription_def update_client_def split: option.splits)

text \<open>A subscribe below the cap: the subscription it replaces is dropped, the loop runs over the
  matched topics, the new subscription is stored, and the meta topics follow.\<close>

lemma handle_subscribe_shape:
  assumes ok: "registry_ok r" and cap: "\<not> at_cap (subs (client_of c (ensure_client c r))) subuid"
  obtains touched r1 bare ids routes r2 r3 where
    "drop_subscription c subuid (ensure_client c r) = (touched, r1)"
    and "bare = \<lparr> s_patterns = patterns, s_prefix = prefix, s_topics_only = topics_only,
                    s_matched = [], s_options = options \<rparr>"
    and "ids = matched_ids bare r1" and "\<forall>j \<in> set ids. hm_has (topics r1) j"
    and "extend_each (subscribe_one E c topics_only) ids r1 = (routes, r2)"
    and "r3 = update_client c (\<lambda>cs. cs\<lparr> subs := hm_insert (subs cs) subuid (bare\<lparr> s_matched := set_insert_all ids [] \<rparr>) \<rparr>) r2"
    and "handle_subscribe E c patterns subuid prefix topics_only options r =
      extend (extend (routes, r3) (update_meta_clientsub E c)) (update_meta_sub_for E (set_insert_all ids touched))"
    and "reg_steps r r3" and "topics r1 = topics r" and "topics r3 = topics r" and "by_name r1 = by_name r"
proof -
  have s0: "reg_step r (ensure_client c r)" by (rule reg_step.client)
  have ok0: "registry_ok (ensure_client c r)" using registry_ok_step [OF s0 ok] .
  obtain touched r1 where d: "drop_subscription c subuid (ensure_client c r) = (touched, r1)" by fastforce
  note r1 = drop_subscription_steps(1) [OF d] drop_subscription_steps(2) [OF d cap ok0]
  have ok1: "registry_ok r1" using reg_steps_ok [OF r1(1) ok0] .
  define bare where "bare = \<lparr> s_patterns = patterns, s_prefix = prefix, s_topics_only = topics_only,
                  s_matched = [], s_options = options \<rparr>"
  define ids where "ids = matched_ids bare r1"
  let ?sub = "bare\<lparr> s_matched := set_insert_all ids [] \<rparr>"
  obtain routes r2 where l: "extend_each (subscribe_one E c topics_only) ids r1 = (routes, r2)" by fastforce
  have matches: "matches_topic r1 bare i" if "i \<in> set ids" for i
    using matched_ids_matches [OF ok1] that by (simp add: ids_def)
  then have has: "\<forall>i \<in> set ids. hm_has (topics r1) i" by (auto simp: matches_topic_def)
  have loop: "reg_steps r1 (snd (extend_each (subscribe_one E c topics_only) ids r1)) \<and>
      (topics (snd (extend_each (subscribe_one E c topics_only) ids r1)) = topics r1 \<and>
       clients (snd (extend_each (subscribe_one E c topics_only) ids r1)) = clients r1)"
    by (rule extend_each_steps [where Q = "\<lambda>s. topics s = topics r1 \<and> clients s = clients r1"])
      (use has in \<open>auto simp: subscribe_one_steps\<close>)
  then have r2: "reg_steps r1 r2" "topics r2 = topics r1" "clients r2 = clients r1" using l by auto
  have "sub_ok r2 ?sub"
    using matches r2(2)
    by (auto simp: sub_ok_def matches_topic_def set_insert_all_distinct sub_visible_to_def sub_matches_def)
  then have "reg_step r2 (update_client c (\<lambda>cs. cs\<lparr> subs := hm_insert (subs cs) subuid ?sub \<rparr>) r2)"
    using r1(2) client_of_cong [OF r2(3)] by (intro reg_step.sub) simp_all
  moreover have "reg_steps r r2"
    using s0 r1(1) r2(1) by (meson converse_rtranclp_into_rtranclp rtranclp_trans)
  moreover have "by_name (ensure_client c r) = by_name r" by (simp add: ensure_client_def)
  moreover have "handle_subscribe E c patterns subuid prefix topics_only options r =
      extend (extend (routes, update_client c (\<lambda>cs. cs\<lparr> subs := hm_insert (subs cs) subuid ?sub \<rparr>) r2)
        (update_meta_clientsub E c)) (update_meta_sub_for E (set_insert_all ids touched))"
    unfolding handle_subscribe_def Let_def d case_prod_conv bare_def [symmetric] ids_def [symmetric] l
    using cap by simp
  ultimately show thesis
    using drop_subscription_frame [OF d] r2 has by (intro that [OF d bare_def ids_def _ l refl]) simp_all
qed

lemma handle_subscribe_steps:
  assumes "registry_ok r"
  shows "reg_steps r (snd (handle_subscribe E c patterns subuid prefix topics_only options r))"
proof (cases "at_cap (subs (client_of c (ensure_client c r))) subuid")
  case True
  then show ?thesis
    using reg_step.client [of r c] unfolding handle_subscribe_def Let_def by auto
next
  case False
  obtain routes r3 ids where h: "handle_subscribe E c patterns subuid prefix topics_only options r =
      extend (extend (routes, r3) (update_meta_clientsub E c)) (update_meta_sub_for E ids)"
    and r3: "reg_steps r r3"
    by (rule handle_subscribe_shape [OF assms False]) blast
  show ?thesis
    unfolding h by (intro extend_steps [OF _ assms] update_meta_steps) (simp_all add: r3)
qed

lemma handle_unsubscribe_steps:
  assumes "registry_ok r"
  shows "reg_steps r (snd (handle_unsubscribe E c subuid r))"
proof -
  obtain touched r1 where d: "drop_subscription c subuid r = (touched, r1)" by fastforce
  have "reg_steps r (snd (extend (extend ([], r1) (update_meta_clientsub E c)) (update_meta_sub_for E touched)))"
    by (intro extend_steps [OF _ assms] update_meta_steps)
      (use drop_subscription_steps(1) [OF d] in simp_all)
  then show ?thesis by (simp add: handle_unsubscribe_def d)
qed

lemma set_retained_steps: "reg_steps r (set_retained name b r)"
  using reg_step.retained by (auto simp: set_retained_def split: option.split)

lemma on_connect_steps:
  assumes "registry_ok r"
  shows "reg_steps r (snd (on_connect E c base_name info r))"
proof -
  obtain n r1 where d: "dedup_client_name base_name r = (n, r1)" by fastforce
  let ?r2 = "r1\<lparr> client_name_by_id := hm_insert (client_name_by_id r1) c n \<rparr>"
  let ?r4 = "update_client c (\<lambda>cs. cs\<lparr> conn_info := info \<rparr>) (ensure_client c ?r2)"
  have "reg_step r ?r2" by (rule reg_step.name [OF d])
  moreover have "reg_step ?r2 (ensure_client c ?r2)" by (rule reg_step.client)
  moreover have "reg_step (ensure_client c ?r2) ?r4" by (rule reg_step.info)
  ultimately have s: "reg_steps r ?r4" by simp
  then have ok: "registry_ok ?r4" using reg_steps_ok assms by blast
  have "reg_steps ?r4 (snd (extend (extend (extend (extend (update_meta_clients E ?r4)
      (update_meta_clientpub E c)) (update_meta_clientsub E c)) (update_meta_serversub E))
      (update_meta_serverpub E)))"
    by (intro extend_steps [OF _ ok] update_meta_steps ok)
  with s show ?thesis
    unfolding on_connect_def Let_def d case_prod_conv by (rule rtranclp_trans)
qed

lemma drop_publishers_steps: "reg_steps r (snd (drop_publishers ids candidates r))"
proof (induction ids arbitrary: candidates r)
  case (Cons i ids)
  have "reg_step r (r\<lparr> topics := hm_modify (topics r) i (\<lambda>t. t\<lparr> t_publishers := t_publishers t - 1 \<rparr>) \<rparr>)"
    by (rule reg_step.publishers)
  then show ?case
    using Cons by (simp del: One_nat_def) (meson converse_rtranclp_into_rtranclp)
qed simp

lemma release_name_steps:
  assumes "registry_ok r" and "hm_get (client_name_by_id r) c = Some n"
  shows "reg_steps r (delete_topic_if_exists E a (delete_topic_if_exists E b (release_client_name n
    (r\<lparr> client_name_by_id := hm_remove (client_name_by_id r) c, clients := hm_remove (clients r) c \<rparr>))))"
proof -
  let ?r1 = "r\<lparr> client_name_by_id := hm_remove (client_name_by_id r) c \<rparr>"
  let ?r2 = "?r1\<lparr> clients := hm_remove (clients ?r1) c \<rparr>"
  have "reg_step r ?r1" by (rule reg_step.no_name)
  moreover have "reg_step ?r1 ?r2" by (rule reg_step.no_client)
  moreover have "reg_step ?r2 (release_client_name n ?r2)"
    by (rule reg_step.release)
      (use assms in \<open>auto simp: registry_ok_def client_names_ok_def split: if_splits\<close>)
  ultimately have "reg_steps r (release_client_name n ?r2)" by simp
  then show ?thesis using delete_topic_if_exists_steps by simp (meson rtranclp_trans)
qed

lemma delete_if_orphaned_steps: "reg_steps r (snd (delete_if_orphaned E i r))"
  by (auto simp: delete_if_orphaned_def delete_topic_steps split: option.split)

lemma on_disconnect_steps:
  assumes "registry_ok r"
  shows "reg_steps r (snd (on_disconnect E c r))"
proof -
  let ?name = "hm_get (client_name_by_id r) c"
  let ?r1 = "r\<lparr> client_name_by_id := hm_remove (client_name_by_id r) c \<rparr>"
  let ?r2 = "?r1\<lparr> clients := hm_remove (clients ?r1) c \<rparr>"
  define r3 where "r3 = (case ?name of
      Some n \<Rightarrow> delete_topic_if_exists E (''$clientsub$'' @ n)
                 (delete_topic_if_exists E (''$clientpub$'' @ n) (release_client_name n ?r2))
    | None \<Rightarrow> ?r2)"
  have "reg_steps r ?r2"
    using reg_step.no_name [of r c] reg_step.no_client [of ?r1 c] by simp
  then have s3: "reg_steps r r3"
    using release_name_steps [OF assms] by (auto simp: r3_def split: option.split)
  obtain candidates r4 where d: "drop_publishers (map snd (pubs (client_of c ?r1))) [] r3 = (candidates, r4)"
    by fastforce
  have s4: "reg_steps r r4"
    using drop_publishers_steps [of r3 "map snd (pubs (client_of c ?r1))" "[]"] s3 d by simp
  then have ok4: "registry_ok r4" using reg_steps_ok assms by blast
  have "reg_steps r4 (snd (extend (extend (extend (extend_each (delete_if_orphaned E) candidates r4)
      (update_meta_clients E)) (update_meta_sub_for E ids)) (extend_each (update_meta_pub E) names)))" for ids names
    by (intro extend_steps [OF _ ok4] update_meta_steps extend_each_steps_ok ok4
        delete_if_orphaned_steps)
  with s4 show ?thesis
    unfolding on_disconnect_def Let_def r3_def [symmetric] d case_prod_conv by (rule rtranclp_trans)
qed

section \<open>Reachable registries\<close>

text \<open>The calls the server makes on a registry, and what each does to it.  A saved entry is well
  typed when its value has the type its type string names.\<close>

datatype reg_call =
    CPublish client_id string u32 string jmap
  | CUnpublish client_id u32
  | CSubscribe client_id "string list" u32 bool bool jmap
  | CUnsubscribe client_id u32
  | CValue client_id u32 nt_value u64
  | CTopicValue nat nt_value u64
  | CUpsert string nt_value u64
  | CSetProperties client_id string jmap
  | CUnannounce client_id string
  | CTimestamp client_id nt_value u64
  | CConnect client_id string string
  | CDisconnect client_id
  | CRetain string bool
  | CRestore "(string \<times> string \<times> nt_value \<times> jmap) list" u64
  | CTick

fun reg_run :: "env \<Rightarrow> reg_call \<Rightarrow> nt_registry \<Rightarrow> routes \<times> nt_registry" where
  "reg_run E (CPublish c name pubuid type_str properties) = handle_publish E c name pubuid type_str properties"
| "reg_run E (CUnpublish c pubuid) = handle_unpublish E c pubuid"
| "reg_run E (CSubscribe c patterns subuid prefix topics_only options) =
     handle_subscribe E c patterns subuid prefix topics_only options"
| "reg_run E (CUnsubscribe c subuid) = handle_unsubscribe E c subuid"
| "reg_run E (CValue c pubuid v ts) = handle_value c pubuid v ts"
| "reg_run E (CTopicValue i v ts) = handle_topic_value i v ts"
| "reg_run E (CUpsert name v ts) = handle_upsert_value name v ts"
| "reg_run E (CSetProperties c name update) = handle_setproperties E c name update"
| "reg_run E (CUnannounce c name) = handle_unannounce E c name"
| "reg_run E (CTimestamp c v ts) = handle_timestamp c v ts"
| "reg_run E (CConnect c base info) = on_connect E c base info"
| "reg_run E (CDisconnect c) = on_disconnect E c"
| "reg_run E (CRetain name b) = (\<lambda>r. ([], set_retained name b r))"
| "reg_run E (CRestore entries ts) = (\<lambda>r. ([], restore_persistent entries ts r))"
| "reg_run E CTick = (\<lambda>r. ([], snd (now_micros E r)))"

definition entry_typed :: "string \<times> string \<times> nt_value \<times> jmap \<Rightarrow> bool" where
  "entry_typed e = (case e of (_, type_str, v, _) \<Rightarrow> xt_data_type v = data_type_from_string type_str)"

fun call_ok :: "reg_call \<Rightarrow> bool" where
  "call_ok (CRestore entries ts) = list_all entry_typed entries"
| "call_ok _ = True"

fun is_restore :: "reg_call \<Rightarrow> bool" where
  "is_restore (CRestore entries ts) = True"
| "is_restore _ = False"

lemma now_micros_steps: "reg_steps r (snd (now_micros E r))"
  using reg_step.tick [of r] by (auto simp: now_micros_def)

lemma reg_run_steps:
  assumes "registry_ok r" and "\<not> is_restore call"
  shows "reg_steps r (snd (reg_run E call r))"
  using assms
  by (cases call)
    (auto simp: handle_value_def handle_timestamp_def handle_topic_value_steps split: option.split
      intro: handle_publish_steps handle_unpublish_steps handle_subscribe_steps handle_unsubscribe_steps
        handle_upsert_value_steps handle_setproperties_steps handle_unannounce_steps on_connect_steps
        on_disconnect_steps set_retained_steps now_micros_steps)

lemma registry_ok_ghost [simp]:
  "registry_ok (r\<lparr> persistent_generation := n \<rparr>) = registry_ok r"
  by (simp add: registry_ok_def maps_ok_def topics_ok_def names_ok_def ids_ok_def lists_ok_def
      clients_ok_def client_names_ok_def client_ok_def sub_ok_def matches_topic_def)

text \<open>Inserting a topic keeps the invariant whether or not it comes with a value.\<close>

lemma registry_ok_insert:
  assumes ok: "registry_ok r" and fresh: "hm_get (by_name r) (t_name t) = None" and t: "topic_ok t"
  shows "registry_ok (snd (insert_topic t r))"
proof -
  have ids: "ids_ok r" using ok by (simp add: registry_ok_def)
  have names: "names_ok r" and lists: "lists_ok r" and cs: "clients_ok r"
    using ok by (simp_all add: registry_ok_def)
  have fresh': "t_name t' \<noteq> t_name t" if "hm_get (topics r) j = Some t'" for j t'
    using that names fresh unfolding names_ok_def by (metis option.distinct(1))
  show ?thesis
  proof (rule insert_topic_cases [OF ids, of t])
    fix i f n
    assume ins: "insert_topic t r = (i, r\<lparr> freed := f, next_id := n,
        topics := hm_insert (topics r) i t, by_name := hm_insert (by_name r) (t_name t) i \<rparr>)"
      and i: "\<not> hm_has (topics r) i" "i < n" "set f = set (freed r) - {i}" "distinct f"
        "\<And>j. j < n \<longleftrightarrow> j = i \<or> j < next_id r"
    let ?r = "snd (insert_topic t r)"
    have "keeps_topics r ?r" using ins i(1) by (auto simp: keeps_topics_def)
    then have "clients_ok ?r" by (rule clients_ok_keeps [OF _ _ cs]) (simp add: ins)
    moreover have "maps_ok ?r" "topics_ok ?r"
      using ok ins t by (simp_all add: registry_ok_def maps_ok_def topics_ok_def)
    moreover have "ids_ok ?r" using ids i by (auto simp: ids_ok_def ins)
    moreover have "client_names_ok ?r = client_names_ok r"
      unfolding client_names_ok_def by (simp add: ins)
    moreover have "names_ok ?r" using names i(1) fresh' fresh by (auto simp: names_ok_def ins)
    moreover have "lists_ok ?r"
      using lists by (simp add: lists_ok_def ins) blast
    ultimately show "registry_ok ?r" using ok by (simp add: registry_ok_def)
  qed
qed

lemma restore_one_ok:
  assumes "registry_ok r" and "entry_typed e"
  shows "registry_ok (restore_one ts e r)"
proof -
  obtain name type_str v properties where e: "e = (name, type_str, v, properties)"
    by (metis prod_cases4)
  show ?thesis
    using assms unfolding e restore_one_def
    by (auto simp: Let_def entry_typed_def topic_ok_def sync_properties_def intro!: registry_ok_insert)
qed

lemma restore_persistent_ok:
  assumes "registry_ok r" and "list_all entry_typed entries"
  shows "registry_ok (restore_persistent entries ts r)"
proof -
  have "registry_ok (fold (restore_one ts) entries r)"
    using assms by (induction entries arbitrary: r) (auto simp: restore_one_ok)
  then show ?thesis by (simp add: restore_persistent_def Let_def)
qed

inductive reachable :: "env \<Rightarrow> nt_registry \<Rightarrow> bool" for E where
  start: "reachable E registry_new"
| call: "reachable E r \<Longrightarrow> call_ok c \<Longrightarrow> reachable E (snd (reg_run E c r))"

lemma registry_ok_new: "registry_ok registry_new"
  by (simp add: registry_ok_def registry_new_def maps_ok_def topics_ok_def names_ok_def ids_ok_def
      lists_ok_def clients_ok_def client_names_ok_def)

lemma reg_run_ok: "registry_ok r \<Longrightarrow> call_ok c \<Longrightarrow> registry_ok (snd (reg_run E c r))"
  using reg_steps_ok [OF reg_run_steps] restore_persistent_ok
  by (cases "is_restore c") (auto elim!: is_restore.elims)

lemma reachable_ok: "reachable E r \<Longrightarrow> registry_ok r"
  by (induction rule: reachable.induct) (auto simp: registry_ok_new reg_run_ok)

end
