(* ===== verification/Nt_Registry_Props.thy ===== *)
theory Nt_Registry_Props
  imports Nt_Registry_Inv
begin

text \<open>
  What the registry promises: the invariant of every reachable state, the caps, the persistence
  counter, the fan-out and retention of values, late subscribers, property updates, client names,
  and the behaviours in which the code falls short of its comments.
\<close>

section \<open>The invariant of reachable registries\<close>

text \<open>C2. In every registry the server can reach, names and ids are in one-to-one correspondence
  with the topics, the topic ids and the freed ids together are exactly the ids below \<open>next_id\<close>
  and never overlap (so an id is never handed out twice), the fan-out and announcement lists name
  live topics without repeating a client, each subscription's matched set holds live topics its
  patterns match and may see, no client holds more than 512 publishers or subscriptions, client
  names are unique, and every topic's cached flags, type and retained value agree with its
  properties and type string.\<close>

theorem reachable_registry_ok:
  assumes "reachable E r"
  shows "registry_ok r"
  using assms by (rule reachable_ok)

theorem reachable_registry_ok_witness:
  "registry_ok (snd (reg_run \<lparr> to_string = (\<lambda>_. []), clock = (\<lambda>_. 0) \<rparr>
     (CUpsert ''t'' (VBool True) 5) registry_new))"
  by (rule reachable_registry_ok, rule reachable.call, rule reachable.start) simp

section \<open>The persistence counter\<close>

definition saved_entries :: "nt_registry \<Rightarrow> (string \<times> string \<times> nt_value \<times> jmap) set" where
  "saved_entries r = {(t_name t, t_type_str t, stamped sv, t_properties t) | i t sv.
     hm_get (topics r) i = Some t \<and> bool_property (t_properties t) ''persistent'' False \<and> t_current t = Some sv}"

lemma set_persistent_snapshot:
  "maps_ok r \<Longrightarrow> set (persistent_snapshot r) = saved_entries r"
  unfolding persistent_snapshot_def saved_entries_def set_filter_map maps_ok_def
  by (force simp: hm_get_mem image_iff)

lemma saved_entries_same:
  assumes "\<And>i. map_option (\<lambda>t. (t_name t, t_type_str t, t_properties t, t_current t)) (hm_get (topics r) i)
         = map_option (\<lambda>t. (t_name t, t_type_str t, t_properties t, t_current t)) (hm_get (topics r') i)"
  shows "saved_entries r = saved_entries r'"
proof -
  have "saved_entries a \<subseteq> saved_entries b"
    if "\<And>i. map_option (\<lambda>t. (t_name t, t_type_str t, t_properties t, t_current t)) (hm_get (topics a) i)
         = map_option (\<lambda>t. (t_name t, t_type_str t, t_properties t, t_current t)) (hm_get (topics b) i)" for a b
  proof
    fix e assume "e \<in> saved_entries a"
    then obtain i t sv where t: "hm_get (topics a) i = Some t" "bool_property (t_properties t) ''persistent'' False"
      "t_current t = Some sv" "e = (t_name t, t_type_str t, stamped sv, t_properties t)"
      by (auto simp: saved_entries_def)
    from that [of i] t(1) obtain t' where "hm_get (topics b) i = Some t'" "t_name t' = t_name t"
      "t_type_str t' = t_type_str t" "t_properties t' = t_properties t" "t_current t' = t_current t"
      by (cases "hm_get (topics b) i") auto
    with t show "e \<in> saved_entries b" unfolding saved_entries_def
      by (intro CollectI exI [of _ i] exI [of _ t'] exI [of _ sv]) simp
  qed
  from this [of r r'] this [of r' r] assms show ?thesis by (metis subset_antisym)
qed

lemma saved_entries_generation [simp]: "saved_entries (r\<lparr> persistent_generation := n \<rparr>) = saved_entries r"
  by (simp add: saved_entries_def)

text \<open>A topic that is not saved before or after a change leaves the saved entries alone.\<close>

lemma saved_entries_local:
  assumes "\<And>j. j \<noteq> i \<Longrightarrow> hm_get (topics r') j = hm_get (topics r) j"
    and "\<And>t. hm_get (topics r) i = Some t \<Longrightarrow> \<not> bool_property (t_properties t) ''persistent'' False \<or> t_current t = None"
    and "\<And>t. hm_get (topics r') i = Some t \<Longrightarrow> \<not> bool_property (t_properties t) ''persistent'' False \<or> t_current t = None"
  shows "saved_entries r' = saved_entries r"
proof -
  have "hm_get (topics r') j = Some t \<longleftrightarrow> hm_get (topics r) j = Some t"
    if "bool_property (t_properties t) ''persistent'' False" "t_current t = Some sv" for j t sv
    using assms that by (cases "j = i") auto
  then show ?thesis unfolding saved_entries_def by (auto; metis)
qed

definition counted :: "nt_registry \<Rightarrow> nt_registry \<Rightarrow> bool" where
  "counted r r' \<longleftrightarrow> persistent_generation r \<le> persistent_generation r' \<and>
     (persistent_generation r' = persistent_generation r \<longrightarrow> saved_entries r' = saved_entries r)"

lemma counted_refl [simp]: "counted r r"
  by (simp add: counted_def)

lemma counted_trans: "counted r s \<Longrightarrow> counted s t \<Longrightarrow> counted r t"
  by (auto simp: counted_def)

lemma topic_persistent:
  "registry_ok r \<Longrightarrow> hm_get (topics r) i = Some t \<Longrightarrow>
   t_persistent t = bool_property (t_properties t) ''persistent'' False"
  by (simp add: registry_ok_def topics_ok_def topic_ok_def)

lemma counted_step: "reg_step r r' \<Longrightarrow> registry_ok r \<Longrightarrow> counted r r'"
proof (induction rule: reg_step.induct)
  case (insert r t)
  obtain i r1 where ins: "insert_topic t r = (i, r1)" by fastforce
  note new = insert_topic_new [OF insert.prems ins]
  have "saved_entries (r1\<lparr> persistent_generation := n \<rparr>) = saved_entries r" for n
    by (rule saved_entries_local [where i = i]) (use new insert.hyps(3) in auto)
  then show ?case using ins new(4) by (simp add: counted_def)
next
  case (unlink r i t)
  have "saved_entries (unlink_topic i t r) = saved_entries r" if "\<not> t_persistent t"
    by (rule saved_entries_local [where i = i])
      (use that topic_persistent [OF unlink.prems unlink.hyps] unlink.hyps in auto)
  then show ?case by (simp add: counted_def) (simp add: unlink_topic_def free_id_def)
next
  case (val r i t v ts)
  have "saved_entries (store_value i t v ts r) = saved_entries r" if "\<not> t_persistent t"
    by (rule saved_entries_local [where i = i])
      (use that topic_persistent [OF val.prems val.hyps(1)] val.hyps(1) in \<open>auto simp: store_value_def\<close>)
  then show ?case by (simp add: counted_def) (simp add: store_value_def)
next
  case (properties r i t update)
  have "t_persistent (change_properties update t) =
      bool_property (t_properties (change_properties update t)) ''persistent'' False"
    by (simp add: change_properties_def sync_properties_def)
  then have "saved_entries (r\<lparr> topics := hm_modify (topics r) i (change_properties update) \<rparr>) = saved_entries r"
    if "\<not> t_persistent t" "\<not> t_persistent (change_properties update t)"
    by (intro saved_entries_local [where i = i])
      (use that topic_persistent [OF properties.prems properties.hyps] properties.hyps in auto)
  then show ?case by (simp add: counted_def)
next
  case (publishers r i f)
  show ?case by (auto simp: counted_def option.map_comp comp_def intro!: saved_entries_same)
next
  case (retained r i b)
  show ?case by (auto simp: counted_def option.map_comp comp_def intro!: saved_entries_same)
qed (auto simp: counted_def step_defs intro!: saved_entries_same)

lemma counted_steps: "reg_steps r r' \<Longrightarrow> registry_ok r \<Longrightarrow> counted r r'"
proof (induction rule: rtranclp_induct)
  case (step s t)
  then show ?case using counted_trans counted_step reg_steps_ok by blast
qed simp

lemma generation_restore_one: "persistent_generation (restore_one ts e r) = persistent_generation r"
  by (cases e) (auto simp: restore_one_def insert_topic_def alloc_id_def Let_def)

lemma generation_restore: "persistent_generation (fold (restore_one ts) es r) = persistent_generation r"
  by (induction es arbitrary: r) (auto simp: generation_restore_one)

lemma generation_moves:
  assumes "registry_ok r"
  shows "persistent_generation r \<le> persistent_generation (snd (reg_run E call r))
    \<and> (persistent_generation (snd (reg_run E call r)) = persistent_generation r \<and> call_ok call
       \<longrightarrow> set (persistent_snapshot (snd (reg_run E call r))) = set (persistent_snapshot r))"
proof (cases "is_restore call")
  case True
  then obtain es ts where "call = CRestore es ts" by (auto elim: is_restore.elims)
  then show ?thesis by (simp add: restore_persistent_def Let_def generation_restore)
next
  case False
  have "counted r (snd (reg_run E call r))"
    by (rule counted_steps [OF reg_run_steps [OF assms False] assms])
  moreover have "maps_ok (snd (reg_run E call r))" if "call_ok call"
    using reg_run_ok [OF assms that] by (simp add: registry_ok_def)
  ultimately show ?thesis
    using assms by (auto simp: counted_def set_persistent_snapshot registry_ok_def)
qed

text \<open>The persistence counter: no call turns it back, and a call that leaves it where it was
  leaves the set of saved entries (names, types, values and properties) exactly as it was, so a
  saver that compares counters never misses a change.\<close>

lemma persistent_generation_moves:
  assumes "registry_ok r"
  shows "persistent_generation r \<le> persistent_generation (snd (reg_run E call r))
    \<and> (persistent_generation (snd (reg_run E call r)) = persistent_generation r \<and> call_ok call
       \<longrightarrow> set (persistent_snapshot (snd (reg_run E call r))) = set (persistent_snapshot r))"
  using assms by (rule generation_moves)

section \<open>Caps\<close>

definition client_topics :: "nt_registry \<Rightarrow> nat" where
  "client_topics r = card {i. \<exists>t. hm_get (topics r) i = Some t \<and> \<not> is_meta_topic (t_name t)}"

lemma finite_topics: "finite {i. \<exists>t. hm_get (topics r) i = Some t \<and> P t}"
  by (rule finite_subset [of _ "dom (hm_get (topics r))"]) (auto simp: finite_dom_map_of)

lemma card_topics_length:
  assumes "maps_ok r"
  shows "card {i. \<exists>t. hm_get (topics r) i = Some t \<and> P t} \<le> length (topics r)"
proof -
  have "card (dom (hm_get (topics r))) \<le> length (topics r)"
    using assms by (metis card_length dom_map_of_conv_image_fst length_map list.set_map)
  moreover have "card {i. \<exists>t. hm_get (topics r) i = Some t \<and> P t} \<le> card (dom (hm_get (topics r)))"
    by (rule card_mono) (auto simp: finite_dom_map_of)
  ultimately show ?thesis by simp
qed

lemma client_topics_mono:
  "(\<And>i t. hm_get (topics r') i = Some t \<Longrightarrow> \<not> is_meta_topic (t_name t) \<Longrightarrow>
      \<exists>t'. hm_get (topics r) i = Some t' \<and> t_name t' = t_name t) \<Longrightarrow> client_topics r' \<le> client_topics r"
  unfolding client_topics_def by (rule card_mono [OF finite_topics]) fastforce

lemma client_topics_step:
  "reg_step r r' \<Longrightarrow> registry_ok r \<Longrightarrow> client_topics r \<le> MAX_TOPICS \<Longrightarrow> client_topics r' \<le> MAX_TOPICS"
proof (induction rule: reg_step.induct)
  case (insert r t)
  obtain i r1 where ins: "insert_topic t r = (i, r1)" by fastforce
  note new = insert_topic_new [OF insert.prems(1) ins]
  show ?case
  proof (cases "is_meta_topic (t_name t)")
    case True
    then have "client_topics r1 \<le> client_topics r"
      by (intro client_topics_mono) (use new in \<open>auto split: if_splits\<close>)
    with insert.prems ins show ?thesis by (simp add: client_topics_def)
  next
    case False
    have "client_topics r1 \<le> card (Set.insert i {j. \<exists>t. hm_get (topics r) j = Some t \<and> \<not> is_meta_topic (t_name t)})"
      unfolding client_topics_def
      by (rule card_mono) (use new in \<open>auto simp: finite_topics split: if_splits\<close>)
    also have "\<dots> \<le> Suc (client_topics r)"
      unfolding client_topics_def by (rule card_insert_le_m1) (auto simp: finite_topics)
    also have "\<dots> \<le> Suc (length (topics r))"
      using card_topics_length insert.prems(1) by (simp add: client_topics_def registry_ok_def)
    finally show ?thesis using False insert.hyps(4) ins by (simp add: client_topics_def)
  qed
next
  case (properties r i t update)
  have "client_topics (r\<lparr> topics := hm_modify (topics r) i (change_properties update) \<rparr>) \<le> client_topics r"
    by (rule client_topics_mono) (auto simp: change_properties_def split: if_splits)
  with properties.prems show ?case by (simp add: client_topics_def)
qed (auto simp: step_defs elim!: order_trans [rotated] intro!: client_topics_mono split: if_splits)

lemma client_topics_steps:
  "reg_steps r r' \<Longrightarrow> registry_ok r \<Longrightarrow> client_topics r \<le> MAX_TOPICS \<Longrightarrow> client_topics r' \<le> MAX_TOPICS"
proof (induction rule: rtranclp_induct)
  case (step s t)
  then show ?case using client_topics_step reg_steps_ok by blast
qed simp



text \<open>The server's own meta topics are outside the cap: publishing to one that does not exist
  adds a topic however many there are, although the limit is documented as including them.\<close>

lemma meta_topics_uncapped:
  assumes "registry_ok r" and "hm_get (by_name r) name = None"
  shows "length (topics (snd (publish_meta E name maps r))) = length (topics r) + 1"
proof -
  let ?t = "\<lparr> t_name = name, t_data_type = 5, t_type_str = ''msgpack'', t_properties = [],
     t_current = None, t_publishers = 0, t_retained = True, t_cached = True, t_persistent = False \<rparr>"
  obtain i r1 where ins: "insert_topic ?t r = (i, r1)" by fastforce
  note new = insert_topic_new [OF assms(1) ins]
  have topics: "topics (snd (announce_to_matching E i name r1)) = topics r1"
    by (rule announce_to_matching_steps(2) [OF new(1)]) simp
  have value_length: "length (topics (snd (handle_topic_value j v ts s))) = length (topics s)" for j v ts s
    by (auto simp: handle_topic_value_def Let_def split: option.split)
  have "length (topics r1) = length (topics r) + 1" using new(2,8) by (simp add: length_hm_insert)
  then show ?thesis
    using assms(2) ins topics value_length
    by (auto simp: publish_meta_def ensure_meta_topic_def now_micros_def case_prod_beta split: sum.split)
qed

section \<open>Values\<close>

lemma encode_once_decodes:
  assumes "encode_value v = Ok b" and "wire_ok v"
  shows "vm_decode (encode_once v ts i) =
    Ok \<lparr> vm_topic_id = i, vm_timestamp_micros = ts, vm_data_type = xt_data_type v, vm_value = wire_form v \<rparr>"
proof -
  let ?m = "\<lparr> vm_topic_id = i, vm_timestamp_micros = ts, vm_data_type = xt_data_type v, vm_value = v \<rparr>"
  obtain bs where bs: "vm_encode ?m = Ok bs"
    using assms(1) by (auto simp: vm_encode_def encode_value_message_def encode_array_header_def Let_def)
  then have "encode_once v ts i = bs" by (simp add: encode_once_def vm_encode_def)
  with vm_decode_one_encode [OF bs, of "[]"] assms(2) show ?thesis by (simp add: vm_decode_def)
qed

text \<open>C7. A value published to a topic of its type reaches every subscriber of the topic once and
  nobody else, in a frame that decodes to the topic's id, the given time, the topic's declared type
  and the value in its wire form; a value of another type reaches nobody and changes nothing.\<close>

theorem value_fan_out:
  assumes "topic_id_for_pubuid c pubuid r = Some i" and "hm_get (topics r) i = Some t"
    and "lists_ok r" and "encode_value v = Ok b" and "wire_ok v"
  shows "if xt_data_type v = t_data_type t
    then map fst (fst (handle_value c pubuid v ts r)) = list_of (topic_subscribers r) i
      \<and> distinct (map fst (fst (handle_value c pubuid v ts r)))
      \<and> (\<forall>(d, out) \<in> set (fst (handle_value c pubuid v ts r)). \<exists>frame. out = ValueFrame frame
           \<and> vm_decode frame = Ok \<lparr> vm_topic_id = of_nat i, vm_timestamp_micros = ts,
                                    vm_data_type = t_data_type t, vm_value = wire_form v \<rparr>)
    else handle_value c pubuid v ts r = ([], r)"
proof (cases "xt_data_type v = t_data_type t")
  case True
  have "topic_subscribers (snd (handle_topic_value i v ts r)) = topic_subscribers r"
    by (simp add: handle_topic_value_def Let_def split: option.split)
  have routes: "fst (handle_value c pubuid v ts r) =
      map (\<lambda>d. (d, ValueFrame (encode_once v ts (of_nat i)))) (list_of (topic_subscribers r) i)"
    using assms(1,2) True by (auto simp: handle_value_def handle_topic_value_def Let_def)
  then have "map fst (fst (handle_value c pubuid v ts r)) = list_of (topic_subscribers r) i"
    by (simp add: comp_def)
  moreover have "distinct (list_of (topic_subscribers r) i)" using lists_ok_list_of(1) [OF assms(3)] .
  ultimately show ?thesis
    using True routes encode_once_decodes [OF assms(4,5), of ts "of_nat i"] by auto
next
  case False
  with assms(1,2) show ?thesis by (simp add: handle_value_def handle_topic_value_def)
qed

text \<open>A boolean topic \<open>a\<close> under id 0 with one publisher (client 1, uid 7) and one subscriber
  (client 2).\<close>

definition sample_topic :: topic_state where
  "sample_topic = \<lparr> t_name = ''a'', t_data_type = 0, t_type_str = ''boolean'', t_properties = [],
     t_current = None, t_publishers = 1, t_retained = False, t_cached = True, t_persistent = False \<rparr>"

definition sample_registry :: nt_registry where
  "sample_registry = registry_new\<lparr> topics := [(0, sample_topic)], by_name := [(''a'', 0)], next_id := 1,
     clients := [(1, client_default\<lparr> pubs := [(7, 0)] \<rparr>), (2, client_default)],
     topic_subscribers := [(0, [2])] \<rparr>"

theorem value_fan_out_witness:
  "map fst (fst (handle_value 1 7 (VBool True) 9 sample_registry)) = [2]"
proof -
  have "lists_ok sample_registry" by (simp add: lists_ok_def sample_registry_def registry_new_def)
  then show ?thesis
    using value_fan_out [of 1 7 sample_registry 0 sample_topic "VBool True" "[0xc3]" 9]
    by (simp add: sample_registry_def sample_topic_def topic_id_for_pubuid_def list_of_def)
qed

text \<open>The retained value after a sequence of values.\<close>

definition feed :: "nat \<Rightarrow> (nt_value \<times> u64) list \<Rightarrow> nt_registry \<Rightarrow> nt_registry" where
  "feed i vs r = fold (\<lambda>(v, ts) r. snd (handle_topic_value i v ts r)) vs r"

lemma feed_snoc: "feed i (vs @ [(v, ts)]) r = snd (handle_topic_value i v ts (feed i vs r))"
  by (simp add: feed_def)

lemma feed_topic:
  assumes "hm_get (topics r) i = Some t"
  shows "\<exists>cur. hm_get (topics (feed i vs r)) i = Some (t\<lparr> t_current := cur \<rparr>)"
proof (induction vs rule: rev_induct)
  case Nil
  then show ?case using assms by (auto simp: feed_def intro!: exI [of _ "t_current t"])
next
  case (snoc p vs)
  obtain v ts where p: "p = (v, ts)" by fastforce
  from snoc.IH show ?case
    unfolding p feed_snoc by (auto simp: handle_topic_value_def Let_def)
qed

text \<open>C8. A caching topic keeps the newest value: after any sequence of well-typed values, in any
  order of their times, the retained one is the last among those with the greatest time.\<close>

theorem newest_value_retained:
  assumes "hm_get (topics r) i = Some t" and "t_cached t" and "t_current t = None"
    and "list_all (\<lambda>(v, ts). xt_data_type v = t_data_type t) vs" and "vs \<noteq> []"
  shows "\<exists>k < length vs.
    (\<exists>t'. hm_get (topics (feed i vs r)) i = Some t'
       \<and> t_current t' = Some \<lparr> ts_micros = snd (vs ! k), stamped = fst (vs ! k) \<rparr>)
    \<and> (\<forall>j < length vs. snd (vs ! j) \<le> snd (vs ! k)) \<and> (\<forall>j < length vs. k < j \<longrightarrow> snd (vs ! j) < snd (vs ! k))"
  using assms(4,5)
proof (induction vs rule: rev_induct)
  case (snoc p vs)
  obtain v ts where p: "p = (v, ts)" by fastforce
  from snoc.prems p have v: "xt_data_type v = t_data_type t" by simp
  show ?case
  proof (cases "vs = []")
    case True
    with assms(1-3) v show ?thesis
      by (auto simp: p feed_def handle_topic_value_def Let_def)
  next
    case False
    with snoc obtain k t' where k: "k < length vs" "hm_get (topics (feed i vs r)) i = Some t'"
        "t_current t' = Some \<lparr> ts_micros = snd (vs ! k), stamped = fst (vs ! k) \<rparr>"
        "\<forall>j < length vs. snd (vs ! j) \<le> snd (vs ! k)" "\<forall>j < length vs. k < j \<longrightarrow> snd (vs ! j) < snd (vs ! k)"
      by auto
    obtain cur where "t' = t\<lparr> t_current := cur \<rparr>" using feed_topic [OF assms(1), of vs] k(2) by auto
    then have t': "t_cached t'" "t_data_type t' = t_data_type t" using assms(2) by auto
    show ?thesis
    proof (cases "snd (vs ! k) \<le> ts")
      case True
      with k t' v show ?thesis
        unfolding p feed_snoc
        by (intro exI [of _ "length vs"])
          (auto simp: handle_topic_value_def Let_def nth_append less_Suc_eq intro: order_trans)
    next
      case False
      with k t' v show ?thesis
        unfolding p feed_snoc
        by (intro exI [of _ k])
          (auto simp: handle_topic_value_def Let_def nth_append less_Suc_eq)
    qed
  qed
qed simp

theorem newest_value_retained_witness:
  "\<exists>k < 2. (\<exists>t'. hm_get (topics (feed 0 [(VBool True, 5), (VBool False, 3)] sample_registry)) 0 = Some t'
     \<and> t_current t' = Some \<lparr> ts_micros = snd ([(VBool True, 5 :: u64), (VBool False, 3)] ! k),
         stamped = fst ([(VBool True, 5 :: u64), (VBool False, 3)] ! k) \<rparr>)"
  using newest_value_retained [of sample_registry 0 sample_topic "[(VBool True, 5), (VBool False, 3)]"]
  by (auto simp: sample_registry_def sample_topic_def numeral_2_eq_2)

section \<open>Property updates\<close>

lemma apply_update_patch:
  "apply_update update m = ordered.patch (map (\<lambda>(k, v). (k, if v = JNull then None else Some v)) update) m"
proof (induction update arbitrary: m)
  case (Cons kv update)
  then show ?case by (cases kv) (simp add: apply_update_def ordered.patch_def)
qed (simp add: apply_update_def ordered.patch_def)

text \<open>\<open>setproperties\<close> merges: a null member removes its property, any other member sets it, every
  property the update does not name is as it was, the cached flags follow the new properties, and
  every client the topic was announced to is told once, with an acknowledgement for the one that
  asked.\<close>

lemma setproperties_merges:
  assumes "hm_get (by_name r) name = Some i" and "hm_get (topics r) i = Some t"
    and "om_ok (t_properties t)" and "om_ok update"
  shows "\<exists>t'. hm_get (topics (snd (handle_setproperties E c name update r))) i = Some t'
    \<and> (\<forall>k. om_get (t_properties t') k =
         (case om_get update k of Some v \<Rightarrow> if v = JNull then None else Some v
                                | None \<Rightarrow> om_get (t_properties t) k))
    \<and> t_cached t' = bool_property (t_properties t') ''cached'' True
    \<and> t_persistent t' = bool_property (t_properties t') ''persistent'' False
    \<and> t_current t' = t_current t
    \<and> fst (handle_setproperties E c name update r) =
        map (\<lambda>a. (a, Text (properties_json E name update (if a = c then Some True else None))))
          (list_of (topic_announced r) i)"
proof -
  let ?us = "map (\<lambda>(k, v). (k, if v = JNull then None else Some v)) update"
  let ?t = "sync_properties (t\<lparr> t_properties := apply_update update (t_properties t) \<rparr>)"
  have keys: "map fst ?us = map fst update" by (simp add: case_prod_beta comp_def)
  have ok: "om_ok (t_properties t)" by (rule assms(3))
  have "om_get (apply_update update (t_properties t)) k =
      (case om_get update k of Some v \<Rightarrow> if v = JNull then None else Some v | None \<Rightarrow> om_get (t_properties t) k)" for k
  proof (cases "om_get update k")
    case None
    then have "k \<notin> fst ` set ?us" using keys by (metis list.set_map map_of_eq_None_iff)
    from ordered.lookup_patch_other [OF ok this] None show ?thesis by (simp add: apply_update_patch)
  next
    case (Some v)
    then have "(k, if v = JNull then None else Some v) \<in> set ?us" by (force dest: map_of_SomeD)
    moreover have "distinct (map fst ?us)" by (simp only: keys om_ok_distinct [OF assms(4)])
    ultimately show ?thesis
      using ordered.lookup_patch [OF ok] Some by (simp add: apply_update_patch)
  qed
  then show ?thesis
    using assms(1,2)
    by (intro exI [of _ ?t]) (auto simp: handle_setproperties_def Let_def sync_properties_def)
qed

section \<open>Client names\<close>

lemma free_suffix_least:
  "m \<le> k \<Longrightarrow> k < free_suffix names base m \<Longrightarrow> name_candidate base k \<in> set names"
proof (induction names base m rule: free_suffix.induct)
  case (1 names base m)
  show ?case
  proof (cases "name_candidate base m \<in> set names")
    case True
    with 1 show ?thesis
      by (cases "k = m") (auto simp: free_suffix.simps [of names base m])
  next
    case False
    with "1.prems" show ?thesis by (simp add: free_suffix.simps [of names base m])
  qed
qed

text \<open>Naming a client always ends, and its result was not in use: the requested name when that
  is free, otherwise the name with the first \<open>@N\<close> from one up that is free.\<close>

lemma dedup_name_fresh:
  "fst (dedup_client_name base r) \<notin> set (client_names r)
   \<and> (if base \<notin> set (client_names r) then fst (dedup_client_name base r) = base
      else \<exists>n \<ge> 1. fst (dedup_client_name base r) = base @ ''@'' @ show_nat n
             \<and> (\<forall>m. 1 \<le> m \<longrightarrow> m < n \<longrightarrow> base @ ''@'' @ show_nat m \<in> set (client_names r)))"
proof (cases "base \<in> set (client_names r)")
  case True
  let ?n = "free_suffix (client_names r) base 1"
  have "m \<le> free_suffix names b m" for names b m
    by (induction names b m rule: free_suffix.induct) (subst free_suffix.simps, auto)
  then have "1 \<le> ?n" .
  moreover have "\<forall>m. 1 \<le> m \<longrightarrow> m < ?n \<longrightarrow> base @ ''@'' @ show_nat m \<in> set (client_names r)"
    using free_suffix_least [of 1 _ "client_names r" base] by (auto simp: name_candidate_def)
  ultimately show ?thesis
    using True free_suffix_free [of base "client_names r" 1]
    by (auto simp: dedup_client_name_def Let_def name_candidate_def)
qed (simp add: dedup_client_name_def Let_def)

section \<open>Deleting a topic\<close>

text \<open>The meta topics a topic's deletion takes along, to any depth.\<close>

inductive meta_of :: "string \<Rightarrow> string \<Rightarrow> bool" for n where
  itself: "meta_of n n"
| publishers: "meta_of n m \<Longrightarrow> meta_of n (''$pub$'' @ m)"
| subscribers: "meta_of n m \<Longrightarrow> meta_of n (''$sub$'' @ m)"

lemma meta_of_trans: "meta_of m k \<Longrightarrow> meta_of n m \<Longrightarrow> meta_of n k"
  by (induction rule: meta_of.induct) (blast intro: meta_of.intros)+

text \<open>Every topic and name that is not one of them is as it was.\<close>

definition only_removes :: "string \<Rightarrow> nt_registry \<Rightarrow> nt_registry \<Rightarrow> bool" where
  "only_removes n r r' \<longleftrightarrow>
     (\<forall>j. hm_get (topics r') j = hm_get (topics r) j \<or>
          (hm_get (topics r') j = None \<and> (\<exists>t. hm_get (topics r) j = Some t \<and> meta_of n (t_name t)))) \<and>
     (\<forall>m. hm_get (by_name r') m = hm_get (by_name r) m \<or> (hm_get (by_name r') m = None \<and> meta_of n m))"

lemma only_removes_refl [simp]: "only_removes n r r"
  by (simp add: only_removes_def)

lemma only_removes_trans:
  assumes "only_removes n r s" and "only_removes n s u"
  shows "only_removes n r u"
  unfolding only_removes_def
proof (intro conjI allI)
  fix j
  show "hm_get (topics u) j = hm_get (topics r) j \<or>
      (hm_get (topics u) j = None \<and> (\<exists>t. hm_get (topics r) j = Some t \<and> meta_of n (t_name t)))"
    using assms unfolding only_removes_def by metis
next
  fix m
  show "hm_get (by_name u) m = hm_get (by_name r) m \<or> (hm_get (by_name u) m = None \<and> meta_of n m)"
    using assms unfolding only_removes_def by metis
qed

lemma only_removes_weaken: "only_removes m r s \<Longrightarrow> meta_of n m \<Longrightarrow> only_removes n r s"
  unfolding only_removes_def by (meson meta_of_trans)

lemma only_removes_gone: "only_removes n r s \<Longrightarrow> hm_get (by_name r) m = None \<Longrightarrow> hm_get (by_name s) m = None"
  unfolding only_removes_def by metis

lemma only_removes_unlink: "hm_get (topics r) i = Some t \<Longrightarrow> only_removes (t_name t) r (unlink_topic i t r)"
  by (auto simp: only_removes_def unlink_topic_def free_id_def intro: meta_of.itself)

lemma delete_topic_removes:
  "hm_get (topics r) i = Some t \<Longrightarrow> registry_ok r \<Longrightarrow>
   only_removes (t_name t) r (snd (delete_topic E i r))
   \<and> hm_get (by_name (snd (delete_topic E i r))) (t_name t) = None"
proof (induction E i r arbitrary: t rule: delete_topic.induct)
  case (1 E i r)
  let ?r1 = "unlink_topic i t r"
  let ?r2 = "delete_topic_if_exists E (''$pub$'' @ t_name t) ?r1"
  let ?r3 = "delete_topic_if_exists E (''$sub$'' @ t_name t) ?r2"
  have ok1: "registry_ok ?r1" using registry_ok_step [OF reg_step.unlink] "1.prems" by blast
  have ok2: "registry_ok ?r2" using reg_steps_ok [OF delete_topic_if_exists_steps ok1] .
  have del: "only_removes n s (delete_topic_if_exists E n s)"
    if "registry_ok s" and "\<And>j t'. hm_get (by_name s) n = Some j \<Longrightarrow> hm_get (topics s) j = Some t' \<Longrightarrow>
        only_removes (t_name t') s (snd (delete_topic E j s))" for n s
  proof (cases "hm_get (by_name s) n")
    case (Some j)
    from hm_has_by_name [OF that(1) Some] obtain t' where "hm_get (topics s) j = Some t'" "t_name t' = n" by blast
    with that(2) [OF Some] Some show ?thesis by (auto simp: delete_topic_if_exists_def)
  qed (simp add: delete_topic_if_exists_def)
  have r2: "only_removes (''$pub$'' @ t_name t) ?r1 ?r2"
    by (rule del [OF ok1]) (use "1.IH"(1) [OF "1.prems"(1) refl] ok1 in blast)
  have r2_eq: "(case hm_get (by_name ?r1) (''$pub$'' @ t_name t) of
      Some j \<Rightarrow> snd (delete_topic E j ?r1) | None \<Rightarrow> ?r1) = ?r2"
    by (simp only: delete_topic_if_exists_def)
  have r3: "only_removes (''$sub$'' @ t_name t) ?r2 ?r3"
    by (rule del [OF ok2]) (use "1.IH"(2) [OF "1.prems"(1) refl refl] ok2 in \<open>simp only: r2_eq\<close>)
  have meta: "meta_of (t_name t) (''$pub$'' @ t_name t)" "meta_of (t_name t) (''$sub$'' @ t_name t)"
    by (rule meta_of.intros(2,3) [OF meta_of.itself])+
  have "only_removes (t_name t) r ?r3"
    using only_removes_trans [OF only_removes_trans [OF only_removes_unlink [OF "1.prems"(1)]
      only_removes_weaken [OF r2 meta(1)]] only_removes_weaken [OF r3 meta(2)]] .
  moreover have "hm_get (by_name ?r1) (t_name t) = None" by (simp add: unlink_topic_def free_id_def)
  then have "hm_get (by_name ?r3) (t_name t) = None"
    using only_removes_gone [OF r3 only_removes_gone [OF r2]] by blast
  moreover have "snd (delete_topic E i r) = ?r3"
    using delete_topic_eq [of E i r] "1.prems"(1) by (simp only: option.case snd_conv)
  ultimately show ?case by simp
qed

lemma delete_topic_if_exists_gone:
  assumes "registry_ok r"
  shows "hm_get (by_name (delete_topic_if_exists E n r)) n = None"
    and "only_removes n r (delete_topic_if_exists E n r)"
proof -
  have "hm_get (by_name (delete_topic_if_exists E n r)) n = None \<and> only_removes n r (delete_topic_if_exists E n r)"
  proof (cases "hm_get (by_name r) n")
    case (Some j)
    from hm_has_by_name [OF assms Some] obtain t where "hm_get (topics r) j = Some t" "t_name t = n" by blast
    with delete_topic_removes [of r j t] assms Some show ?thesis by (auto simp: delete_topic_if_exists_def)
  qed (simp add: delete_topic_if_exists_def)
  then show "hm_get (by_name (delete_topic_if_exists E n r)) n = None"
    "only_removes n r (delete_topic_if_exists E n r)" by auto
qed

text \<open>C10. Deleting a topic takes away the topic, its name, and its \<open>$pub$\<close> and \<open>$sub$\<close> meta
  topics (and theirs, to any depth), leaves every other topic exactly as it was, and unannounces
  the topic once to every client it had been announced to.\<close>

theorem delete_topic_exact:
  assumes "registry_ok r" and "hm_get (topics r) i = Some t"
  shows "hm_get (topics (snd (delete_topic E i r))) i = None
    \<and> hm_get (by_name (snd (delete_topic E i r))) (t_name t) = None
    \<and> hm_get (by_name (snd (delete_topic E i r))) (''$pub$'' @ t_name t) = None
    \<and> hm_get (by_name (snd (delete_topic E i r))) (''$sub$'' @ t_name t) = None
    \<and> (\<forall>j t'. hm_get (topics r) j = Some t' \<and> \<not> meta_of (t_name t) (t_name t')
          \<longrightarrow> hm_get (topics (snd (delete_topic E i r))) j = Some t')
    \<and> fst (delete_topic E i r) =
        map (\<lambda>c. (c, Text (unannounce_json E i (t_name t)))) (list_of (topic_announced r) i)
    \<and> distinct (map fst (fst (delete_topic E i r)))"
proof -
  let ?r1 = "unlink_topic i t r"
  let ?r2 = "delete_topic_if_exists E (''$pub$'' @ t_name t) ?r1"
  let ?r3 = "delete_topic_if_exists E (''$sub$'' @ t_name t) ?r2"
  have ok1: "registry_ok ?r1" using registry_ok_step [OF reg_step.unlink] assms by blast
  have ok2: "registry_ok ?r2" using reg_steps_ok [OF delete_topic_if_exists_steps ok1] .
  note g2 = delete_topic_if_exists_gone [OF ok1, where E = E and n = "''$pub$'' @ t_name t"]
  note g3 = delete_topic_if_exists_gone [OF ok2, where E = E and n = "''$sub$'' @ t_name t"]
  have eq: "delete_topic E i r = (map (\<lambda>c. (c, Text (unannounce_json E i (t_name t))))
      (list_of (topic_announced r) i), ?r3)"
    using delete_topic_eq [of E i r] assms(2) by (simp only: option.case)
  have ok3: "registry_ok ?r3" using reg_steps_ok [OF delete_topic_if_exists_steps ok2] .
  note all = delete_topic_removes [OF assms(2,1), of E, unfolded eq snd_conv]
  have "hm_get (topics ?r3) i = None"
  proof (rule ccontr)
    assume "hm_get (topics ?r3) i \<noteq> None"
    then have "hm_get (topics ?r3) i = Some t"
      using all assms(2) unfolding only_removes_def by metis
    then have "hm_get (by_name ?r3) (t_name t) = Some i"
      using ok3 by (auto simp: registry_ok_def names_ok_def)
    with all show False by simp
  qed
  moreover have "hm_get (by_name ?r3) (''$pub$'' @ t_name t) = None"
    using only_removes_gone [OF g3(2) g2(1)] .
  moreover have "hm_get (topics ?r3) j = Some t'"
    if "hm_get (topics r) j = Some t'" "\<not> meta_of (t_name t) (t_name t')" for j t'
    using all that unfolding only_removes_def by (metis option.inject)
  moreover have "distinct (list_of (topic_announced r) i)"
    using lists_ok_list_of(2) assms(1) by (simp add: registry_ok_def)
  ultimately show ?thesis using g3(1) all by (simp add: eq comp_def)
qed

theorem delete_topic_exact_witness:
  "hm_get (by_name (snd (delete_topic \<lparr> to_string = (\<lambda>_. []), clock = (\<lambda>_. 0) \<rparr> 0
     (snd (handle_upsert_value ''t'' (VBool True) 5 registry_new))))) ''t'' = None"
proof -
  let ?r = "snd (handle_upsert_value ''t'' (VBool True) 5 registry_new)"
  have "registry_ok ?r" using reg_steps_ok [OF handle_upsert_value_steps] registry_ok_new by blast
  moreover have "\<exists>t. hm_get (topics ?r) 0 = Some t \<and> t_name t = ''t''"
    by (simp add: handle_upsert_value_def registry_new_def insert_topic_def alloc_id_def MAX_TOPICS_def
        handle_topic_value_def)
  ultimately show ?thesis using delete_topic_exact by metis
qed

section \<open>Subscribing and announcing\<close>

text \<open>Publishing to a meta topic leaves the fan-out of every live topic alone and forgets no
  match.\<close>

definition holds_match :: "nt_registry \<Rightarrow> client_id \<Rightarrow> u32 \<Rightarrow> nat \<Rightarrow> bool" where
  "holds_match r c u i \<longleftrightarrow>
     (\<exists>s. hm_get (subs (client_of c r)) u = Some s \<and> \<not> s_topics_only s \<and> i \<in> set (s_matched s))"

definition keeps_fan_out :: "nat \<Rightarrow> nt_registry \<Rightarrow> nt_registry \<Rightarrow> bool" where
  "keeps_fan_out i r r' \<longleftrightarrow> hm_has (topics r') i \<and>
     list_of (topic_subscribers r') i = list_of (topic_subscribers r) i \<and>
     (\<forall>c u k. holds_match r c u k \<longrightarrow> holds_match r' c u k)"

lemma keeps_fan_out_refl: "hm_has (topics r) i \<Longrightarrow> keeps_fan_out i r r"
  by (simp add: keeps_fan_out_def)

lemma keeps_fan_out_trans: "keeps_fan_out i r s \<Longrightarrow> keeps_fan_out i s t \<Longrightarrow> keeps_fan_out i r t"
  by (auto simp: keeps_fan_out_def)

lemma list_of_insert [simp]: "list_of (hm_insert m k v) k' = (if k' = k then v else list_of m k')"
  by (simp add: list_of_def)

lemma announce_one_frame:
  "clients (snd (announce_one E i target r)) = clients r"
  "j \<noteq> i \<Longrightarrow> list_of (topic_subscribers (snd (announce_one E i target r))) j = list_of (topic_subscribers r) j"
  by (auto simp: announce_one_def add_announced_def add_subscriber_def Let_def split: prod.split)

lemma announce_each_frame:
  "clients (snd (extend_each (announce_one E i) targets r)) = clients r \<and>
   (j \<noteq> i \<longrightarrow> list_of (topic_subscribers (snd (extend_each (announce_one E i) targets r))) j =
     list_of (topic_subscribers r) j)"
  by (induction targets arbitrary: r) (simp_all add: announce_one_frame)

lemma note_match_facts [simp]:
  "s_topics_only (note_match i name s) = s_topics_only s"
  "k \<in> set (s_matched s) \<Longrightarrow> k \<in> set (s_matched (note_match i name s))"
  by (auto simp: note_match_def)

lemma holds_match_note:
  "holds_match r c u k \<Longrightarrow> clients r' = hm_map (\<lambda>st. st\<lparr> subs := hm_map (note_match i name) (subs st) \<rparr>) (clients r) \<Longrightarrow>
   holds_match r' c u k"
  by (cases "hm_get (clients r) c")
    (auto simp: holds_match_def client_of_def client_default_def)

lemma handle_topic_value_frame:
  "clients (snd (handle_topic_value j v ts r)) = clients r"
  "topic_subscribers (snd (handle_topic_value j v ts r)) = topic_subscribers r"
  "by_name (snd (handle_topic_value j v ts r)) = by_name r"
  "hm_has (topics (snd (handle_topic_value j v ts r))) i \<longleftrightarrow> hm_has (topics r) i"
  by (auto simp: handle_topic_value_def Let_def split: option.split)

lemma publish_meta_fan_out:
  assumes ok: "registry_ok r" and live: "hm_has (topics r) i"
  shows "keeps_fan_out i r (snd (publish_meta E name maps r))"
proof -
  obtain j routes r1 where m: "ensure_meta_topic E name r = (j, routes, r1)" by (metis prod_cases3)
  have r1: "keeps_fan_out i r r1"
  proof (cases "hm_get (by_name r) name")
    case (Some k)
    with m live show ?thesis by (simp add: ensure_meta_topic_def keeps_fan_out_refl)
  next
    case None
    let ?t = "\<lparr> t_name = name, t_data_type = 5, t_type_str = ''msgpack'', t_properties = [],
       t_current = None, t_publishers = 0, t_retained = True, t_cached = True, t_persistent = False \<rparr>"
    obtain k r0 where ins: "insert_topic ?t r = (k, r0)" by fastforce
    note new = insert_topic_new [OF ok ins]
    let ?r0 = "r0\<lparr> clients := hm_map (\<lambda>st. st\<lparr> subs := hm_map (note_match k name) (subs st) \<rparr>) (clients r0) \<rparr>"
    have r1_eq: "r1 = snd (extend_each (announce_one E k) (match_targets name (clients r0)) ?r0)"
      using m None ins by (auto simp: ensure_meta_topic_def announce_to_matching_def Let_def)
    have ik: "i \<noteq> k" using live new(8) by auto
    have topics: "topics r1 = topics r0"
      using announce_to_matching_steps(2) [OF new(1), of name E] m None ins
      by (auto simp: ensure_meta_topic_def)
    moreover have "hm_has (topics r0) i" using live ik new(2) by simp
    moreover have "list_of (topic_subscribers r1) i = list_of (topic_subscribers r) i"
      unfolding r1_eq
      using announce_each_frame [where E = E and i = k and targets = "match_targets name (clients r0)" and r = ?r0 and j = i]
        ik new(6) by simp
    moreover have "clients r1 = hm_map (\<lambda>st. st\<lparr> subs := hm_map (note_match k name) (subs st) \<rparr>) (clients r)"
      unfolding r1_eq using announce_each_frame [of E k _ ?r0] new(3) by simp
    note match = holds_match_note [OF _ this]
    ultimately show ?thesis
      using match by (simp add: keeps_fan_out_def)
  qed
  have "keeps_fan_out i r1 (snd (handle_topic_value j v ts (r1\<lparr> clock_reads := n \<rparr>)))" for v ts n
    using r1 handle_topic_value_frame(4) [of j v ts "r1\<lparr> clock_reads := n \<rparr>" i]
    by (simp add: keeps_fan_out_def handle_topic_value_frame(1,2) holds_match_def client_of_def)
  from keeps_fan_out_trans [OF r1 this] r1 show ?thesis
    by (simp add: publish_meta_def m now_micros_def split: sum.split)
qed

lemma update_meta_fan_out:
  assumes "registry_ok r" and "hm_has (topics r) i"
  shows "keeps_fan_out i r (snd (update_meta_clientpub E c r))"
    and "keeps_fan_out i r (snd (update_meta_clientsub E c r))"
    and "keeps_fan_out i r (snd (update_meta_pub E name r))"
    and "keeps_fan_out i r (snd (update_meta_sub E name r))"
  using assms
  by (auto simp: update_meta_clientpub_def update_meta_clientsub_def update_meta_pub_def
      update_meta_sub_def intro: publish_meta_fan_out keeps_fan_out_refl split: option.split)

lemma update_meta_sub_for_fan_out:
  assumes "registry_ok r" and "hm_has (topics r) i"
  shows "keeps_fan_out i r (snd (update_meta_sub_for E ids r))"
proof -
  have "keeps_fan_out i r (snd (extend_each (update_meta_sub E) names r))" for names
    using assms
  proof (induction names arbitrary: r)
    case Nil
    then show ?case by (simp add: keeps_fan_out_refl)
  next
    case (Cons n names)
    let ?s = "snd (update_meta_sub E n r)"
    have step: "keeps_fan_out i r ?s" by (rule update_meta_fan_out(4) [OF Cons.prems])
    moreover have "registry_ok ?s" using reg_steps_ok [OF update_meta_steps(4)] Cons.prems by blast
    ultimately have "keeps_fan_out i ?s (snd (extend_each (update_meta_sub E) names ?s))"
      by (intro Cons.IH) (auto simp: keeps_fan_out_def)
    with step show ?case using keeps_fan_out_trans by simp
  qed
  then show ?thesis by (simp add: update_meta_sub_for_def Let_def)
qed

lemma dead_lists:
  assumes "registry_ok r" and "\<not> hm_has (topics r) i"
  shows "hm_get (topic_subscribers r) i = None" "hm_get (topic_announced r) i = None"
  using assms unfolding registry_ok_def lists_ok_def by (metis option.exhaust)+

lemma subscribe_each_delivers:
  assumes "i \<in> set ids" and "hm_get (topics r) i = Some t" and "t_cached t" and "t_current t = Some sv"
    and "\<forall>j \<in> set ids. hm_has (topics r) j"
  shows "(c, ValueFrame (encode_once (stamped sv) (ts_micros sv) (of_nat i)))
      \<in> set (fst (extend_each (subscribe_one E c False) ids r))
    \<and> c \<in> set (list_of (topic_subscribers (snd (extend_each (subscribe_one E c False) ids r))) i)"
proof -
  have keep: "c \<in> set (list_of (topic_subscribers r) i) \<Longrightarrow>
      c \<in> set (list_of (topic_subscribers (snd (subscribe_one E c False j r))) i)" for j r
    by (auto simp: subscribe_one_def add_subscriber_def add_announced_def Let_def)
  then have keeps: "c \<in> set (list_of (topic_subscribers r) i) \<Longrightarrow>
      c \<in> set (list_of (topic_subscribers (snd (extend_each (subscribe_one E c False) ids r))) i)" for ids r
    by (induction ids arbitrary: r) simp_all
  show ?thesis
    using assms
  proof (induction ids arbitrary: r)
    case (Cons j ids)
    have topics: "topics (snd (subscribe_one E c False j r)) = topics r"
      using subscribe_one_steps(2) Cons.prems(5) by simp
    show ?case
    proof (cases "j = i")
      case True
      have "c \<in> set (list_of (topic_subscribers (snd (subscribe_one E c False i r))) i)"
        by (auto simp: subscribe_one_def add_subscriber_def add_announced_def Let_def)
      moreover have "(c, ValueFrame (encode_once (stamped sv) (ts_micros sv) (of_nat i)))
          \<in> set (fst (subscribe_one E c False i r))"
        using Cons.prems(2-4) by (simp add: subscribe_one_def case_prod_beta Let_def)
      ultimately show ?thesis using keeps True by simp
    next
      case False
      with Cons.prems topics show ?thesis using Cons.IH [of "snd (subscribe_one E c False j r)"] by simp
    qed
  qed simp
qed

text \<open>C9. A late subscriber catches up: subscribing (below the cap, not for topics only) to a pattern
  that matches and may see a topic with a cached value sends that value at once, with the time it
  was retained under, and every later value of the topic goes to the client.\<close>

theorem subscribe_delivers:
  assumes ok: "registry_ok r" and "\<not> at_cap (subs (client_of c r)) subuid"
    and "hm_get (by_name r) name = Some i" and "hm_get (topics r) i = Some t"
    and "t_cached t" and "t_current t = Some sv"
    and "sub_visible_to \<lparr> s_patterns = patterns, s_prefix = prefix, s_topics_only = False,
           s_matched = [], s_options = options \<rparr> name"
    and "list_ex (\<lambda>p. pattern_matches prefix p name) patterns"
  shows "(c, ValueFrame (encode_once (stamped sv) (ts_micros sv) (of_nat i)))
      \<in> set (fst (handle_subscribe E c patterns subuid prefix False options r))
    \<and> c \<in> set (list_of (topic_subscribers (snd (handle_subscribe E c patterns subuid prefix False options r))) i)"
proof -
  have cap: "\<not> at_cap (subs (client_of c (ensure_client c r))) subuid"
    using assms(2) by (auto simp: client_of_def ensure_client_def split: option.splits)
  obtain touched r1 bare ids routes r2 r3 where
    bare: "bare = \<lparr> s_patterns = patterns, s_prefix = prefix, s_topics_only = False,
                    s_matched = [], s_options = options \<rparr>"
    and ids: "ids = matched_ids bare r1" "\<forall>j \<in> set ids. hm_has (topics r1) j"
    and l: "extend_each (subscribe_one E c False) ids r1 = (routes, r2)"
    and r3: "r3 = update_client c (\<lambda>cs. cs\<lparr> subs := hm_insert (subs cs) subuid (bare\<lparr> s_matched := set_insert_all ids [] \<rparr>) \<rparr>) r2"
    and h: "handle_subscribe E c patterns subuid prefix False options r =
      extend (extend (routes, r3) (update_meta_clientsub E c)) (update_meta_sub_for E (set_insert_all ids touched))"
    and steps: "reg_steps r r3" and frame: "topics r1 = topics r" "topics r3 = topics r" "by_name r1 = by_name r"
    by (rule handle_subscribe_shape [OF ok cap])
  have "(name, i) \<in> set (by_name r1)" using assms(3) frame(3) by (simp add: map_of_SomeD)
  then have i: "i \<in> set ids"
    using assms(7,8) unfolding ids(1) bare by (force simp: matched_ids_def sub_matches_def)
  have got: "(c, ValueFrame (encode_once (stamped sv) (ts_micros sv) (of_nat i))) \<in> set routes"
      "c \<in> set (list_of (topic_subscribers r2) i)"
    using subscribe_each_delivers [OF i _ assms(5,6) ids(2), of c E] assms(4) frame(1) l by simp_all
  have ok3: "registry_ok r3" using reg_steps_ok [OF steps ok] .
  let ?p4 = "extend (routes, r3) (update_meta_clientsub E c)"
  have k4: "keeps_fan_out i r3 (snd ?p4)"
    using update_meta_fan_out(2) [OF ok3] frame(2) assms(4) by simp
  have ok4: "registry_ok (snd ?p4)" using reg_steps_ok [OF update_meta_steps(3) [OF ok3]] ok3 by simp
  have live4: "hm_has (topics (snd ?p4)) i" using k4 by (simp add: keeps_fan_out_def)
  have "keeps_fan_out i (snd ?p4) (snd (extend ?p4 (update_meta_sub_for E (set_insert_all ids touched))))"
    using update_meta_sub_for_fan_out [OF ok4 live4] by simp
  with k4 have "keeps_fan_out i r3 (snd (handle_subscribe E c patterns subuid prefix False options r))"
    unfolding h by (rule keeps_fan_out_trans)
  moreover have "topic_subscribers r3 = topic_subscribers r2" by (simp add: r3 update_client_def)
  ultimately show ?thesis using got by (simp add: keeps_fan_out_def h)
qed

text \<open>A registry with one retained topic, as the server's own upsert leaves it.\<close>

definition upserted :: nt_registry where
  "upserted = snd (handle_upsert_value ''t'' (VBool True) 5 registry_new)"

lemma upserted_ok: "registry_ok upserted"
  unfolding upserted_def using reg_steps_ok [OF handle_upsert_value_steps] registry_ok_new by blast

lemma upserted_topic:
  "hm_get (by_name upserted) ''t'' = Some 0" "clients upserted = []"
  "hm_get (topics upserted) 0 = Some \<lparr> t_name = ''t'', t_data_type = 0, t_type_str = ''boolean'',
     t_properties = [], t_current = Some \<lparr> ts_micros = 5, stamped = VBool True \<rparr>, t_publishers = 0,
     t_retained = True, t_cached = True, t_persistent = False \<rparr>"
  by (simp_all add: upserted_def handle_upsert_value_def registry_new_def insert_topic_def alloc_id_def
      MAX_TOPICS_def handle_topic_value_def hm_insert_def hm_modify_def type_string_def)

theorem subscribe_delivers_witness:
  "(3, ValueFrame (encode_once (VBool True) 5 0)) \<in> set (fst (handle_subscribe
     \<lparr> to_string = (\<lambda>_. []), clock = (\<lambda>_. 0) \<rparr> 3 [''t''] 1 False False [] upserted))"
  using subscribe_delivers [OF upserted_ok _ upserted_topic(1,3), where c = 3 and subuid = 1
      and sv = "\<lparr> ts_micros = 5, stamped = VBool True \<rparr>" and patterns = "[''t'']" and prefix = False
      and options = "[]"] upserted_topic(2)
  by (simp add: client_of_def client_default_def at_cap_def MAX_PER_CLIENT_def sub_visible_to_def
      pattern_matches_def)

lemma announce_each_announces:
  assumes "(d, wants) \<in> set targets" and "d \<notin> set (list_of (topic_announced r) i)"
    and "hm_has (topics r) i"
  shows "(d, Text (announce_json E i None r)) \<in> set (fst (extend_each (announce_one E i) targets r))
    \<and> (wants \<longrightarrow> d \<in> set (list_of (topic_subscribers (snd (extend_each (announce_one E i) targets r))) i))"
proof -
  have keep: "d \<in> set (list_of (topic_subscribers r) i) \<Longrightarrow>
      d \<in> set (list_of (topic_subscribers (snd (announce_one E i x r))) i)" for x r
    by (cases x) (auto simp: announce_one_def add_subscriber_def add_announced_def Let_def)
  then have keeps: "d \<in> set (list_of (topic_subscribers r) i) \<Longrightarrow>
      d \<in> set (list_of (topic_subscribers (snd (extend_each (announce_one E i) xs r))) i)" for xs r
    by (induction xs arbitrary: r) simp_all
  have json: "announce_json E i None s = announce_json E i None r" if "topics s = topics r" for s r
    using that by (simp add: announce_json_def)
  have wanted: "wants \<longrightarrow> d \<in> set (list_of (topic_subscribers (snd (extend_each (announce_one E i) targets r))) i)"
    using assms(1)
  proof (induction targets arbitrary: r)
    case (Cons x targets)
    have "d \<in> set (list_of (topic_subscribers (snd (announce_one E i (d, True) r))) i)"
      by (auto simp: announce_one_def add_subscriber_def add_announced_def Let_def)
    from keeps [OF this, of targets] Cons.IH [of "snd (announce_one E i x r)"] Cons.prems show ?case
      by (cases "x = (d, wants)") simp_all
  qed simp
  have "(d, Text (announce_json E i None r)) \<in> set (fst (extend_each (announce_one E i) targets r))"
    using assms
  proof (induction targets arbitrary: r)
    case (Cons x targets)
    obtain d' w' where x: "x = (d', w')" by fastforce
    note topics = announce_one_steps [OF Cons.prems(3), of E x]
    show ?case
    proof (cases "d' = d")
      case True
      with Cons.prems(2) show ?thesis
        by (simp add: x announce_one_def add_announced_def Let_def announce_json_def)
    next
      case False
      have "d \<notin> set (list_of (topic_announced (snd (announce_one E i x r))) i)"
        using Cons.prems(2) False
        by (auto simp: x announce_one_def add_announced_def add_subscriber_def Let_def)
      moreover have "(d, wants) \<in> set targets" using Cons.prems(1) False x by simp
      moreover have "hm_has (topics (snd (announce_one E i x r))) i" using topics Cons.prems(3) by simp
      ultimately show ?thesis
        using Cons.IH [of "snd (announce_one E i x r)"] json [of "snd (announce_one E i x r)" r] topics
        by simp
    qed
  qed simp
  with wanted show ?thesis by blast
qed

lemma match_targets_mem:
  assumes "hm_get (clients r) d = Some cs" and "hm_get (subs cs) u = Some sub"
    and "sub_visible_to sub name" and "sub_matches sub name"
  obtains wants where "(d, wants) \<in> set (match_targets name (clients r))" and "\<not> s_topics_only sub \<Longrightarrow> wants"
proof -
  let ?hits = "filter (\<lambda>sub. sub_visible_to sub name \<and> sub_matches sub name) (map snd (subs cs))"
  have hit: "sub \<in> set ?hits" using assms(2-4) by (force dest: map_of_SomeD)
  then have ne: "?hits \<noteq> []" by (metis empty_iff list.set(1))
  have "(d, list_ex (\<lambda>sub. \<not> s_topics_only sub) ?hits) \<in> set (match_targets name (clients r))"
    using map_of_SomeD [OF assms(1)] unfolding match_targets_def set_filter_map
    by (intro CollectI bexI [of _ "(d, cs)"]) (simp_all add: Let_def ne)
  moreover have "list_ex (\<lambda>sub. \<not> s_topics_only sub) ?hits" if "\<not> s_topics_only sub"
    using hit that by (auto simp: list_ex_iff)
  ultimately show thesis using that by blast
qed

lemma announce_to_matching_reaches:
  assumes "hm_get (topics r) i = Some t" and "d \<notin> set (list_of (topic_announced r) i)"
    and "hm_get (clients r) d = Some cs" and "hm_get (subs cs) u = Some sub"
    and "sub_visible_to sub name" and "sub_matches sub name"
  shows "(d, Text (announce_json E i None r)) \<in> set (fst (announce_to_matching E i name r))"
    and "\<not> s_topics_only sub \<Longrightarrow> d \<in> set (list_of (topic_subscribers (snd (announce_to_matching E i name r))) i)"
proof -
  let ?r = "r\<lparr> clients := hm_map (\<lambda>st. st\<lparr> subs := hm_map (note_match i name) (subs st) \<rparr>) (clients r) \<rparr>"
  obtain wants where target: "(d, wants) \<in> set (match_targets name (clients r))" and wants: "\<not> s_topics_only sub \<Longrightarrow> wants"
    using match_targets_mem [OF assms(3-6)] by metis
  have "announce_json E i None ?r = announce_json E i None r" by (simp add: announce_json_def)
  with announce_each_announces [OF target, of ?r i E] assms(1,2) wants
  show "(d, Text (announce_json E i None r)) \<in> set (fst (announce_to_matching E i name r))"
    "\<not> s_topics_only sub \<Longrightarrow> d \<in> set (list_of (topic_subscribers (snd (announce_to_matching E i name r))) i)"
    by (auto simp: announce_to_matching_def Let_def)
qed

lemma publish_topic_new:
  assumes ok: "registry_ok r" and "publish_topic name type_str properties r = (i, r1)"
  shows "\<exists>t. hm_get (topics r1) i = Some t \<and> t_name t = name \<and> t_type_str t = type_str \<and> t_properties t = properties"
    and "clients r1 = clients r" and "hm_get (topic_announced r1) i = None"
proof -
  let ?t = "sync_properties \<lparr> t_name = name, t_data_type = data_type_from_string type_str,
     t_type_str = type_str, t_properties = properties, t_current = None, t_publishers = 0,
     t_retained = False, t_cached = True, t_persistent = False \<rparr>"
  obtain r0 where ins: "insert_topic ?t r = (i, r0)"
    and r1: "r1 = r0\<lparr> persistent_generation := persistent_generation r0 + (if t_persistent ?t then 1 else 0) \<rparr>"
    using assms(2) by (auto simp: publish_topic_def Let_def split: prod.splits)
  note new = insert_topic_new [OF ok ins]
  from new(1,3,7) dead_lists(2) [OF ok new(8)] r1
  show "\<exists>t. hm_get (topics r1) i = Some t \<and> t_name t = name \<and> t_type_str t = type_str \<and> t_properties t = properties"
    "clients r1 = clients r" "hm_get (topic_announced r1) i = None"
    by (auto simp: sync_properties_def)
qed

text \<open>A new topic is announced: publishing a name nobody had, below the caps and with a fresh
  uid, announces the topic to every other client with a subscription that matches and may see it,
  and to the publisher with its uid.\<close>

lemma publish_announces:
  assumes ok: "registry_ok r" and "hm_get (by_name r) name = None" and "length (topics r) < MAX_TOPICS"
    and cs: "hm_get (clients r) d = Some cs" "hm_get (subs cs) u = Some sub"
      "sub_visible_to sub name" "sub_matches sub name" and "d \<noteq> c"
    and "\<not> at_cap (pubs (client_of c r)) pubuid"
  shows "\<exists>i. (d, Text (to_json (to_string E) (Announce name (of_nat i) type_str properties None)))
      \<in> set (fst (handle_publish E c name pubuid type_str properties r))
    \<and> (c, Text (to_json (to_string E) (Announce name (of_nat i) type_str properties (Some pubuid))))
      \<in> set (fst (handle_publish E c name pubuid type_str properties r))"
proof -
  let ?r0 = "ensure_client c r"
  have ok0: "registry_ok ?r0" using registry_ok_step [OF reg_step.client ok] .
  have r0: "hm_get (by_name ?r0) name = None" "hm_get (clients ?r0) d = Some cs"
    "\<not> at_cap (pubs (client_of c ?r0)) pubuid" "length (topics ?r0) < MAX_TOPICS"
    using assms(2-4,9) by (auto simp: ensure_client_def client_of_def split: option.splits)
  have room: "\<not> (hm_get (by_name ?r0) name = None \<and> length (topics ?r0) \<ge> MAX_TOPICS)" using r0(4) by simp
  obtain is_new i r1 prev r3 r4 p5 p6 where
    entry: "(case hm_get (by_name ?r0) name of Some i \<Rightarrow> (False, i, ?r0)
        | None \<Rightarrow> (True, publish_topic name type_str properties ?r0)) = (is_new, i, r1)"
    and prev: "prev = hm_get (pubs (client_of c r1)) pubuid"
    and r3: "r3 = (let s = update_client c (\<lambda>cs. cs\<lparr> pubs := hm_insert (pubs cs) pubuid i \<rparr>) r1 in
           if prev \<noteq> Some i
           then s\<lparr> topics := hm_modify (topics s) i (\<lambda>t. t\<lparr> t_publishers := t_publishers t + 1 \<rparr>) \<rparr> else s)"
    and r4: "r4 = snd (add_announced c i r3)"
    and p5: "p5 = (let p = ([(c, Text (announce_json E i (Some pubuid) r4))], r4)
               in if is_new then extend p (announce_to_matching E i name) else p)"
    and p6: "p6 = (case prev of Some old \<Rightarrow> if old \<noteq> i then extend p5 (release_publisher E old) else p5
               | None \<Rightarrow> p5)"
    and h: "handle_publish E c name pubuid type_str properties r =
        extend (extend p6 (update_meta_clientpub E c)) (update_meta_pub E name)"
    by (rule handle_publish_shape [OF ok r0(3) room])
  have pt: "publish_topic name type_str properties ?r0 = (i, r1)" and new: is_new using entry r0(1) by auto
  note r1 = publish_topic_new [OF ok0 pt]
  have t4: "\<exists>t. hm_get (topics r4) i = Some t \<and> t_name t = name \<and> t_type_str t = type_str \<and> t_properties t = properties"
    using r1(1) by (auto simp: r4 r3 Let_def)
  have ann: "list_of (topic_announced r4) i = [c]"
    using r1(3) by (auto simp: r4 r3 add_announced_def update_client_def Let_def list_of_def)
  have "clients r4 = hm_modify (clients ?r0) c (\<lambda>cs. cs\<lparr> pubs := hm_insert (pubs cs) pubuid i \<rparr>)"
    using r1(2) by (auto simp: r4 r3 add_announced_def update_client_def Let_def)
  then have "hm_get (clients r4) d = Some cs" using r0(2) assms(8) by simp
  then have "(d, Text (announce_json E i None r4)) \<in> set (fst (announce_to_matching E i name r4))"
    using announce_to_matching_reaches(1) [OF _ _ _ cs(2-4), of r4 i _ d E] ann t4 assms(8) by auto
  then have "{(d, Text (announce_json E i None r4)), (c, Text (announce_json E i (Some pubuid) r4))}
      \<subseteq> set (fst p5)" using new by (simp add: p5 Let_def)
  moreover have "set (fst p5) \<subseteq> set (fst p6)" by (auto simp: p6 split: option.split)
  moreover have "set (fst p6) \<subseteq> set (fst (handle_publish E c name pubuid type_str properties r))"
    by (auto simp: h)
  ultimately show ?thesis using t4 by (intro exI [of _ i]) (auto simp: announce_json_def)
qed

text \<open>A registry in which client 2 subscribes to everything.\<close>

definition listener :: nt_registry where
  "listener = registry_new\<lparr> clients := [(2, client_default\<lparr> subs := [(9,
     \<lparr> s_patterns = [[]], s_prefix = True, s_topics_only = False, s_matched = [], s_options = [] \<rparr>)] \<rparr>)] \<rparr>"

lemma listener_ok: "registry_ok listener"
  by (auto simp: listener_def registry_ok_def registry_new_def maps_ok_def topics_ok_def names_ok_def
      ids_ok_def lists_ok_def clients_ok_def client_names_ok_def client_ok_def client_default_def
      sub_ok_def MAX_PER_CLIENT_def split: if_splits)

lemma publish_announces_example:
  "\<exists>i. (2, Text (to_json (\<lambda>_. ''doc'') (Announce ''x'' (of_nat i) ''int'' [] None))) \<in>
     set (fst (handle_publish \<lparr> to_string = (\<lambda>_. ''doc''), clock = (\<lambda>_. 0) \<rparr> 1 ''x'' 4 ''int'' [] listener))"
  using publish_announces [OF listener_ok, of "''x''" 2 "client_default\<lparr> subs := [(9,
     \<lparr> s_patterns = [[]], s_prefix = True, s_topics_only = False, s_matched = [], s_options = [] \<rparr>)] \<rparr>" 9
     "\<lparr> s_patterns = [[]], s_prefix = True, s_topics_only = False, s_matched = [], s_options = [] \<rparr>" 1 4
     "\<lparr> to_string = (\<lambda>_. ''doc''), clock = (\<lambda>_. 0) \<rparr>" "''int''" "[]"]
  by (auto simp: listener_def registry_new_def MAX_TOPICS_def sub_visible_to_def sub_matches_def
      pattern_matches_def at_cap_def MAX_PER_CLIENT_def client_of_def client_default_def)

section \<open>Where the code falls short\<close>

text \<open>A topic the server creates itself is not announced: \<open>handle_upsert_value\<close> of a new name
  sends nothing to anyone, and later upserts of that name send nothing either, whatever
  subscriptions match it, until some other call subscribes a client anew.\<close>

lemma upsert_unheard:
  assumes ok: "registry_ok r" and "hm_get (by_name r) name = None"
  shows "fst (handle_upsert_value name v ts r) = []
    \<and> fst (handle_upsert_value name v' ts' (snd (handle_upsert_value name v ts r))) = []"
proof (cases "length (topics r) \<ge> MAX_TOPICS")
  case True
  with assms show ?thesis by (simp add: handle_upsert_value_def)
next
  case False
  let ?t = "\<lparr> t_name = name, t_data_type = xt_data_type v,
     t_type_str = (case type_string (xt_data_type v) of Some s \<Rightarrow> s | None \<Rightarrow> []),
     t_properties = [], t_current = None, t_publishers = 0,
     t_retained = True, t_cached = True, t_persistent = False \<rparr>"
  obtain i r1 where ins: "insert_topic ?t r = (i, r1)" by fastforce
  note new = insert_topic_new [OF ok ins]
  have up: "handle_upsert_value name v ts r = handle_topic_value i v ts r1"
    using assms(2) False ins by (simp add: handle_upsert_value_def)
  have none: "list_of (topic_subscribers r1) i = []"
    using dead_lists(1) [OF ok new(8)] new(6) by (simp add: list_of_def)
  have quiet: "fst (handle_topic_value i w u s) = []" if "list_of (topic_subscribers s) i = []" for w u s
    using that by (auto simp: handle_topic_value_def Let_def split: option.split)
  have "handle_upsert_value name v' ts' (snd (handle_topic_value i v ts r1)) =
      handle_topic_value i v' ts' (snd (handle_topic_value i v ts r1))"
    using new(5) by (simp add: handle_upsert_value_def handle_topic_value_frame)
  then show ?thesis
    using up quiet none by (simp add: handle_topic_value_frame)
qed

lemma upsert_unheard_example:
  "fst (handle_upsert_value ''log'' (VString ''a'') 1 listener) = []"
  using upsert_unheard [OF listener_ok, of "''log''"] by (simp add: listener_def registry_new_def)

lemma drop_subscribers_gone:
  "i \<in> set ids \<Longrightarrow> c \<notin> set (list_of (topic_subscribers (fold (drop_subscriber c) ids r)) i)"
proof (induction ids arbitrary: r)
  case (Cons j ids)
  have "c \<notin> set (list_of (topic_subscribers (drop_subscriber c i r)) i)" for r
    by (auto simp: drop_subscriber_def list_of_def split: option.splits)
  moreover have one: "c \<notin> set (list_of (topic_subscribers s) i) \<Longrightarrow>
      c \<notin> set (list_of (topic_subscribers (drop_subscriber c k s)) i)" for s k
    by (cases "hm_get (topic_subscribers s) i") (auto simp: drop_subscriber_def list_of_def)
  have "c \<notin> set (list_of (topic_subscribers s) i) \<Longrightarrow>
      c \<notin> set (list_of (topic_subscribers (fold (drop_subscriber c) ids s)) i)" for s ids
    by (induction ids arbitrary: s) (simp_all add: one)
  ultimately show ?case using Cons by (cases "j = i") simp_all
qed simp

text \<open>Giving up one of two overlapping subscriptions silences both: after \<open>unsubscribe\<close> the client
  is out of the fan-out of every topic that subscription matched, although another subscription of
  the same client, which asks for values, still matches the topic.\<close>

lemma unsubscribe_silences_overlap:
  assumes ok: "registry_ok r" and "hm_get (subs (client_of c r)) u = Some s" and "i \<in> set (s_matched s)"
    and "w \<noteq> u" and "holds_match r c w i"
  shows "c \<notin> set (list_of (topic_subscribers (snd (handle_unsubscribe E c u r))) i)
    \<and> holds_match (snd (handle_unsubscribe E c u r)) c w i"
proof -
  let ?r0 = "update_client c (\<lambda>cs. cs\<lparr> subs := hm_remove (subs cs) u \<rparr>) r"
  let ?r1 = "fold (drop_subscriber c) (s_matched s) ?r0"
  have d: "drop_subscription c u r = (s_matched s, ?r1)" using assms(2) by (simp add: drop_subscription_def)
  have ok1: "registry_ok ?r1" using reg_steps_ok [OF drop_subscription_steps(1) [OF d] ok] .
  obtain cs where cs: "hm_get (clients r) c = Some cs" "subs (client_of c r) = subs cs"
    using assms(2) by (cases "hm_get (clients r) c") (auto simp: client_of_def client_default_def)
  have "matches_topic r s i"
    using ok cs assms(2,3) by (auto simp: registry_ok_def clients_ok_def client_ok_def sub_ok_def)
  then have live: "hm_has (topics ?r1) i"
    using drop_subscribers_steps [of ?r0 c "s_matched s"] by (auto simp: matches_topic_def)
  have held: "holds_match ?r1 c w i"
    using assms(4,5) cs drop_subscribers_steps [of ?r0 c "s_matched s"]
    by (auto simp: holds_match_def client_of_def update_client_def)
  let ?r2 = "snd (update_meta_clientsub E c ?r1)"
  have k2: "keeps_fan_out i ?r1 ?r2" by (rule update_meta_fan_out(2) [OF ok1 live])
  have ok2: "registry_ok ?r2" using reg_steps_ok [OF update_meta_steps(3) [OF ok1] ok1] .
  have live2: "hm_has (topics ?r2) i" using k2 by (simp add: keeps_fan_out_def)
  have "keeps_fan_out i ?r2 (snd (handle_unsubscribe E c u r))"
    using update_meta_sub_for_fan_out [OF ok2 live2] by (simp add: handle_unsubscribe_def d)
  from keeps_fan_out_trans [OF k2 this] drop_subscribers_gone [OF assms(3), of c ?r0] held
  show ?thesis by (auto simp: keeps_fan_out_def)
qed

definition overlapping :: nt_registry where
  "overlapping = sample_registry\<lparr> clients := [(2, client_default\<lparr> subs :=
     [(8, \<lparr> s_patterns = [''a''], s_prefix = False, s_topics_only = False, s_matched = [0], s_options = [] \<rparr>),
      (9, \<lparr> s_patterns = [[]], s_prefix = True, s_topics_only = False, s_matched = [0], s_options = [] \<rparr>)] \<rparr>)] \<rparr>"

lemma overlapping_ok: "registry_ok overlapping"
  by (auto simp: overlapping_def sample_registry_def sample_topic_def registry_ok_def registry_new_def
      maps_ok_def topics_ok_def names_ok_def ids_ok_def lists_ok_def clients_ok_def client_names_ok_def
      client_ok_def client_default_def sub_ok_def matches_topic_def topic_ok_def bool_property_def
      sub_visible_to_def sub_matches_def pattern_matches_def MAX_PER_CLIENT_def split: if_splits)

lemma unsubscribe_silences_overlap_example:
  "2 \<notin> set (list_of (topic_subscribers (snd (handle_unsubscribe \<lparr> to_string = (\<lambda>_. []), clock = (\<lambda>_. 0) \<rparr> 2 8
      overlapping))) 0) \<and> 2 \<in> set (list_of (topic_subscribers overlapping) 0)"
proof -
  have "holds_match overlapping 2 9 0" by (simp add: holds_match_def overlapping_def client_of_def)
  then have "2 \<notin> set (list_of (topic_subscribers (snd (handle_unsubscribe \<lparr> to_string = (\<lambda>_. []),
      clock = (\<lambda>_. 0) \<rparr> 2 8 overlapping))) 0)"
    using unsubscribe_silences_overlap [OF overlapping_ok, of 2 8 _ 0 9]
    by (simp add: overlapping_def client_of_def)
  then show ?thesis by (simp add: overlapping_def sample_registry_def list_of_def)
qed

end
