(* ===== verification/Ws_Frame.thy ===== *)
theory Ws_Frame
  imports Tarwyn_Prelude
begin

text \<open>
  The WebSocket frame layer (\<^verbatim>\<open>core/src/websocket/frame.rs\<close>).  The socket is
  \<open>tungstenite\<close> over TCP and a parameter: \<open>sock n\<close> says whether the \<open>n\<close>-th operation on it
  succeeds, and the writer logs the operations that did, in order.  A reader takes its messages
  from the list of what \<open>WebSocket::read\<close> returns.
\<close>

datatype frame_error = Handshake | Closed | FrameIo | Protocol | UnexpectedFrame

definition MAX_MESSAGE_BYTES :: nat where "MAX_MESSAGE_BYTES = 2 ^ 20"

section \<open>The handshake\<close>

definition NT4_SUBPROTOCOL :: string where "NT4_SUBPROTOCOL = ''v4.1.networktables.first.wpi.edu''"
definition NT4_SUBPROTOCOL_V40 :: string where "NT4_SUBPROTOCOL_V40 = ''networktables.first.wpi.edu''"
definition RTT_SUBPROTOCOL :: string where "RTT_SUBPROTOCOL = ''rtt.networktables.first.wpi.edu''"

text \<open>\<open>str::split\<close> at a character, and \<open>str::trim\<close> on the ASCII text a header can hold.\<close>

fun split_at :: "char \<Rightarrow> string \<Rightarrow> string list" where
  "split_at sep [] = [[]]"
| "split_at sep (c # s) =
     (if c = sep then [] # split_at sep s
      else case split_at sep s of [] \<Rightarrow> [[c]] | w # ws \<Rightarrow> (c # w) # ws)"

definition is_space :: "char \<Rightarrow> bool" where
  "is_space c \<longleftrightarrow> of_char c \<in> {9, 10, 11, 12, 13, 32 :: nat}"

definition trim :: "string \<Rightarrow> string" where
  "trim s = rev (dropWhile is_space (rev (dropWhile is_space s)))"

definition negotiate_subprotocol :: "string \<Rightarrow> string option" where
  "negotiate_subprotocol offered =
     (let offers = map trim (split_at (CHR '','') offered) in
      if RTT_SUBPROTOCOL \<in> set offers then Some RTT_SUBPROTOCOL
      else if NT4_SUBPROTOCOL \<in> set offers then Some NT4_SUBPROTOCOL
      else if NT4_SUBPROTOCOL_V40 \<in> set offers then Some NT4_SUBPROTOCOL_V40
      else None)"

definition strip_prefix :: "string \<Rightarrow> string \<Rightarrow> string option" where
  "strip_prefix p s = (if starts_with s p then Some (drop (length p) s) else None)"

record handshake =
  hs_client_name :: string
  hs_subprotocol :: string
  hs_rtt_only :: bool

text \<open>The callback of \<open>WebsocketConnection::accept\<close> and what the connection keeps of it: the
  offered subprotocols (absent when the header is missing or not text) and the path.  An error is
  the HTTP 400 refusal.\<close>

definition accept_request :: "string option \<Rightarrow> string \<Rightarrow> (frame_error, handshake) result" where
  "accept_request offered path =
     (case (Option.bind offered negotiate_subprotocol, strip_prefix ''/nt/'' path) of
        (Some subprotocol, Some name) \<Rightarrow>
          if name \<noteq> [] then Ok \<lparr> hs_client_name = name, hs_subprotocol = subprotocol,
                                  hs_rtt_only = (subprotocol = RTT_SUBPROTOCOL) \<rparr>
          else Err Handshake
      | _ \<Rightarrow> Err Handshake)"

section \<open>Reading\<close>

datatype ws_message =
    MBinary bytes | MText string | MPing bytes | MPong bytes | MClose | MFrame

datatype payload = Binary bytes | PText string

text \<open>\<open>WebsocketReader::recv\<close>: the messages the socket still yields, each a message or a failed
  read; the result is missing while the socket has nothing more.\<close>

fun reader_recv ::
  "(unit, ws_message) result list \<Rightarrow> ((frame_error, payload) result \<times> (unit, ws_message) result list) option" where
  "reader_recv [] = None"
| "reader_recv (Inl _ # rest) = Some (Err Protocol, rest)"
| "reader_recv (Inr (MBinary p) # rest) = Some (Ok (Binary p), rest)"
| "reader_recv (Inr (MText t) # rest) = Some (Ok (PText t), rest)"
| "reader_recv (Inr (MPing _) # rest) = reader_recv rest"
| "reader_recv (Inr (MPong _) # rest) = reader_recv rest"
| "reader_recv (Inr MClose # rest) = Some (Err Closed, rest)"
| "reader_recv (Inr MFrame # rest) = Some (Err UnexpectedFrame, rest)"

text \<open>The reader's own writes: \<open>Sink\<close> gathers bytes and hands each flushed run over whole.\<close>

definition sink_write :: "bytes \<Rightarrow> bytes \<Rightarrow> bytes" where
  "sink_write buf pending = pending @ buf"

definition sink_flush :: "bytes \<Rightarrow> bytes option \<times> bytes" where
  "sink_flush pending = (if pending = [] then (None, []) else (Some pending, []))"

section \<open>Writing\<close>

datatype sock_op =
    SendBinary bytes | SendText string | SendPing | SendPong | SendClose u16 string | SendCloseNone
  | WriteAll bytes | FlushSock

record ws_writer =
  w_done :: "sock_op list"
  w_ops :: nat
  w_batch :: bytes

definition writer_new :: ws_writer where
  "writer_new = \<lparr> w_done = [], w_ops = 0, w_batch = [] \<rparr>"

text \<open>One operation on the socket.\<close>

definition sock_do ::
  "(nat \<Rightarrow> bool) \<Rightarrow> sock_op \<Rightarrow> frame_error \<Rightarrow> ws_writer \<Rightarrow> (frame_error, unit) result \<times> ws_writer" where
  "sock_do sock op e w =
     (if sock (w_ops w) then (Ok (), w\<lparr> w_done := w_done w @ [op], w_ops := w_ops w + 1 \<rparr>)
      else (Err e, w\<lparr> w_ops := w_ops w + 1 \<rparr>))"

text \<open>The question mark operator on a step that also changes the writer.\<close>

definition and_then ::
  "(frame_error, unit) result \<times> ws_writer \<Rightarrow> (ws_writer \<Rightarrow> (frame_error, unit) result \<times> ws_writer)
   \<Rightarrow> (frame_error, unit) result \<times> ws_writer" where
  "and_then p f = (case fst p of Inl e \<Rightarrow> (Err e, snd p) | Inr _ \<Rightarrow> f (snd p))"

definition write_batched :: "bytes \<Rightarrow> ws_writer \<Rightarrow> ws_writer" where
  "write_batched frame w = w\<lparr> w_batch := w_batch w @ frame \<rparr>"

definition batch_len :: "ws_writer \<Rightarrow> nat" where
  "batch_len w = length (w_batch w)"

definition writer_flush :: "(nat \<Rightarrow> bool) \<Rightarrow> ws_writer \<Rightarrow> (frame_error, unit) result \<times> ws_writer" where
  "writer_flush sock w =
     (if w_batch w = [] then (Ok (), w)
      else and_then (sock_do sock (SendBinary (w_batch w)) Protocol (w\<lparr> w_batch := [] \<rparr>))
             (sock_do sock FlushSock FrameIo))"

definition send_text :: "(nat \<Rightarrow> bool) \<Rightarrow> string \<Rightarrow> ws_writer \<Rightarrow> (frame_error, unit) result \<times> ws_writer" where
  "send_text sock text w =
     and_then (sock_do sock (SendText text) Protocol w) (sock_do sock FlushSock FrameIo)"

definition send_ping :: "(nat \<Rightarrow> bool) \<Rightarrow> ws_writer \<Rightarrow> (frame_error, unit) result \<times> ws_writer" where
  "send_ping sock w = sock_do sock SendPing Protocol w"

definition write_raw :: "(nat \<Rightarrow> bool) \<Rightarrow> bytes \<Rightarrow> ws_writer \<Rightarrow> (frame_error, unit) result \<times> ws_writer" where
  "write_raw sock bs w =
     and_then (and_then (writer_flush sock w) (sock_do sock (WriteAll bs) FrameIo)) (sock_do sock FlushSock FrameIo)"

definition writer_close ::
  "(nat \<Rightarrow> bool) \<Rightarrow> u16 \<Rightarrow> string \<Rightarrow> ws_writer \<Rightarrow> (frame_error, unit) result \<times> ws_writer" where
  "writer_close sock code reason w =
     and_then (sock_do sock (SendClose code reason) Protocol w) (sock_do sock FlushSock FrameIo)"

section \<open>What a handshake admits\<close>

lemma strip_prefix_Some: "strip_prefix p s = Some name \<longleftrightarrow> s = p @ name"
  by (auto simp: strip_prefix_def starts_with_def) (metis append_take_drop_id)

lemma strip_prefix_None: "strip_prefix p s = None \<longleftrightarrow> (\<forall>name. s \<noteq> p @ name)"
  using strip_prefix_Some [of p s] by (metis not_None_eq)

lemma negotiate_subprotocol_Some:
  assumes "negotiate_subprotocol header = Some sp"
  shows "sp \<in> set (map trim (split_at (CHR '','') header))"
    and "sp \<in> {RTT_SUBPROTOCOL, NT4_SUBPROTOCOL, NT4_SUBPROTOCOL_V40}"
    and "sp = NT4_SUBPROTOCOL_V40 \<Longrightarrow> NT4_SUBPROTOCOL \<notin> set (map trim (split_at (CHR '','') header))"
proof -
  have "RTT_SUBPROTOCOL \<noteq> NT4_SUBPROTOCOL_V40" "NT4_SUBPROTOCOL \<noteq> NT4_SUBPROTOCOL_V40"
    by (simp_all add: RTT_SUBPROTOCOL_def NT4_SUBPROTOCOL_def NT4_SUBPROTOCOL_V40_def)
  with assms show "sp \<in> set (map trim (split_at (CHR '','') header))"
    "sp \<in> {RTT_SUBPROTOCOL, NT4_SUBPROTOCOL, NT4_SUBPROTOCOL_V40}"
    "sp = NT4_SUBPROTOCOL_V40 \<Longrightarrow> NT4_SUBPROTOCOL \<notin> set (map trim (split_at (CHR '','') header))"
    unfolding negotiate_subprotocol_def Let_def by (simp_all split: if_splits)
qed

lemma negotiate_subprotocol_None:
  "negotiate_subprotocol header = None \<longleftrightarrow> set (map trim (split_at (CHR '','') header))
     \<inter> {RTT_SUBPROTOCOL, NT4_SUBPROTOCOL, NT4_SUBPROTOCOL_V40} = {}"
  unfolding negotiate_subprotocol_def Let_def by (simp split: if_splits)

text \<open>A connection is admitted exactly when the path is \<open>/nt/\<close> and a non-empty name and one of
  the three subprotocols is among the comma-separated offers, blanks around them ignored; the
  answer is always one of the offers, version 4.0 only when 4.1 is not offered, and exactly a
  timestamp connection is marked as one.\<close>

lemma accept_request_spec:
  "(case accept_request offered path of
      Inr hs \<Rightarrow> path = ''/nt/'' @ hs_client_name hs \<and> hs_client_name hs \<noteq> []
        \<and> (\<exists>header. offered = Some header
             \<and> hs_subprotocol hs \<in> set (map trim (split_at (CHR '','') header))
             \<and> (hs_subprotocol hs = NT4_SUBPROTOCOL_V40 \<longrightarrow>
                  NT4_SUBPROTOCOL \<notin> set (map trim (split_at (CHR '','') header))))
        \<and> hs_subprotocol hs \<in> {RTT_SUBPROTOCOL, NT4_SUBPROTOCOL, NT4_SUBPROTOCOL_V40}
        \<and> (hs_rtt_only hs \<longleftrightarrow> hs_subprotocol hs = RTT_SUBPROTOCOL)
    | Inl e \<Rightarrow> e = Handshake \<and>
        ((\<forall>name. path = ''/nt/'' @ name \<longrightarrow> name = []) \<or> offered = None
         \<or> (\<exists>header. offered = Some header \<and> set (map trim (split_at (CHR '','') header))
              \<inter> {RTT_SUBPROTOCOL, NT4_SUBPROTOCOL, NT4_SUBPROTOCOL_V40} = {})))"
proof (cases "strip_prefix ''/nt/'' path")
  case None
  then have "\<forall>name. path \<noteq> ''/nt/'' @ name" by (simp only: strip_prefix_None) blast
  with None show ?thesis by (simp add: accept_request_def del: append_Cons split: option.split)
next
  case (Some name)
  then have path: "path = ''/nt/'' @ name" by (simp only: strip_prefix_Some)
  show ?thesis
  proof (cases "Option.bind offered negotiate_subprotocol")
    case None
    show ?thesis
    proof (cases offered)
      case header: (Some header)
      have n: "negotiate_subprotocol header = None" using None header by simp
      from n [unfolded negotiate_subprotocol_None] show ?thesis
        unfolding accept_request_def header bind.simps n by simp
    qed (simp add: accept_request_def)
  next
    case bound: (Some sp)
    then obtain header where header: "offered = Some header" "negotiate_subprotocol header = Some sp"
      by (cases offered) auto
    with negotiate_subprotocol_Some [OF header(2)] Some path show ?thesis
      by (simp add: accept_request_def)
  qed
qed

lemma accept_request_spec_example:
  "(case accept_request (Some ''x, networktables.first.wpi.edu'') ''/nt/bot'' of
      Inr hs \<Rightarrow> hs_client_name hs = ''bot'' \<and> hs_subprotocol hs = NT4_SUBPROTOCOL_V40 | Inl _ \<Rightarrow> False)"
proof -
  have "accept_request (Some ''x, networktables.first.wpi.edu'') ''/nt/bot'' =
      Ok \<lparr> hs_client_name = ''bot'', hs_subprotocol = NT4_SUBPROTOCOL_V40, hs_rtt_only = False \<rparr>"
    by code_simp
  with accept_request_spec [where offered = "Some ''x, networktables.first.wpi.edu''" and path = "''/nt/bot''"] show ?thesis
    by simp
qed

end
