(* ===== verification/Transport.thy ===== *)
theory Transport
  imports Ws_Frame Nt_Registry "HOL-Library.Sublist"
begin

text \<open>
  The fan-out to the clients (\<^verbatim>\<open>core/src/websocket/transport.rs\<close>): one client's outbound path
  (its socket writer and the bounded queue behind it), the loop that drains the queue, and the
  routing of frames to clients.  Whether the writer's lock is free when \<open>deliver_all\<close> tries it is
  an argument; how the two threads interleave is the subject of the theory that follows.
\<close>

definition PUB_HIGH_WATER_MARK :: nat where "PUB_HIGH_WATER_MARK = 10000"
definition MAX_BATCH_BYTES :: nat where "MAX_BATCH_BYTES = 1400"

datatype route_msg = RText string | RValue bytes | RRaw bytes | RClose u16 string

record conn =
  c_writer :: ws_writer
  c_queue :: "route_msg list"
  c_queued :: nat
  c_open :: bool

definition conn_new :: conn where
  "conn_new = \<lparr> c_writer = writer_new, c_queue = [], c_queued = 0, c_open = True \<rparr>"

text \<open>\<open>Client::enqueue\<close>: the queue refuses a message when it is full or its receiver is gone.\<close>

definition enqueue :: "route_msg \<Rightarrow> conn \<Rightarrow> bool \<times> conn" where
  "enqueue msg c =
     (let c = c\<lparr> c_queued := c_queued c + 1 \<rparr> in
      if c_open c \<and> length (c_queue c) < PUB_HIGH_WATER_MARK
      then (True, c\<lparr> c_queue := c_queue c @ [msg] \<rparr>)
      else (False, c\<lparr> c_queued := c_queued c - 1 \<rparr>))"

text \<open>The loop of \<open>deliver_all\<close>: \<open>direct\<close> says whether it holds the writer, \<open>batched\<close> whether
  something waits for the final flush.\<close>

fun deliver_loop ::
  "(nat \<Rightarrow> bool) \<Rightarrow> bool \<Rightarrow> bool \<Rightarrow> nat \<Rightarrow> outbound list \<Rightarrow> conn \<Rightarrow> nat \<times> conn" where
  "deliver_loop sock direct batched dropped [] c =
     (if batched \<and> direct then (dropped, c\<lparr> c_writer := snd (writer_flush sock (c_writer c)) \<rparr>)
      else (dropped, c))"
| "deliver_loop sock direct batched dropped (ValueFrame frame # outs) c =
     (if direct
      then let w = write_batched frame (c_writer c) in
           if batch_len w \<ge> MAX_BATCH_BYTES
           then let (res, w) = writer_flush sock w in
                (case res of
                   Inl _ \<Rightarrow> (dropped, c\<lparr> c_writer := w \<rparr>)
                 | Inr _ \<Rightarrow> deliver_loop sock direct False dropped outs (c\<lparr> c_writer := w \<rparr>))
           else deliver_loop sock direct True dropped outs (c\<lparr> c_writer := w \<rparr>)
      else let (sent, c) = enqueue (RValue frame) c in
           deliver_loop sock direct batched (if sent then dropped else dropped + 1) outs c)"
| "deliver_loop sock direct batched dropped (Text text # outs) c =
     (let (res, w) = (if direct \<and> batched then writer_flush sock (c_writer c) else (Ok (), c_writer c));
          c = c\<lparr> c_writer := w \<rparr> in
      case res of
        Inl _ \<Rightarrow> (dropped, c)
      | Inr _ \<Rightarrow>
          let (sent, c) = enqueue (RText text) c in
          deliver_loop sock False False (if sent then dropped else dropped + 1) outs c)"

definition deliver_all :: "(nat \<Rightarrow> bool) \<Rightarrow> bool \<Rightarrow> outbound list \<Rightarrow> conn \<Rightarrow> nat \<times> conn" where
  "deliver_all sock lock_free outs c =
     deliver_loop sock (lock_free \<and> c_queued c = 0) False 0 outs c"

section \<open>The writer thread\<close>

definition write_one :: "(nat \<Rightarrow> bool) \<Rightarrow> route_msg \<Rightarrow> ws_writer \<Rightarrow> (frame_error, unit) result \<times> ws_writer" where
  "write_one sock msg w =
     (case msg of
        RValue bs \<Rightarrow> (Ok (), write_batched bs w)
      | RText text \<Rightarrow> and_then (writer_flush sock w) (send_text sock text)
      | RRaw bs \<Rightarrow> write_raw sock bs w
      | RClose code reason \<Rightarrow>
          and_then (and_then (writer_flush sock w) (writer_close sock code reason)) (\<lambda>w. (Err Closed, w)))"

text \<open>One round of \<open>writer_loop\<close>, on the messages that are there when it starts: the first message,
  the rest while there are any, a flush whenever the batch is full and one at the end.  The result
  says whether the loop goes on.\<close>

definition shut :: "conn \<Rightarrow> conn" where
  "shut c = c\<lparr> c_open := False \<rparr>"

fun drain_rest :: "(nat \<Rightarrow> bool) \<Rightarrow> route_msg list \<Rightarrow> conn \<Rightarrow> bool \<times> conn" where
  "drain_rest sock [] c =
     (let (res, w) = writer_flush sock (c_writer c); c = c\<lparr> c_queue := [], c_writer := w \<rparr> in
      case res of Inl _ \<Rightarrow> (False, shut c) | Inr _ \<Rightarrow> (True, c))"
| "drain_rest sock (msg # msgs) c =
     (let (res, w) = write_one sock msg (c_writer c);
          c = c\<lparr> c_queue := msgs, c_writer := w, c_queued := c_queued c - 1 \<rparr> in
      case res of
        Inl _ \<Rightarrow> (False, shut c)
      | Inr _ \<Rightarrow>
          if batch_len w \<ge> MAX_BATCH_BYTES
          then let (res, w) = writer_flush sock w; c = c\<lparr> c_writer := w \<rparr> in
               (case res of Inl _ \<Rightarrow> (False, shut c) | Inr _ \<Rightarrow> drain_rest sock msgs c)
          else drain_rest sock msgs c)"

definition writer_round :: "(nat \<Rightarrow> bool) \<Rightarrow> conn \<Rightarrow> bool \<times> conn" where
  "writer_round sock c =
     (case c_queue c of
        [] \<Rightarrow> (let (res, w) = send_ping sock (c_writer c); c = c\<lparr> c_writer := w \<rparr> in
               case res of Inl _ \<Rightarrow> (False, shut c) | Inr _ \<Rightarrow> (True, c))
      | first # msgs \<Rightarrow>
          let (res, w) = write_one sock first (c_writer c);
              c = c\<lparr> c_queue := msgs, c_writer := w, c_queued := c_queued c - 1 \<rparr> in
          (case res of Inl _ \<Rightarrow> (False, shut c) | Inr _ \<Rightarrow> drain_rest sock msgs c))"

section \<open>Routing\<close>

record connection_map =
  senders :: "(client_id, conn) hm"
  dropped_total :: nat

definition connection_map_new :: connection_map where
  "connection_map_new = \<lparr> senders = [], dropped_total = 0 \<rparr>"

definition add_client :: "client_id \<Rightarrow> conn \<Rightarrow> connection_map \<Rightarrow> connection_map" where
  "add_client i c m = m\<lparr> senders := hm_insert (senders m) i c \<rparr>"

definition remove_client :: "client_id \<Rightarrow> connection_map \<Rightarrow> connection_map" where
  "remove_client i m = m\<lparr> senders := hm_remove (senders m) i \<rparr>"

definition send_close :: "client_id \<Rightarrow> u16 \<Rightarrow> string \<Rightarrow> connection_map \<Rightarrow> connection_map" where
  "send_close i code reason m =
     m\<lparr> senders := hm_modify (senders m) i (\<lambda>c. snd (enqueue (RClose code reason) c)) \<rparr>"

definition plan :: "routes \<Rightarrow> connection_map \<Rightarrow> routes" where
  "plan routes m = filter (\<lambda>(i, _). hm_has (senders m) i) routes"

text \<open>The grouping of \<open>deliver\<close>: clients in the order of their first frame, each with its frames in
  order.\<close>

fun group_push :: "client_id \<times> outbound \<Rightarrow> (client_id \<times> outbound list) list \<Rightarrow> (client_id \<times> outbound list) list" where
  "group_push (i, out) [] = [(i, [out])]"
| "group_push (i, out) ((seen, outs) # gs) =
     (if seen = i then (seen, outs @ [out]) # gs else (seen, outs) # group_push (i, out) gs)"

definition grouped :: "routes \<Rightarrow> (client_id \<times> outbound list) list" where
  "grouped p = foldl (\<lambda>gs r. group_push r gs) [] p"

text \<open>\<open>free i\<close> says whether the lock of client \<open>i\<close>'s writer is free, \<open>socks i\<close> is its
  socket.\<close>

definition deliver_group ::
  "(client_id \<Rightarrow> nat \<Rightarrow> bool) \<Rightarrow> (client_id \<Rightarrow> bool) \<Rightarrow> client_id \<times> outbound list
   \<Rightarrow> nat \<times> connection_map \<Rightarrow> nat \<times> connection_map" where
  "deliver_group socks free g p =
     (let (i, outs) = g; (n, m) = p in
      case hm_get (senders m) i of
        None \<Rightarrow> (n, m)
      | Some c \<Rightarrow> let (d, c) = deliver_all (socks i) (free i) outs c in
                  (n + d, m\<lparr> senders := hm_insert (senders m) i c \<rparr>))"

definition deliver ::
  "(client_id \<Rightarrow> nat \<Rightarrow> bool) \<Rightarrow> (client_id \<Rightarrow> bool) \<Rightarrow> routes \<Rightarrow> connection_map \<Rightarrow> nat \<times> connection_map" where
  "deliver socks free p m =
     (let gs = (case p of [] \<Rightarrow> [] | [(i, out)] \<Rightarrow> [(i, [out])] | _ \<Rightarrow> grouped p);
          (n, m) = foldl (\<lambda>acc g. deliver_group socks free g acc) (0, m) gs
      in (n, m\<lparr> dropped_total := dropped_total m + n \<rparr>))"

definition dispatch ::
  "(client_id \<Rightarrow> nat \<Rightarrow> bool) \<Rightarrow> (client_id \<Rightarrow> bool) \<Rightarrow> routes \<Rightarrow> connection_map \<Rightarrow> nat \<times> connection_map" where
  "dispatch socks free routes m = deliver socks free (plan routes m) m"

section \<open>Order and loss\<close>

text \<open>What a client is sent, as a stream of bytes of values and of whole texts: what the socket has
  taken, what waits in the batch, what waits in the queue.\<close>

datatype atom = AByte u8 | AText string | ARaw bytes | AClose u16 string

fun op_atoms :: "sock_op \<Rightarrow> atom list" where
  "op_atoms (SendBinary b) = map AByte b"
| "op_atoms (SendText s) = [AText s]"
| "op_atoms (WriteAll b) = [ARaw b]"
| "op_atoms (SendClose code reason) = [AClose code reason]"
| "op_atoms _ = []"

fun msg_atoms :: "route_msg \<Rightarrow> atom list" where
  "msg_atoms (RValue b) = map AByte b"
| "msg_atoms (RText s) = [AText s]"
| "msg_atoms (RRaw b) = [ARaw b]"
| "msg_atoms (RClose code reason) = [AClose code reason]"

fun out_atoms :: "outbound \<Rightarrow> atom list" where
  "out_atoms (ValueFrame b) = map AByte b"
| "out_atoms (Text s) = [AText s]"

definition written :: "ws_writer \<Rightarrow> atom list" where
  "written w = concat (map op_atoms (w_done w)) @ map AByte (w_batch w)"

definition stream :: "conn \<Rightarrow> atom list" where
  "stream c = written (c_writer c) @ concat (map msg_atoms (c_queue c))"

definition counted_queue :: "conn \<Rightarrow> bool" where
  "counted_queue c \<longleftrightarrow> c_queued c = length (c_queue c) \<and> length (c_queue c) \<le> PUB_HIGH_WATER_MARK"

lemma writer_flush_ok:
  assumes "\<forall>n. sock n"
  shows "fst (writer_flush sock w) = Ok ()" "written (snd (writer_flush sock w)) = written w"
    "w_batch (snd (writer_flush sock w)) = []"
  using assms by (auto simp: writer_flush_def and_then_def sock_do_def written_def)

lemma written_write_batched [simp]: "written (write_batched b w) = written w @ map AByte b"
  by (simp add: written_def write_batched_def)

lemma enqueue_cases:
  assumes "counted_queue c"
  shows "(if c_open c \<and> length (c_queue c) < PUB_HIGH_WATER_MARK
     then enqueue msg c = (True, c\<lparr> c_queued := c_queued c + 1, c_queue := c_queue c @ [msg] \<rparr>)
     else enqueue msg c = (False, c))"
  using assms by (simp add: enqueue_def counted_queue_def Let_def)

lemma enqueue_stream:
  assumes "counted_queue c" and "enqueue msg c = (sent, c')"
  shows "counted_queue c'" "stream c' = stream c @ (if sent then msg_atoms msg else [])"
    "c_writer c' = c_writer c" "c_open c' = c_open c"
    "sent \<longleftrightarrow> c_open c \<and> length (c_queue c) < PUB_HIGH_WATER_MARK"
    "length (c_queue c') \<le> length (c_queue c) + 1"
  using assms enqueue_cases [OF assms(1), of msg]
  by (auto simp: counted_queue_def stream_def split: if_splits)

lemma stream_writer: "stream (c\<lparr> c_writer := w \<rparr>) = written w @ concat (map msg_atoms (c_queue c))"
  by (simp add: stream_def)

text \<open>The part of a run's outcome the loop carries from one frame to the next: which frames were
  accepted, in order, and that nothing is lost while the queue has room.\<close>

definition carried :: "outbound list \<Rightarrow> conn \<Rightarrow> nat \<Rightarrow> conn \<Rightarrow> bool" where
  "carried outs c d c' \<longleftrightarrow> counted_queue c' \<and> c_open c' = c_open c \<and>
     (\<exists>acc. subseq acc outs \<and> length acc + d = length outs \<and> stream c' = stream c @ concat (map out_atoms acc)
        \<and> (c_open c \<and> length (c_queue c) + length outs \<le> PUB_HIGH_WATER_MARK \<longrightarrow> acc = outs))"

lemma carried_accept:
  assumes "carried outs c1 d c'" and "stream c1 = stream c @ out_atoms out" and "c_open c1 = c_open c"
    and "length (c_queue c1) \<le> length (c_queue c) + 1"
  shows "carried (out # outs) c d c'"
proof -
  from assms(1) obtain acc where acc: "subseq acc outs" "length acc + d = length outs"
      "stream c' = stream c1 @ concat (map out_atoms acc)"
      "c_open c1 \<and> length (c_queue c1) + length outs \<le> PUB_HIGH_WATER_MARK \<longrightarrow> acc = outs"
    by (auto simp: carried_def)
  then show ?thesis
    using assms unfolding carried_def by (intro conjI exI [of _ "out # acc"]) auto
qed

lemma carried_refuse:
  assumes "carried outs c d c'" and "\<not> (c_open c \<and> length (c_queue c) < PUB_HIGH_WATER_MARK)"
  shows "carried (out # outs) c (Suc d) c'"
  using assms unfolding carried_def by (auto intro: list_emb_Cons)

lemma enqueue_carried:
  assumes "counted_queue c" and "enqueue msg c = (sent, c1)" and "msg_atoms msg = out_atoms out"
    and "carried outs c1 d c'"
  shows "carried (out # outs) c (d + (if sent then 0 else 1)) c'"
proof (cases sent)
  case True
  with assms enqueue_stream [OF assms(1,2)] show ?thesis by (intro carried_accept [of outs c1]) simp_all
next
  case False
  with enqueue_cases [OF assms(1), of msg] assms(2) have "c1 = c" by (auto split: if_splits)
  with False assms(4) enqueue_stream(5) [OF assms(1,2)] show ?thesis by (auto intro: carried_refuse)
qed

lemma deliver_loop_carried:
  assumes "\<forall>n. sock n" and "counted_queue c" and "direct \<longrightarrow> c_queue c = []"
  shows "\<exists>d. fst (deliver_loop sock direct batched dropped outs c) = dropped + d
    \<and> carried outs c d (snd (deliver_loop sock direct batched dropped outs c))"
  using assms(2,3)
proof (induction outs arbitrary: direct batched dropped c)
  case Nil
  then show ?case
    using writer_flush_ok(2) [OF assms(1), of "c_writer c"]
    by (auto simp: carried_def stream_def counted_queue_def)
next
  case (Cons out outs)
  show ?case
  proof (cases out)
    case (ValueFrame frame)
    show ?thesis
    proof (cases direct)
      case True
      let ?w = "write_batched frame (c_writer c)"
      define w' where "w' = (if batch_len ?w \<ge> MAX_BATCH_BYTES then snd (writer_flush sock ?w) else ?w)"
      define b where "b = (\<not> batch_len ?w \<ge> MAX_BATCH_BYTES)"
      have step: "deliver_loop sock direct batched dropped (out # outs) c =
          deliver_loop sock direct b dropped outs (c\<lparr> c_writer := w' \<rparr>)"
        using True writer_flush_ok(1) [OF assms(1), of ?w]
        by (cases "writer_flush sock ?w") (simp add: ValueFrame w'_def b_def Let_def)
      have "written w' = written (c_writer c) @ map AByte frame"
        using writer_flush_ok(2) [OF assms(1)] by (simp add: w'_def)
      then have str: "stream (c\<lparr> c_writer := w' \<rparr>) = stream c @ out_atoms out"
        using Cons.prems True by (simp add: stream_def ValueFrame)
      from Cons.IH [of "c\<lparr> c_writer := w' \<rparr>" direct b dropped] Cons.prems str show ?thesis
        unfolding step
        by (auto simp: counted_queue_def intro!: carried_accept [of outs "c\<lparr> c_writer := w' \<rparr>"])
    next
      case False
      obtain sent c1 where e: "enqueue (RValue frame) c = (sent, c1)" by fastforce
      note q = enqueue_stream [OF Cons.prems(1) e]
      from Cons.IH [of c1 direct batched "if sent then dropped else dropped + 1"] q(1) False
      obtain d where d: "fst (deliver_loop sock direct batched (if sent then dropped else dropped + 1) outs c1)
            = (if sent then dropped else dropped + 1) + d"
          "carried outs c1 d (snd (deliver_loop sock direct batched (if sent then dropped else dropped + 1) outs c1))"
        by auto
      from enqueue_carried [OF Cons.prems(1) e _ d(2), of out] d(1) False e show ?thesis
        by (intro exI [of _ "d + (if sent then 0 else 1)"]) (auto simp: ValueFrame)
    qed
  next
    case (Text str)
    define w' where "w' = (if direct \<and> batched then snd (writer_flush sock (c_writer c)) else c_writer c)"
    have w': "written w' = written (c_writer c)" using writer_flush_ok(2) [OF assms(1)] by (simp add: w'_def)
    let ?c = "c\<lparr> c_writer := w' \<rparr>"
    have cq: "counted_queue ?c" using Cons.prems(1) by (simp add: counted_queue_def)
    obtain sent c1 where e: "enqueue (RText str) ?c = (sent, c1)" by fastforce
    have step: "deliver_loop sock direct batched dropped (out # outs) c =
        deliver_loop sock False False (if sent then dropped else dropped + 1) outs c1"
      using writer_flush_ok(1) [OF assms(1), of "c_writer c"] e
      by (cases "writer_flush sock (c_writer c)") (auto simp: Text w'_def Let_def split: if_splits)
    note q = enqueue_stream [OF cq e]
    from Cons.IH [of c1 False False "if sent then dropped else dropped + 1"] q(1)
    obtain d where d: "fst (deliver_loop sock False False (if sent then dropped else dropped + 1) outs c1)
          = (if sent then dropped else dropped + 1) + d"
        "carried outs c1 d (snd (deliver_loop sock False False (if sent then dropped else dropped + 1) outs c1))"
      by auto
    have "carried (out # outs) ?c (d + (if sent then 0 else 1))
        (snd (deliver_loop sock direct batched dropped (out # outs) c))"
      unfolding step by (rule enqueue_carried [OF cq e _ d(2)]) (simp add: Text)
    moreover have "stream ?c = stream c" using w' by (simp add: stream_def)
    ultimately have "carried (out # outs) c (d + (if sent then 0 else 1))
        (snd (deliver_loop sock direct batched dropped (out # outs) c))"
      by (simp add: carried_def)
    then show ?thesis unfolding step using d(1) by (intro exI [of _ "d + (if sent then 0 else 1)"]) auto
  qed
qed

lemma deliver_all_carried:
  assumes "\<forall>n. sock n" and "counted_queue c" and "deliver_all sock lock_free outs c = (d, c')"
  shows "carried outs c d c'"
proof -
  have "lock_free \<and> c_queued c = 0 \<longrightarrow> c_queue c = []" using assms(2) by (auto simp: counted_queue_def)
  from deliver_loop_carried [OF assms(1,2) this, of False 0 outs] assms(3) show ?thesis
    by (auto simp: deliver_all_def)
qed

text \<open>One dispatch to a client keeps order and counts its losses: over a working socket, whether
  or not the writer's lock is free, the frames that are accepted appear after everything sent or
  queued before and in the order given, the frames that are not are exactly as many as the reported
  drops, the queue never grows past its limit, and nothing is dropped while it has room.\<close>

lemma deliver_all_in_order:
  assumes "\<forall>n. sock n" and "counted_queue c" and "deliver_all sock lock_free outs c = (d, c')"
  shows "\<exists>acc. subseq acc outs \<and> length acc + d = length outs
    \<and> stream c' = stream c @ concat (map out_atoms acc) \<and> counted_queue c'
    \<and> (c_open c \<and> length (c_queue c) + length outs \<le> PUB_HIGH_WATER_MARK \<longrightarrow> acc = outs)"
  using deliver_all_carried [OF assms] by (auto simp: carried_def)

lemma deliver_all_in_order_example:
  "\<exists>d c'. deliver_all (\<lambda>_. True) True [ValueFrame [1], Text ''x''] conn_new = (d, c')
     \<and> stream c' = [AByte 1, AText ''x''] \<and> d = 0"
proof -
  obtain d c' where r: "deliver_all (\<lambda>_. True) True [ValueFrame [1], Text ''x''] conn_new = (d, c')" by fastforce
  have "counted_queue conn_new" "stream conn_new = []"
    by (simp_all add: counted_queue_def conn_new_def stream_def written_def writer_new_def)
  with deliver_all_in_order [OF _ _ r] r show ?thesis
    by (auto simp: conn_new_def PUB_HIGH_WATER_MARK_def)
qed

section \<open>Draining the queue\<close>

definition closing :: "route_msg \<Rightarrow> bool" where
  "closing m \<longleftrightarrow> (\<exists>code reason. m = RClose code reason)"

lemma sock_do_ok:
  "\<forall>n. sock n \<Longrightarrow> sock_do sock op e w = (Ok (), w\<lparr> w_done := w_done w @ [op], w_ops := w_ops w + 1 \<rparr>)"
  by (simp add: sock_do_def)

lemma written_done:
  "w_batch w = [] \<Longrightarrow> written (w\<lparr> w_done := w_done w @ ops, w_ops := n \<rparr>) = written w @ concat (map op_atoms ops)"
  by (simp add: written_def)

lemma write_one_ok:
  assumes "\<forall>n. sock n" and "\<not> closing msg"
  shows "fst (write_one sock msg w) = Ok () \<and> written (snd (write_one sock msg w)) = written w @ msg_atoms msg"
proof -
  obtain w1 where f: "writer_flush sock w = (Ok (), w1)" "written w1 = written w" "w_batch w1 = []"
    using writer_flush_ok [OF assms(1), of w] by (cases "writer_flush sock w") simp
  note do = sock_do_ok [OF assms(1)]
  show ?thesis
  proof (cases msg)
    case (RText s)
    with f written_done [OF f(3), where ops = "[SendText s, FlushSock]"] show ?thesis
      by (simp add: write_one_def send_text_def and_then_def do)
  next
    case (RRaw b)
    with f written_done [OF f(3), where ops = "[WriteAll b, FlushSock]"] show ?thesis
      by (simp add: write_one_def write_raw_def and_then_def do)
  next
    case (RClose code reason)
    with assms(2) show ?thesis by (simp add: closing_def)
  qed (simp add: write_one_def)
qed

lemma drain_rest_ok:
  assumes "\<forall>n. sock n" and "list_all (\<lambda>m. \<not> closing m) msgs" and "c_queue c = msgs"
    and "c_queued c = length msgs"
  shows "\<exists>c'. drain_rest sock msgs c = (True, c') \<and> c_queue c' = [] \<and> c_queued c' = 0
    \<and> w_batch (c_writer c') = [] \<and> written (c_writer c') = written (c_writer c) @ concat (map msg_atoms msgs)"
  using assms(2-4)
proof (induction msgs arbitrary: c)
  case Nil
  show ?case
    using writer_flush_ok [OF assms(1), of "c_writer c"] Nil
    by (cases "writer_flush sock (c_writer c)") simp
next
  case (Cons msg msgs)
  obtain w where w: "write_one sock msg (c_writer c) = (Ok (), w)" "written w = written (c_writer c) @ msg_atoms msg"
    using write_one_ok [OF assms(1), of msg "c_writer c"] Cons.prems by (cases "write_one sock msg (c_writer c)") auto
  obtain w' where w': "writer_flush sock w = (Ok (), w')" "written w' = written w"
    using writer_flush_ok [OF assms(1), of w] by (cases "writer_flush sock w") auto
  let ?c = "\<lambda>w. c\<lparr> c_queue := msgs, c_writer := w, c_queued := c_queued c - 1 \<rparr>"
  define w2 where "w2 = (if batch_len w \<ge> MAX_BATCH_BYTES then w' else w)"
  have w2: "written w2 = written (c_writer c) @ msg_atoms msg" using w(2) w'(2) by (simp add: w2_def)
  have step: "drain_rest sock (msg # msgs) c = drain_rest sock msgs (?c w2)"
    using w(1) w'(1) by (cases c) (simp add: w2_def)
  show ?case
    unfolding step using Cons.IH [of "?c w2"] Cons.prems w2 by simp
qed

text \<open>The writer thread empties the queue: over a working socket, a round on a non-empty queue with
  no close frame in it goes on, leaves neither a queued message nor a half-filled batch, brings the
  counter of waiting messages to zero, and has put on the socket exactly what was there before
  followed by the queued messages in order.\<close>

lemma writer_round_drains:
  assumes "\<forall>n. sock n" and "counted_queue c" and "c_queue c \<noteq> []" and "list_all (\<lambda>m. \<not> closing m) (c_queue c)"
  shows "\<exists>c'. writer_round sock c = (True, c') \<and> counted_queue c' \<and> c_queue c' = []
    \<and> w_batch (c_writer c') = [] \<and> concat (map op_atoms (w_done (c_writer c'))) = stream c"
proof -
  obtain first msgs where q: "c_queue c = first # msgs" using assms(3) by (cases "c_queue c") auto
  obtain w where w: "write_one sock first (c_writer c) = (Ok (), w)"
      "written w = written (c_writer c) @ msg_atoms first"
    using write_one_ok [OF assms(1), of first "c_writer c"] assms(4) q
    by (cases "write_one sock first (c_writer c)") auto
  let ?c = "c\<lparr> c_queue := msgs, c_writer := w, c_queued := c_queued c - 1 \<rparr>"
  have "c_queued ?c = length msgs" using assms(2) q by (simp add: counted_queue_def)
  with drain_rest_ok [OF assms(1), of msgs ?c] assms(4) q obtain c' where c':
      "drain_rest sock msgs ?c = (True, c')" "c_queue c' = []" "c_queued c' = 0" "w_batch (c_writer c') = []"
      "written (c_writer c') = written w @ concat (map msg_atoms msgs)" by auto
  from c'(4,5) w(2) q have "concat (map op_atoms (w_done (c_writer c'))) = stream c"
    by (simp add: stream_def written_def [of "c_writer c'"])
  then show ?thesis using c' w(1) q by (simp add: writer_round_def counted_queue_def)
qed

lemma writer_round_drains_example:
  "\<exists>c'. writer_round (\<lambda>_. True) (conn_new\<lparr> c_queue := [RValue [1], RText ''x''], c_queued := 2 \<rparr>) = (True, c')
     \<and> concat (map op_atoms (w_done (c_writer c'))) = [AByte 1, AText ''x'']"
proof -
  let ?c = "conn_new\<lparr> c_queue := [RValue [1], RText ''x''], c_queued := 2 \<rparr>"
  have "counted_queue ?c" by (simp add: counted_queue_def conn_new_def PUB_HIGH_WATER_MARK_def)
  moreover have "stream ?c = [AByte 1, AText ''x'']" by (simp add: stream_def written_def conn_new_def writer_new_def)
  ultimately show ?thesis using writer_round_drains [of "\<lambda>_. True" ?c] by (auto simp: closing_def)
qed

section \<open>Dispatching to every client\<close>

definition frames_for :: "client_id \<Rightarrow> routes \<Rightarrow> outbound list" where
  "frames_for i routes = map snd (filter (\<lambda>(j, _). j = i) routes)"

lemma group_push_get:
  "hm_get (group_push (i, out) gs) k =
     (if k = i then Some ((case hm_get gs i of Some os \<Rightarrow> os | None \<Rightarrow> []) @ [out]) else hm_get gs k)"
  by (induction gs) auto

lemma group_push_keys: "fst ` set (group_push (i, out) gs) = insert i (fst ` set gs)"
  by (induction "(i, out)" gs rule: group_push.induct) auto

lemma group_push_ok: "hm_ok gs \<Longrightarrow> hm_ok (group_push (i, out) gs)"
proof (induction gs)
  case (Cons g gs)
  then show ?case using group_push_keys [of i out gs] by (cases g) (auto simp: image_iff)
qed simp

lemma grouped_snoc: "grouped (p @ [r]) = group_push r (grouped p)"
  by (simp add: grouped_def)

lemma grouped_get:
  "hm_ok (grouped p) \<and> hm_get (grouped p) i = (if frames_for i p = [] then None else Some (frames_for i p))"
proof (induction p rule: rev_induct)
  case Nil
  then show ?case by (simp add: grouped_def frames_for_def)
next
  case (snoc r p)
  obtain j out where r: "r = (j, out)" by fastforce
  show ?case
    using snoc group_push_ok [of "grouped p" j out]
    by (auto simp: r grouped_snoc group_push_get frames_for_def)
qed

lemma deliver_groups:
  assumes "hm_ok gs" and "\<forall>i \<in> fst ` set gs. hm_has (senders m) i"
  shows "hm_get (senders (snd (foldl (\<lambda>acc g. deliver_group socks free g acc) (n, m) gs))) i =
      (case hm_get gs i of
         None \<Rightarrow> hm_get (senders m) i
       | Some outs \<Rightarrow> map_option (\<lambda>c. snd (deliver_all (socks i) (free i) outs c)) (hm_get (senders m) i))
    \<and> fst (foldl (\<lambda>acc g. deliver_group socks free g acc) (n, m) gs) =
      n + (\<Sum>(j, outs) \<leftarrow> gs. fst (deliver_all (socks j) (free j) outs (the (hm_get (senders m) j))))"
  using assms
proof (induction gs arbitrary: n m)
  case (Cons g gs)
  obtain j outs where g: "g = (j, outs)" by fastforce
  from Cons.prems(2) g obtain c where c: "hm_get (senders m) j = Some c" by auto
  obtain d c' where d: "deliver_all (socks j) (free j) outs c = (d, c')" by fastforce
  let ?m = "m\<lparr> senders := hm_insert (senders m) j c' \<rparr>"
  have step: "deliver_group socks free g (n, m) = (n + d, ?m)" by (simp add: deliver_group_def g c d)
  have fresh: "hm_get gs j = None" "j \<notin> fst ` set gs"
    using Cons.prems(1) g by (auto simp: map_of_eq_None_iff)
  have sum: "(\<Sum>(k, os) \<leftarrow> gs. fst (deliver_all (socks k) (free k) os (the (hm_get (senders ?m) k)))) =
      (\<Sum>(k, os) \<leftarrow> gs. fst (deliver_all (socks k) (free k) os (the (hm_get (senders m) k))))"
    using fresh(2) by (intro arg_cong [of _ _ sum_list] map_cong) force+
  have "\<forall>i \<in> fst ` set gs. hm_has (senders ?m) i" using Cons.prems(2) by simp
  with Cons.IH [of ?m "n + d"] Cons.prems(1) g fresh c d sum step show ?case
    by (auto split: option.splits)
qed simp

lemma dispatch_client:
  assumes "hm_get (senders m) i = Some c"
  shows "hm_get (senders (snd (dispatch socks free routes m))) i =
      Some (if frames_for i routes = [] then c
            else snd (deliver_all (socks i) (free i) (frames_for i routes) c))
    \<and> dropped_total (snd (dispatch socks free routes m)) = dropped_total m + fst (dispatch socks free routes m)"
proof -
  let ?p = "plan routes m"
  define gs where "gs = (case ?p of [] \<Rightarrow> [] | [(i, out)] \<Rightarrow> [(i, [out])] | _ \<Rightarrow> grouped ?p)"
  have gs: "gs = grouped ?p"
    by (auto simp: gs_def grouped_def split: list.splits prod.splits)
  have frames: "frames_for i ?p = frames_for i routes"
    using assms by (auto simp: frames_for_def plan_def intro!: arg_cong [of _ _ "map snd"] filter_cong)
  have keys: "fst ` set (grouped p) \<subseteq> fst ` set p" for p
  proof (induction p rule: rev_induct)
    case (snoc r p)
    then show ?case using group_push_keys [of "fst r" "snd r" "grouped p"] by (auto simp: grouped_snoc)
  qed (simp add: grouped_def)
  have "\<forall>j \<in> fst ` set gs. hm_has (senders m) j"
    using keys [of ?p] by (auto simp: gs plan_def)
  moreover have "hm_ok gs" using grouped_get [of ?p] by (simp add: gs)
  ultimately have run: "hm_get (senders (snd (foldl (\<lambda>acc g. deliver_group socks free g acc) (0, m) gs))) i =
      (case hm_get gs i of
         None \<Rightarrow> hm_get (senders m) i
       | Some outs \<Rightarrow> map_option (\<lambda>c. snd (deliver_all (socks i) (free i) outs c)) (hm_get (senders m) i))"
    using deliver_groups by blast
  have total: "dropped_total (snd (foldl (\<lambda>acc g. deliver_group socks free g acc) (k, m') xs)) = dropped_total m'" for k m' xs
    by (induction xs arbitrary: k m') (auto simp: deliver_group_def Let_def split: option.split prod.split)
  have "hm_get gs i = (if frames_for i routes = [] then None else Some (frames_for i routes))"
    using grouped_get [of ?p i] by (simp add: gs frames)
  with run total [of 0 m gs] assms show ?thesis
    by (auto simp: dispatch_def deliver_def gs_def [symmetric] Let_def case_prod_beta)
qed

text \<open>A dispatch gives every connected client exactly the frames routed to it, in their order and
  in one run of \<open>deliver_all\<close>, touches no other client, ignores frames for clients that are gone,
  and adds exactly the frames dropped to the shared counter.\<close>

lemma dispatch_per_client:
  assumes "hm_get (senders m) i = Some c"
  shows "hm_get (senders (snd (dispatch socks free routes m))) i =
      Some (if frames_for i routes = [] then c
            else snd (deliver_all (socks i) (free i) (frames_for i routes) c))
    \<and> dropped_total (snd (dispatch socks free routes m)) = dropped_total m + fst (dispatch socks free routes m)"
  using assms by (rule dispatch_client)

lemma dispatch_per_client_example:
  "hm_get (senders (snd (dispatch (\<lambda>_ _. True) (\<lambda>_. True) [(1, Text ''a''), (2, Text ''b'')]
     \<lparr> senders = [(1, conn_new)], dropped_total = 0 \<rparr>))) 1 =
   Some (snd (deliver_all (\<lambda>_. True) True [Text ''a''] conn_new))"
  using dispatch_per_client [of "\<lparr> senders = [(1, conn_new)], dropped_total = 0 \<rparr>" 1 conn_new
      "\<lambda>_ _. True" "\<lambda>_. True" "[(1, Text ''a''), (2, Text ''b'')]"]
  by (simp add: frames_for_def)

end
