(* ===== verification/Transport_Conc.thy ===== *)
theory Transport_Conc
  imports Transport
begin

text \<open>
  The threads around one client's writer (\<^verbatim>\<open>Client::deliver_all\<close>, \<^verbatim>\<open>Client::enqueue\<close> and
  \<^verbatim>\<open>writer_loop\<close> of \<^verbatim>\<open>core/src/websocket/transport.rs\<close>), interleaved one atomic action at a
  time.  Any number of dispatching threads may deliver to the client at once.  Each tries the
  writer's lock once and writes its values itself when it gets the lock and nothing waits; from a
  text on, or when it does not, it counts a message in \<open>queued\<close> and then puts it on the channel.
  The writer thread takes a message off the channel before it asks for the lock, and uncounts it
  only after writing it.  A message carries the thread that delivered it; \<open>n_given\<close> records, for
  the proof only, the messages accepted so far.
\<close>

datatype holder = Free | Dispatcher nat | WriterThread

datatype phase = Idle | Direct "outbound list" | Queueing "outbound list" | Sending outbound "outbound list"

record net =
  n_phase :: "nat \<Rightarrow> phase"
  n_lock :: holder
  n_queue :: "(nat \<times> outbound) list"
  n_hand :: "(nat \<times> outbound) option"
  n_log :: "(nat \<times> outbound) list"
  n_queued :: nat
  n_given :: "(nat \<times> outbound) list"

definition net_new :: net where
  "net_new = \<lparr> n_phase = (\<lambda>_. Idle), n_lock = Free, n_queue = [], n_hand = None, n_log = [],
     n_queued = 0, n_given = [] \<rparr>"

inductive net_step :: "net \<Rightarrow> net \<Rightarrow> bool" where
  begin_direct: "n_phase s d = Idle \<Longrightarrow> n_lock s = Free \<Longrightarrow> n_queued s = 0 \<Longrightarrow>
    net_step s (s\<lparr> n_phase := (n_phase s)(d := Direct outs), n_lock := Dispatcher d \<rparr>)"
| begin_queue: "n_phase s d = Idle \<Longrightarrow> n_lock s \<noteq> Free \<or> n_queued s \<noteq> 0 \<Longrightarrow>
    net_step s (s\<lparr> n_phase := (n_phase s)(d := Queueing outs) \<rparr>)"
| direct_value: "n_phase s d = Direct (ValueFrame f # outs) \<Longrightarrow>
    net_step s (s\<lparr> n_phase := (n_phase s)(d := Direct outs), n_log := n_log s @ [(d, ValueFrame f)],
      n_given := n_given s @ [(d, ValueFrame f)] \<rparr>)"
| direct_text: "n_phase s d = Direct (Text t # outs) \<Longrightarrow>
    net_step s (s\<lparr> n_phase := (n_phase s)(d := Queueing (Text t # outs)), n_lock := Free \<rparr>)"
| direct_done: "n_phase s d = Direct [] \<Longrightarrow>
    net_step s (s\<lparr> n_phase := (n_phase s)(d := Idle), n_lock := Free \<rparr>)"
| count: "n_phase s d = Queueing (m # outs) \<Longrightarrow>
    net_step s (s\<lparr> n_phase := (n_phase s)(d := Sending m outs), n_queued := n_queued s + 1 \<rparr>)"
| push: "n_phase s d = Sending m outs \<Longrightarrow> length (n_queue s) < PUB_HIGH_WATER_MARK \<Longrightarrow>
    net_step s (s\<lparr> n_phase := (n_phase s)(d := Queueing outs), n_queue := n_queue s @ [(d, m)],
      n_given := n_given s @ [(d, m)] \<rparr>)"
| refuse: "n_phase s d = Sending m outs \<Longrightarrow> \<not> length (n_queue s) < PUB_HIGH_WATER_MARK \<Longrightarrow>
    net_step s (s\<lparr> n_phase := (n_phase s)(d := Queueing outs), n_queued := n_queued s - 1 \<rparr>)"
| queue_done: "n_phase s d = Queueing [] \<Longrightarrow> net_step s (s\<lparr> n_phase := (n_phase s)(d := Idle) \<rparr>)"
| take: "n_hand s = None \<Longrightarrow> n_queue s = x # xs \<Longrightarrow>
    net_step s (s\<lparr> n_hand := Some x, n_queue := xs \<rparr>)"
| lock_writer: "n_lock s = Free \<Longrightarrow> n_hand s \<noteq> None \<Longrightarrow> net_step s (s\<lparr> n_lock := WriterThread \<rparr>)"
| put: "n_lock s = WriterThread \<Longrightarrow> n_hand s = Some x \<Longrightarrow>
    net_step s (s\<lparr> n_log := n_log s @ [x], n_hand := None, n_queued := n_queued s - 1 \<rparr>)"
| release_writer: "n_lock s = WriterThread \<Longrightarrow> n_hand s = None \<Longrightarrow> net_step s (s\<lparr> n_lock := Free \<rparr>)"

inductive net_reachable :: "net \<Rightarrow> bool" where
  start: "net_reachable net_new"
| step: "net_reachable s \<Longrightarrow> net_step s s' \<Longrightarrow> net_reachable s'"

section \<open>The invariant\<close>

definition of_thread :: "nat \<Rightarrow> (nat \<times> outbound) list \<Rightarrow> (nat \<times> outbound) list" where
  "of_thread d xs = filter (\<lambda>(e, _). e = d) xs"

lemma of_thread_append [simp]: "of_thread d (xs @ ys) = of_thread d xs @ of_thread d ys"
  by (simp add: of_thread_def)

lemma of_thread_Cons [simp]: "of_thread d (x # xs) = (if fst x = d then x # of_thread d xs else of_thread d xs)"
  by (cases x) (simp add: of_thread_def)

lemma of_thread_Nil [simp]: "of_thread d [] = []"
  by (simp add: of_thread_def)

definition waiting :: "net \<Rightarrow> (nat \<times> outbound) list" where
  "waiting s = (case n_hand s of Some x \<Rightarrow> [x] | None \<Rightarrow> []) @ n_queue s"

definition senders_of :: "net \<Rightarrow> nat set" where
  "senders_of s = {d. \<exists>m outs. n_phase s d = Sending m outs}"

definition is_direct :: "phase \<Rightarrow> bool" where
  "is_direct p \<longleftrightarrow> (\<exists>outs. p = Direct outs)"

definition net_ok :: "net \<Rightarrow> bool" where
  "net_ok s \<longleftrightarrow>
     finite (senders_of s) \<and> n_queued s = length (waiting s) + card (senders_of s) \<and>
     (\<forall>d. is_direct (n_phase s d) \<longleftrightarrow> n_lock s = Dispatcher d) \<and>
     (\<forall>d. is_direct (n_phase s d) \<longrightarrow> of_thread d (waiting s) = []) \<and>
     (\<forall>d. of_thread d (n_given s) = of_thread d (n_log s) @ of_thread d (waiting s))"

lemma is_direct_simps [simp]:
  "is_direct (Direct outs)" "\<not> is_direct Idle" "\<not> is_direct (Queueing outs)" "\<not> is_direct (Sending m outs)"
  by (simp_all add: is_direct_def)

lemma senders_of_update:
  "n_phase s' = (n_phase s)(d := p) \<Longrightarrow>
   senders_of s' = (if \<exists>m outs. p = Sending m outs then insert d (senders_of s) else senders_of s - {d})"
  by (auto simp: senders_of_def)

lemma not_sender: "\<forall>m outs. n_phase s d \<noteq> Sending m outs \<Longrightarrow> senders_of s - {d} = senders_of s"
  by (auto simp: senders_of_def)

lemma net_ok_new: "net_ok net_new"
  by (simp add: net_ok_def net_new_def senders_of_def waiting_def is_direct_def)

lemma card_senders:
  "finite (senders_of s) \<Longrightarrow> n_phase s d = Sending m outs \<Longrightarrow> card (senders_of s) = Suc (card (senders_of s - {d}))"
  by (rule card.remove) (auto simp: senders_of_def)

lemma net_ok_lock:
  "net_ok s \<Longrightarrow> \<not> is_direct (n_phase s d) \<Longrightarrow> n_lock s \<noteq> Dispatcher d"
  "net_ok s \<Longrightarrow> is_direct (n_phase s d) \<Longrightarrow> n_lock s = Dispatcher d \<and> of_thread d (waiting s) = []"
  by (simp_all add: net_ok_def)

lemma net_ok_step: "net_step s s' \<Longrightarrow> net_ok s \<Longrightarrow> net_ok s'"
proof (induction rule: net_step.induct)
  case (begin_direct s d outs)
  let ?s = "s\<lparr> n_phase := (n_phase s)(d := Direct outs), n_lock := Dispatcher d \<rparr>"
  have "senders_of ?s = senders_of s"
    using begin_direct.hyps(1) by (simp add: senders_of_update [of _ s d] not_sender)
  then show ?case using begin_direct by (auto simp: net_ok_def waiting_def)
next
  case (begin_queue s d outs)
  have "senders_of (s\<lparr> n_phase := (n_phase s)(d := Queueing outs) \<rparr>) = senders_of s"
    using begin_queue.hyps(1) by (simp add: senders_of_update [of _ s d] not_sender)
  moreover have "n_lock s \<noteq> Dispatcher d" using net_ok_lock(1) begin_queue by simp
  ultimately show ?case using begin_queue.prems by (auto simp: net_ok_def waiting_def)
next
  case (direct_value s d f outs)
  let ?s = "s\<lparr> n_phase := (n_phase s)(d := Direct outs), n_log := n_log s @ [(d, ValueFrame f)],
      n_given := n_given s @ [(d, ValueFrame f)] \<rparr>"
  have "senders_of ?s = senders_of s"
    using direct_value.hyps by (simp add: senders_of_update [of _ s d] not_sender)
  moreover have "n_lock s = Dispatcher d" "of_thread d (waiting s) = []"
    using net_ok_lock(2) [of s d] direct_value by simp_all
  ultimately show ?case using direct_value.prems by (auto simp: net_ok_def waiting_def)
next
  case (direct_text s d t outs)
  let ?s = "s\<lparr> n_phase := (n_phase s)(d := Queueing (Text t # outs)), n_lock := Free \<rparr>"
  have "senders_of ?s = senders_of s"
    using direct_text.hyps by (simp add: senders_of_update [of _ s d] not_sender)
  moreover have "n_lock s = Dispatcher d" using net_ok_lock(2) direct_text by simp
  ultimately show ?case using direct_text.prems by (auto simp: net_ok_def waiting_def)
next
  case (direct_done s d)
  let ?s = "s\<lparr> n_phase := (n_phase s)(d := Idle), n_lock := Free \<rparr>"
  have "senders_of ?s = senders_of s"
    using direct_done.hyps by (simp add: senders_of_update [of _ s d] not_sender)
  moreover have "n_lock s = Dispatcher d" using net_ok_lock(2) direct_done by simp
  ultimately show ?case using direct_done.prems by (auto simp: net_ok_def waiting_def)
next
  case (count s d m outs)
  let ?s = "s\<lparr> n_phase := (n_phase s)(d := Sending m outs), n_queued := n_queued s + 1 \<rparr>"
  have "senders_of ?s = insert d (senders_of s)" "d \<notin> senders_of s"
    using count.hyps by (auto simp: senders_of_update [of _ s d] senders_of_def)
  moreover have "n_lock s \<noteq> Dispatcher d" using net_ok_lock(1) count by simp
  ultimately show ?case using count.prems by (auto simp: net_ok_def waiting_def)
next
  case (push s d m outs)
  let ?s = "s\<lparr> n_phase := (n_phase s)(d := Queueing outs), n_queue := n_queue s @ [(d, m)],
      n_given := n_given s @ [(d, m)] \<rparr>"
  have "senders_of ?s = senders_of s - {d}" by (simp add: senders_of_update [of _ s d])
  moreover have "n_lock s \<noteq> Dispatcher d" using net_ok_lock(1) push by simp
  moreover have "card (senders_of s) = Suc (card (senders_of s - {d}))"
    using push card_senders by (auto simp: net_ok_def)
  ultimately show ?case using push.prems by (auto simp: net_ok_def waiting_def)
next
  case (refuse s d m outs)
  let ?s = "s\<lparr> n_phase := (n_phase s)(d := Queueing outs), n_queued := n_queued s - 1 \<rparr>"
  have "senders_of ?s = senders_of s - {d}" by (simp add: senders_of_update [of _ s d])
  moreover have "n_lock s \<noteq> Dispatcher d" using net_ok_lock(1) refuse by simp
  moreover have "card (senders_of s) = Suc (card (senders_of s - {d}))"
    using refuse card_senders by (auto simp: net_ok_def)
  ultimately show ?case using refuse.prems by (auto simp: net_ok_def waiting_def)
next
  case (queue_done s d)
  let ?s = "s\<lparr> n_phase := (n_phase s)(d := Idle) \<rparr>"
  have "senders_of ?s = senders_of s"
    using queue_done.hyps by (simp add: senders_of_update [of _ s d] not_sender)
  moreover have "n_lock s \<noteq> Dispatcher d" using net_ok_lock(1) queue_done by simp
  ultimately show ?case using queue_done.prems by (auto simp: net_ok_def waiting_def)
next
  case (put s x)
  then show ?case by (auto simp: net_ok_def waiting_def senders_of_def)
qed (auto simp: net_ok_def waiting_def senders_of_def)

lemma net_reachable_ok: "net_reachable s \<Longrightarrow> net_ok s"
  by (induction rule: net_reachable.induct) (auto simp: net_ok_new net_ok_step)



end
