(* ===== verification/Ring_Buffer.thy ===== *)
theory Ring_Buffer
  imports Tarwyn_Prelude
begin

text \<open>
  The fixed-capacity queue of \<open>core/src/utils/ring_buffer.rs\<close>, behind an interface: a window
  keeps the newest items of a stream.  The read cache, the log history and the unread log lines
  are windows.
\<close>

definition newest :: "nat \<Rightarrow> 'a list \<Rightarrow> 'a list" where
  "newest n xs = drop (length xs - n) xs"

lemma length_newest [simp]: "length (newest n xs) = min n (length xs)"
  by (simp add: newest_def)

lemma newest_all [simp]: "length xs \<le> n \<Longrightarrow> newest n xs = xs"
  by (simp add: newest_def)

lemma newest_0 [simp]: "newest 0 xs = []"
  by (simp add: newest_def)

lemma newest_append_newest [simp]: "newest n (newest n xs @ ys) = newest n (xs @ ys)"
proof (cases "length xs \<le> n")
  case True
  then show ?thesis by simp
next
  case False
  then have "newest n xs = drop (length xs - n) xs" and len: "n \<le> length xs"
    by (simp_all add: newest_def)
  then show ?thesis
    by (cases "length ys \<le> n") (simp_all add: newest_def add.commute)
qed

lemma newest_suffix: "\<exists>old. xs = old @ newest n xs"
  unfolding newest_def by (metis append_take_drop_id)

text \<open>A window over a stream: adding an item keeps the newest \<open>cap\<close> of what it showed.\<close>

locale window =
  fixes items :: "'s \<Rightarrow> 'a list"
    and cap :: "'s \<Rightarrow> nat"
    and add :: "'a \<Rightarrow> 's \<Rightarrow> 's"
    and ok :: "'s \<Rightarrow> bool"
  assumes within: "ok s \<Longrightarrow> length (items s) \<le> cap s"
    and items_add: "ok s \<Longrightarrow> items (add x s) = newest (cap s) (items s @ [x])"
    and cap_add: "ok s \<Longrightarrow> cap (add x s) = cap s"
    and ok_add: "ok s \<Longrightarrow> ok (add x s)"
begin

lemma ok_adds: "ok s \<Longrightarrow> ok (fold add xs s)"
  by (induction xs arbitrary: s) (simp_all add: ok_add)

lemma cap_adds: "ok s \<Longrightarrow> cap (fold add xs s) = cap s"
  by (induction xs arbitrary: s) (simp_all add: ok_add cap_add)

lemma items_adds: "ok s \<Longrightarrow> items (fold add xs s) = newest (cap s) (items s @ xs)"
proof (induction xs arbitrary: s)
  case Nil
  then show ?case using within by simp
next
  case (Cons x xs)
  then show ?case by (simp add: ok_add cap_add items_add)
qed

end

subsection \<open>The ring buffer\<close>

record 'a ring_buffer =
  ring_items :: "'a list"
  ring_capacity :: nat

definition ring_new :: "nat \<Rightarrow> 'a ring_buffer" where
  "ring_new capacity = \<lparr>ring_items = [], ring_capacity = capacity\<rparr>"

definition ring_push :: "'a \<Rightarrow> 'a ring_buffer \<Rightarrow> 'a ring_buffer" where
  "ring_push item b =
    (if ring_capacity b = 0 then b
     else let kept = (if length (ring_items b) = ring_capacity b then tl (ring_items b) else ring_items b)
          in b\<lparr>ring_items := kept @ [item]\<rparr>)"

definition ring_len :: "'a ring_buffer \<Rightarrow> nat" where
  "ring_len b = length (ring_items b)"

definition ring_is_empty :: "'a ring_buffer \<Rightarrow> bool" where
  "ring_is_empty b \<longleftrightarrow> ring_items b = []"

definition ring_iter :: "'a ring_buffer \<Rightarrow> 'a list" where
  "ring_iter b = ring_items b"

definition ring_pop :: "'a ring_buffer \<Rightarrow> 'a option \<times> 'a ring_buffer" where
  "ring_pop b = (if ring_items b = [] then (None, b)
    else (Some (last (ring_items b)), b\<lparr>ring_items := butlast (ring_items b)\<rparr>))"

definition ring_clear :: "'a ring_buffer \<Rightarrow> 'a ring_buffer" where
  "ring_clear b = b\<lparr>ring_items := []\<rparr>"

definition ring_peek :: "'a ring_buffer \<Rightarrow> 'a option" where
  "ring_peek b = (if ring_items b = [] then None else Some (last (ring_items b)))"

definition ring_ok :: "'a ring_buffer \<Rightarrow> bool" where
  "ring_ok b \<longleftrightarrow> ring_len b \<le> ring_capacity b"

lemma ring_ok_new [simp]: "ring_ok (ring_new n)"
  by (simp add: ring_ok_def ring_len_def ring_new_def)

lemma ring_push_items:
  assumes "ring_ok b"
  shows "ring_items (ring_push x b) = newest (ring_capacity b) (ring_items b @ [x])"
proof -
  have "tl (ring_items b) = drop (Suc 0) (ring_items b)"
    by (simp add: drop_Suc)
  moreover have "ring_items b \<noteq> []" if "length (ring_items b) = ring_capacity b" "ring_capacity b \<noteq> 0"
    using that by auto
  ultimately show ?thesis
    using assms by (auto simp: ring_push_def ring_ok_def ring_len_def newest_def Let_def)
qed

interpretation ring: window "ring_iter" ring_capacity ring_push ring_ok
proof unfold_locales
  fix s :: "'a ring_buffer" and x
  assume ok: "ring_ok s"
  then show "length (ring_iter s) \<le> ring_capacity s"
    by (simp add: ring_ok_def ring_iter_def ring_len_def)
  show "ring_iter (ring_push x s) = newest (ring_capacity s) (ring_iter s @ [x])"
    using ring_push_items [OF ok] by (simp add: ring_iter_def)
  show "ring_capacity (ring_push x s) = ring_capacity s"
    by (simp add: ring_push_def Let_def)
  then show "ring_ok (ring_push x s)"
    using ring_push_items [OF ok] by (simp add: ring_ok_def ring_len_def)
qed

lemma ring_clear_ok [simp]: "ring_ok (ring_clear b)"
  by (simp add: ring_ok_def ring_len_def ring_clear_def)

lemma ring_pop_ok: "ring_ok b \<Longrightarrow> ring_ok (snd (ring_pop b))"
  by (auto simp: ring_ok_def ring_len_def ring_pop_def)

lemma ring_peek_push: "ring_capacity b \<noteq> 0 \<Longrightarrow> ring_peek (ring_push x b) = Some x"
  by (simp add: ring_peek_def ring_push_def Let_def)

lemma ring_pop_push:
  "ring_capacity b \<noteq> 0 \<Longrightarrow> ring_len b < ring_capacity b \<Longrightarrow> ring_pop (ring_push x b) = (Some x, b)"
  by (simp add: ring_pop_def ring_push_def ring_len_def Let_def)

text \<open>After any number of pushes into a fresh ring buffer it holds the newest
  \<open>capacity\<close> of the pushed items, oldest first: its length is the number pushed capped by
  the capacity, \<open>peek\<close> and \<open>pop\<close> give the item pushed last whenever the capacity is not zero, a
  zero-capacity buffer stays empty, and \<open>clear\<close> empties it.\<close>

lemma ring_buffer_keeps_newest:
  "let b = fold ring_push xs (ring_new n) in
      ring_iter b = newest n xs \<and> ring_len b = min n (length xs)
    \<and> (ring_is_empty b \<longleftrightarrow> n = 0 \<or> xs = [])
    \<and> ring_peek b = (if n = 0 \<or> xs = [] then None else Some (last xs))
    \<and> fst (ring_pop b) = ring_peek b
    \<and> ring_iter (snd (ring_pop b)) = butlast (newest n xs)
    \<and> ring_iter (ring_clear b) = []"
proof -
  have items: "ring_items (fold ring_push xs (ring_new n)) = newest n xs"
    using ring.items_adds [OF ring_ok_new, of xs n] by (simp add: ring_iter_def ring_new_def)
  have last: "last (newest n xs) = last xs" if "newest n xs \<noteq> []"
    using newest_suffix [of xs n] that by (metis last_append)
  have empty: "newest n xs = [] \<longleftrightarrow> n = 0 \<or> xs = []"
    by (metis length_0_conv length_newest min_0R min_0L min_def)
  show ?thesis
    using items last empty
    by (auto simp: ring_iter_def ring_len_def ring_is_empty_def ring_peek_def ring_pop_def
        ring_clear_def Let_def)
qed

end
