(* ===== verification/Server_Log.thy ===== *)
theory Server_Log
  imports Ring_Buffer "HOL-Library.Sublist"
begin

text \<open>
  The server's logger, \<open>core/src/utils/log.rs\<close>: a bounded history and the lines no client has
  taken yet, also bounded, with a count of the lines pushed out unread.  Each critical section of
  the two mutexes is one step; a poisoned mutex is a flag.
\<close>

definition UNREAD_LOG_LIMIT :: nat where "UNREAD_LOG_LIMIT = 500"

datatype level = Error | Warn | Info | Debug | Trace

fun level_rank :: "level \<Rightarrow> nat" where
  "level_rank Error = 1"
| "level_rank Warn = 2"
| "level_rank Info = 3"
| "level_rank Debug = 4"
| "level_rank Trace = 5"

fun level_name :: "level \<Rightarrow> string" where
  "level_name Error = ''ERROR''"
| "level_name Warn = ''WARN''"
| "level_name Info = ''INFO''"
| "level_name Debug = ''DEBUG''"
| "level_name Trace = ''TRACE''"

record logger =
  log_enabled :: bool
  log_history :: "string ring_buffer"
  log_history_poisoned :: bool
  unread_logs :: "string list"
  unread_poisoned :: bool
  log_dropped :: u64

definition LOGGER :: logger where
  "LOGGER = \<lparr>log_enabled = False, log_history = ring_new 500, log_history_poisoned = False,
     unread_logs = [], unread_poisoned = False, log_dropped = 0\<rparr>"

text \<open>\<open>max_level\<close> is the crate-wide filter the \<open>log\<close> facade keeps: 0 is off, 5 lets everything pass.\<close>

definition logger_enabled :: "nat \<Rightarrow> level \<Rightarrow> logger \<Rightarrow> bool" where
  "logger_enabled max_level l g \<longleftrightarrow> log_enabled g \<and> level_rank l \<le> max_level"

definition log_format :: "level \<Rightarrow> string \<Rightarrow> string \<Rightarrow> string" where
  "log_format l target args = ''['' @ level_name l @ ''] '' @ target @ '' - '' @ args"

definition push_history :: "string \<Rightarrow> logger \<Rightarrow> logger" where
  "push_history line g = (if log_history_poisoned g then g
    else g\<lparr>log_history := ring_push line (log_history g)\<rparr>)"

definition push_unread :: "string \<Rightarrow> logger \<Rightarrow> logger" where
  "push_unread line g = (if unread_poisoned g then g
    else let unread = unread_logs g @ [line] in
      if length unread > UNREAD_LOG_LIMIT
      then let excess = length unread - UNREAD_LOG_LIMIT in
        g\<lparr>unread_logs := drop excess unread, log_dropped := log_dropped g + of_nat excess\<rparr>
      else g\<lparr>unread_logs := unread\<rparr>)"

definition logger_log :: "nat \<Rightarrow> level \<Rightarrow> string \<Rightarrow> string \<Rightarrow> logger \<Rightarrow> logger" where
  "logger_log max_level l target args g =
    (if \<not> logger_enabled max_level l g then g
     else let line = log_format l target args in push_unread line (push_history line g))"

definition get_logs :: "logger \<Rightarrow> string list option" where
  "get_logs g = (if log_history_poisoned g then None else Some (ring_iter (log_history g)))"

definition dropped_logs :: "logger \<Rightarrow> u64" where
  "dropped_logs g = log_dropped g"

definition read_unread_logs :: "logger \<Rightarrow> string list option \<times> logger" where
  "read_unread_logs g = (if unread_poisoned g then (None, g)
    else let logs = unread_logs g; g' = g\<lparr>unread_logs := []\<rparr>
      in if logs = [] then (None, g') else (Some logs, g'))"

text \<open>What \<open>wait_unread_logs\<close> does once its wait is over, whether a line arrived, the stop flag was
  set or the timeout passed.  It takes the lines from a poisoned mutex too.\<close>

definition wait_unread_logs :: "logger \<Rightarrow> string list option \<times> logger" where
  "wait_unread_logs g = (let logs = unread_logs g; g' = g\<lparr>unread_logs := []\<rparr>
     in if logs = [] then (None, g') else (Some logs, g'))"

definition init_logger :: "bool \<Rightarrow> logger \<Rightarrow> logger" where
  "init_logger enabled g = g\<lparr>log_enabled := enabled\<rparr>"

subsection \<open>Both stores are windows\<close>

definition history_ok :: "logger \<Rightarrow> bool" where
  "history_ok g \<longleftrightarrow> \<not> log_history_poisoned g \<and> ring_ok (log_history g)"

definition unread_ok :: "logger \<Rightarrow> bool" where
  "unread_ok g \<longleftrightarrow> \<not> unread_poisoned g \<and> length (unread_logs g) \<le> UNREAD_LOG_LIMIT"

interpretation history: window "\<lambda>g. ring_iter (log_history g)" "\<lambda>g. ring_capacity (log_history g)"
  push_history history_ok
  by unfold_locales
    (simp_all add: history_ok_def push_history_def ring.within ring.items_add ring.cap_add ring.ok_add)

interpretation unread: window unread_logs "\<lambda>_. UNREAD_LOG_LIMIT" push_unread unread_ok
  by unfold_locales (auto simp: unread_ok_def push_unread_def newest_def Let_def)

lemma push_history_keeps [simp]:
  "unread_logs (push_history l g) = unread_logs g"
  "log_dropped (push_history l g) = log_dropped g"
  "log_enabled (push_history l g) = log_enabled g"
  "unread_poisoned (push_history l g) = unread_poisoned g"
  by (simp_all add: push_history_def)

lemma push_unread_keeps [simp]:
  "log_history (push_unread l g) = log_history g"
  "log_history_poisoned (push_unread l g) = log_history_poisoned g"
  "log_enabled (push_unread l g) = log_enabled g"
  by (simp_all add: push_unread_def Let_def)

subsection \<open>Runs of the logger\<close>

datatype log_event =
  Log level string string
| ReadUnread
| WaitUnread

text \<open>A run: the state after the events and the lines handed out so far, oldest first.\<close>

definition log_step :: "nat \<Rightarrow> log_event \<Rightarrow> logger \<times> string list \<Rightarrow> logger \<times> string list" where
  "log_step max_level e = (\<lambda>(g, taken). case e of
     Log l t a \<Rightarrow> (logger_log max_level l t a g, taken)
   | ReadUnread \<Rightarrow> (case read_unread_logs g of (out, g') \<Rightarrow> (g', taken @ (case out of None \<Rightarrow> [] | Some ls \<Rightarrow> ls)))
   | WaitUnread \<Rightarrow> (case wait_unread_logs g of (out, g') \<Rightarrow> (g', taken @ (case out of None \<Rightarrow> [] | Some ls \<Rightarrow> ls))))"

definition log_run :: "nat \<Rightarrow> log_event list \<Rightarrow> logger \<times> string list" where
  "log_run max_level es = fold (log_step max_level) es (init_logger True LOGGER, [])"

definition emitted :: "nat \<Rightarrow> log_event list \<Rightarrow> string list" where
  "emitted max_level es = concat (map (\<lambda>e. case e of
     Log l t a \<Rightarrow> if level_rank l \<le> max_level then [log_format l t a] else [] | _ \<Rightarrow> []) es)"

text \<open>What holds after any run, of the state, the lines taken and the lines emitted.\<close>

definition log_accounted :: "string list \<Rightarrow> logger \<times> string list \<Rightarrow> bool" where
  "log_accounted lines st \<longleftrightarrow> (case st of (g, taken) \<Rightarrow>
     log_enabled g \<and> history_ok g \<and> unread_ok g \<and> ring_capacity (log_history g) = 500
   \<and> ring_iter (log_history g) = newest 500 lines
   \<and> (\<exists>seen lost. lines = seen @ unread_logs g \<and> subseq taken seen \<and> length taken + lost = length seen
        \<and> log_dropped g = of_nat lost))"

lemma log_accounted_line:
  assumes "log_accounted lines (g, taken)"
  shows "log_accounted (lines @ [line]) (push_unread line (push_history line g), taken)"
proof -
  from assms obtain seen lost where *: "lines = seen @ unread_logs g" "subseq taken seen"
    "length taken + lost = length seen" "log_dropped g = of_nat lost"
    by (auto simp: log_accounted_def)
  from assms have ok: "history_ok g" "unread_ok g" "ring_capacity (log_history g) = 500"
    "log_enabled g" "ring_iter (log_history g) = newest 500 lines"
    by (simp_all add: log_accounted_def)
  let ?g = "push_history line g"
  have uok: "unread_ok ?g" using ok(2) by (simp add: unread_ok_def)
  have hist: "ring_iter (log_history ?g) = newest 500 (lines @ [line])"
    using history.items_add [OF ok(1)] ok by simp
  have hok: "history_ok (push_unread line ?g)"
    using history.ok_add [OF ok(1)] by (simp add: history_ok_def)
  have cap: "ring_capacity (log_history ?g) = 500"
    using history.cap_add [OF ok(1)] ok(3) by simp
  have "\<exists>seen' lost'. lines @ [line] = seen' @ unread_logs (push_unread line ?g) \<and> subseq taken seen'
      \<and> length taken + lost' = length seen' \<and> log_dropped (push_unread line ?g) = of_nat lost'"
  proof (cases "length (unread_logs g) < UNREAD_LOG_LIMIT")
    case True
    then show ?thesis using * uok
      by (intro exI [of _ seen] exI [of _ lost]) (simp add: push_unread_def unread_ok_def Let_def)
  next
    case False
    with uok have full: "length (unread_logs g) = UNREAD_LOG_LIMIT" by (simp add: unread_ok_def)
    moreover have "unread_logs g \<noteq> []" using full by (auto simp: UNREAD_LOG_LIMIT_def)
    moreover have "Suc 0 - UNREAD_LOG_LIMIT = 0" by (simp add: UNREAD_LOG_LIMIT_def)
    ultimately have "unread_logs (push_unread line ?g) = tl (unread_logs g) @ [line]"
      "log_dropped (push_unread line ?g) = of_nat (Suc lost)"
      using uok *(4) by (simp_all add: push_unread_def unread_ok_def Let_def drop_Suc)
    moreover have "unread_logs g = hd (unread_logs g) # tl (unread_logs g)"
      using \<open>unread_logs g \<noteq> []\<close> by simp
    ultimately show ?thesis using *
      by (intro exI [of _ "seen @ [hd (unread_logs g)]"] exI [of _ "Suc lost"])
        (simp add: subseq_rev_drop_many)
  qed
  then show ?thesis
    using ok hok hist cap unread.ok_add [OF uok] by (simp add: log_accounted_def)
qed

lemma log_accounted_take:
  assumes "log_accounted lines (g, taken)"
  shows "log_accounted lines (g\<lparr>unread_logs := []\<rparr>, taken @ unread_logs g)"
proof -
  from assms obtain seen lost where *: "lines = seen @ unread_logs g" "subseq taken seen"
    "length taken + lost = length seen" "log_dropped g = of_nat lost"
    by (auto simp: log_accounted_def)
  then show ?thesis using assms
    by (auto simp: log_accounted_def history_ok_def unread_ok_def
        intro!: exI [of _ lines] exI [of _ lost] list_emb_append_mono)
qed

lemma log_accounted_step:
  assumes "log_accounted lines st"
  shows "log_accounted (lines @ emitted m [e]) (log_step m e st)"
proof (cases st)
  case (Pair g taken)
  have "log_enabled g" "\<not> unread_poisoned g"
    using assms Pair by (simp_all add: log_accounted_def unread_ok_def)
  then show ?thesis
    using log_accounted_line [of lines g taken] log_accounted_take [of lines g taken] assms Pair
    by (cases e) (auto simp: log_step_def emitted_def logger_log_def logger_enabled_def Let_def
        read_unread_logs_def wait_unread_logs_def split: if_splits)
qed

lemma emitted_append [simp]: "emitted m (es @ fs) = emitted m es @ emitted m fs"
  by (simp add: emitted_def)

lemma log_accounted_run: "log_accounted (emitted m es) (log_run m es)"
proof (induction es rule: rev_induct)
  case Nil
  then show ?case
    by (simp add: log_accounted_def log_run_def emitted_def init_logger_def LOGGER_def
        history_ok_def unread_ok_def ring_iter_def ring_new_def ring_ok_def ring_len_def)
next
  case (snoc e es)
  then show ?case using log_accounted_step [OF snoc.IH, of m e] by (simp add: log_run_def)
qed

text \<open>C35. Every line the enabled logger emits is accounted for, however logging and taking
  interleave: the history is the newest 500 lines; the lines not yet taken are at most
  \<open>UNREAD_LOG_LIMIT\<close> and are the newest ones; what clients took is a subsequence, in order and without
  repetition, of the lines before those; and taken, unread and dropped lines together are
  all the lines, with the drop counter exact up to its 64-bit wrap-around.\<close>

theorem log_lines_accounted:
  "case log_run m es of (g, taken) \<Rightarrow>
      get_logs g = Some (newest 500 (emitted m es))
    \<and> length (unread_logs g) \<le> UNREAD_LOG_LIMIT
    \<and> (\<exists>seen lost. emitted m es = seen @ unread_logs g \<and> subseq taken seen
        \<and> length taken + lost + length (unread_logs g) = length (emitted m es)
        \<and> unat (dropped_logs g) = lost mod 2 ^ 64)"
proof (cases "log_run m es")
  case (Pair g taken)
  then have "log_accounted (emitted m es) (g, taken)"
    using log_accounted_run [of m es] by simp
  then have "get_logs g = Some (newest 500 (emitted m es))" "length (unread_logs g) \<le> UNREAD_LOG_LIMIT"
    and "\<exists>seen lost. emitted m es = seen @ unread_logs g \<and> subseq taken seen \<and> length taken + lost = length seen
        \<and> log_dropped g = of_nat lost"
    by (simp_all add: log_accounted_def get_logs_def history_ok_def unread_ok_def)
  then show ?thesis
    using Pair by (auto simp: dropped_logs_def unat_of_nat)
qed

end
