(* ===== verification/Telemetry.thy ===== *)
theory Telemetry
  imports Tarwyn_Prelude
begin

text \<open>
  The UDP telemetry datagrams of \<open>proto/src/telemetry.rs\<close>: the channel hash, the header
  written into a caller's buffer, and the two readers.  Writing into a buffer shorter than the
  header panics, which is \<open>None\<close> here.
\<close>

definition MAGIC :: u32 where "MAGIC = 0x58540001"
definition MAGIC_REGISTER :: u32 where "MAGIC_REGISTER = 0x58540002"
definition HEADER_LEN :: nat where "HEADER_LEN = 20"
definition MAX_DATAGRAM :: nat where "MAX_DATAGRAM = 65507"

definition hash_byte :: "u8 \<Rightarrow> u32 \<Rightarrow> u32" where
  "hash_byte b h = (h XOR ucast b) * 16777619"

definition topic_hash :: "string \<Rightarrow> u32" where
  "topic_hash channel = fold hash_byte (str_bytes channel) 2166136261"

text \<open>\<open>copy_from_slice\<close> into a range of the buffer.\<close>

definition copy_into :: "bytes \<Rightarrow> nat \<Rightarrow> bytes \<Rightarrow> bytes" where
  "copy_into buf at src = take at buf @ src @ drop (at + length src) buf"

definition encode_with :: "bytes \<Rightarrow> u32 \<Rightarrow> u32 \<Rightarrow> u64 \<Rightarrow> bytes \<Rightarrow> (nat \<times> bytes) option" where
  "encode_with buf magic channel_hash timestamp_us payload =
    (if length buf < HEADER_LEN then None
     else let len = min (length payload) (length buf - HEADER_LEN);
        b1 = copy_into buf 0 (u32_le magic);
        b2 = copy_into b1 4 (u32_le channel_hash);
        b3 = copy_into b2 8 (u64_le timestamp_us);
        b4 = copy_into b3 16 (u32_le (of_nat len));
        b5 = copy_into b4 HEADER_LEN (take len payload)
      in Some (HEADER_LEN + len, b5))"

definition tel_encode :: "bytes \<Rightarrow> u32 \<Rightarrow> u64 \<Rightarrow> bytes \<Rightarrow> (nat \<times> bytes) option" where
  "tel_encode buf channel_hash timestamp_us payload = encode_with buf MAGIC channel_hash timestamp_us payload"

definition encode_registration :: "u64 \<Rightarrow> bytes \<Rightarrow> u32 \<Rightarrow> (nat \<times> bytes) option" where
  "encode_registration now_micros buf channel_hash = encode_with buf MAGIC_REGISTER channel_hash now_micros []"

definition sub_bytes :: "bytes \<Rightarrow> nat \<Rightarrow> nat \<Rightarrow> bytes" where
  "sub_bytes buf i n = take n (drop i buf)"

definition decode_with :: "bytes \<Rightarrow> u32 \<Rightarrow> (u32 \<times> u64 \<times> bytes) option" where
  "decode_with buf magic =
    (if length buf < HEADER_LEN then None
     else if of_nat (le_nat (sub_bytes buf 0 4)) \<noteq> magic then None
     else let channel_hash = of_nat (le_nat (sub_bytes buf 4 4));
        timestamp_us = of_nat (le_nat (sub_bytes buf 8 8));
        len = le_nat (sub_bytes buf 16 4)
      in if len > MAX_DATAGRAM \<or> length buf < HEADER_LEN + len then None
         else Some (channel_hash, timestamp_us, sub_bytes buf HEADER_LEN len))"

definition tel_decode :: "bytes \<Rightarrow> (u32 \<times> u64 \<times> bytes) option" where
  "tel_decode buf = decode_with buf MAGIC"

definition decode_registration :: "bytes \<Rightarrow> u32 option" where
  "decode_registration buf = map_option fst (decode_with buf MAGIC_REGISTER)"

text \<open>The clock reading, from nanoseconds since the epoch; a clock before the epoch reads 0.\<close>

definition epoch_nanos :: "nat option \<Rightarrow> u64" where
  "epoch_nanos since_epoch = (case since_epoch of None \<Rightarrow> 0 | Some ns \<Rightarrow> of_nat ns)"

definition epoch_micros :: "nat option \<Rightarrow> u64" where
  "epoch_micros since_epoch = epoch_nanos since_epoch div 1000"

subsection \<open>The datagram layout\<close>

text \<open>The bytes of a datagram, and the reader as the inverse of that layout.\<close>

definition datagram :: "u32 \<Rightarrow> u32 \<Rightarrow> u64 \<Rightarrow> bytes \<Rightarrow> bytes" where
  "datagram magic h ts p = u32_le magic @ u32_le h @ u64_le ts @ u32_le (of_nat (length p)) @ p"

lemma length_datagram [simp]: "length (datagram m h ts p) = HEADER_LEN + length p"
  by (simp add: datagram_def HEADER_LEN_def)

lemma of_nat_unat_word: "of_nat (unat (w :: 'a::len word)) = w"
  by simp

lemma five_parts:
  assumes "20 \<le> length buf"
  shows "buf = take 4 buf @ take 4 (drop 4 buf) @ take 8 (drop 8 buf) @ take 4 (drop 16 buf) @ drop 20 buf"
proof -
  have "buf = take 4 buf @ drop 4 buf" by simp
  also have "drop 4 buf = take 4 (drop 4 buf) @ drop 8 buf"
    using append_take_drop_id [of 4 "drop 4 buf"] by simp
  also have "drop 8 buf = take 8 (drop 8 buf) @ drop 16 buf"
    using append_take_drop_id [of 8 "drop 8 buf"] by simp
  also have "drop 16 buf = take 4 (drop 16 buf) @ drop 20 buf"
    using append_take_drop_id [of 4 "drop 16 buf"] by simp
  finally show ?thesis .
qed

lemma decode_with_datagram:
  "length p \<le> MAX_DATAGRAM \<Longrightarrow> decode_with (datagram m h ts p @ rest) m = Some (h, ts, p)"
  by (simp add: decode_with_def datagram_def sub_bytes_def HEADER_LEN_def MAX_DATAGRAM_def Let_def
      unat_of_nat_small le_nat_le_bytes_id)

lemma decode_with_other:
  "m \<noteq> m' \<Longrightarrow> decode_with (datagram m h ts p @ rest) m' = None"
  by (simp add: decode_with_def datagram_def sub_bytes_def)

lemma le_word_bytes:
  "length bs = 4 \<Longrightarrow> u32_le (of_nat (le_nat bs)) = bs"
  "length bs = 8 \<Longrightarrow> u64_le (of_nat (le_nat bs)) = bs"
  using le_nat_bound [of bs] by (simp_all add: unat_of_nat_small le_bytes_le_nat)

lemma decode_with_Some:
  assumes "decode_with buf m = Some (h, ts, p)"
  shows "length p \<le> MAX_DATAGRAM \<and> (\<exists>rest. buf = datagram m h ts p @ rest)"
proof -
  have len: "20 \<le> length buf" and m: "of_nat (le_nat (take 4 buf)) = m"
    and h: "h = of_nat (le_nat (take 4 (drop 4 buf)))" and ts: "ts = of_nat (le_nat (take 8 (drop 8 buf)))"
    and n: "le_nat (take 4 (drop 16 buf)) \<le> MAX_DATAGRAM" "20 + le_nat (take 4 (drop 16 buf)) \<le> length buf"
    and p: "p = take (le_nat (take 4 (drop 16 buf))) (drop 20 buf)"
    using assms
    by (auto simp: decode_with_def Let_def HEADER_LEN_def sub_bytes_def split: if_splits)
  have lp: "length p = le_nat (take 4 (drop 16 buf))" using p n by simp
  have words: "u32_le m = take 4 buf" "u32_le h = take 4 (drop 4 buf)" "u64_le ts = take 8 (drop 8 buf)"
    "u32_le (of_nat (length p)) = take 4 (drop 16 buf)"
    unfolding m [symmetric] h ts lp using len by (simp_all add: le_word_bytes)
  have "drop 20 buf = p @ drop (length p) (drop 20 buf)"
    using p lp by (metis append_take_drop_id)
  then have "buf = datagram m h ts p @ drop (length p) (drop 20 buf)"
    using five_parts [OF len] by (simp add: datagram_def words)
  then show ?thesis using n lp by auto
qed

lemma copy_into_at:
  "n = length xs \<Longrightarrow> copy_into (xs @ ys) n src = (xs @ src) @ drop (length src) ys"
  by (simp add: copy_into_def)

lemma encode_with_layout:
  assumes "HEADER_LEN \<le> length buf"
  shows "encode_with buf m h ts p =
    (let q = take (length buf - HEADER_LEN) p in
      Some (HEADER_LEN + length q, datagram m h ts q @ drop (HEADER_LEN + length q) buf))"
proof -
  let ?k = "min (length p) (length buf - HEADER_LEN)"
  have q: "take ?k p = take (length buf - HEADER_LEN) p" "length (take ?k p) = ?k"
    by (simp_all add: min_def)
  have b1: "copy_into buf 0 (u32_le m) = u32_le m @ drop 4 buf"
    using copy_into_at [of 0 "[]" buf] by simp
  have b2: "copy_into (u32_le m @ drop 4 buf) 4 (u32_le h) = (u32_le m @ u32_le h) @ drop 8 buf"
    by (subst copy_into_at) simp_all
  have b3: "copy_into ((u32_le m @ u32_le h) @ drop 8 buf) 8 (u64_le ts)
      = (u32_le m @ u32_le h @ u64_le ts) @ drop 16 buf"
    by (subst copy_into_at) simp_all
  have b4: "copy_into ((u32_le m @ u32_le h @ u64_le ts) @ drop 16 buf) 16 (u32_le (of_nat ?k))
      = (u32_le m @ u32_le h @ u64_le ts @ u32_le (of_nat ?k)) @ drop 20 buf"
    by (subst copy_into_at) simp_all
  have b5: "copy_into ((u32_le m @ u32_le h @ u64_le ts @ u32_le (of_nat ?k)) @ drop 20 buf) HEADER_LEN (take ?k p)
      = datagram m h ts (take ?k p) @ drop (HEADER_LEN + ?k) buf"
    by (subst copy_into_at) (simp_all add: HEADER_LEN_def datagram_def q(2) add.commute)
  have "encode_with buf m h ts p = Some (HEADER_LEN + ?k, datagram m h ts (take ?k p) @ drop (HEADER_LEN + ?k) buf)"
    unfolding encode_with_def Let_def b1 b2 b3 b4 b5 using assms by simp
  then show ?thesis by (simp only: Let_def q(1) [symmetric] q(2))
qed

lemma magics_differ [simp]: "MAGIC \<noteq> MAGIC_REGISTER" "MAGIC_REGISTER \<noteq> MAGIC"
  by (simp_all add: MAGIC_def MAGIC_REGISTER_def)

lemma not_both: "tel_decode buf = None \<or> decode_registration buf = None"
  using decode_with_Some [of buf MAGIC] decode_with_other [OF magics_differ(1)]
  by (cases "tel_decode buf") (force simp: tel_decode_def decode_registration_def)+

text \<open>Writing a datagram into a buffer of at least the header's length, with a payload a
  datagram can carry, never writes outside the buffer and touches nothing past the returned
  length; the payload is cut to what the buffer holds; reading the written bytes back gives the channel
  hash, the timestamp and that payload; and they are not mistaken for a registration.\<close>

lemma telemetry_round_trip:
  assumes "HEADER_LEN \<le> length buf" and "length p \<le> MAX_DATAGRAM"
  shows "\<exists>n buf'. tel_encode buf h ts p = Some (n, buf') \<and> length buf' = length buf
    \<and> n = HEADER_LEN + min (length p) (length buf - HEADER_LEN) \<and> drop n buf' = drop n buf
    \<and> tel_decode (take n buf') = Some (h, ts, take (length buf - HEADER_LEN) p)
    \<and> decode_registration (take n buf') = None"
  using assms decode_with_datagram [of "take (length buf - HEADER_LEN) p" MAGIC h ts "[]"]
    decode_with_other [of MAGIC MAGIC_REGISTER h ts "take (length buf - HEADER_LEN) p" "[]"]
  by (simp add: tel_encode_def tel_decode_def decode_registration_def encode_with_layout Let_def
      min.commute)

lemma telemetry_round_trip_example:
  "\<exists>n buf'. tel_encode (replicate 23 0) 7 9 [1, 2, 3, 4] = Some (n, buf') \<and> length buf' = 23
    \<and> n = 23 \<and> drop n buf' = []
    \<and> tel_decode (take n buf') = Some (7, 9, [1, 2, 3]) \<and> decode_registration (take n buf') = None"
  using telemetry_round_trip [of "replicate 23 0" "[1, 2, 3, 4]" 7 9]
  by (simp add: HEADER_LEN_def MAX_DATAGRAM_def)

text \<open>The two readers accept exactly the well-formed datagrams: a header with their magic and a
  length of at most \<open>MAX_DATAGRAM\<close> that the bytes really hold.  What follows the payload is
  ignored, and no bytes are both data and a registration.\<close>

lemma telemetry_decode_exact:
  "(tel_decode buf = Some (h, ts, p) \<longleftrightarrow>
      length p \<le> MAX_DATAGRAM \<and> (\<exists>rest. buf = datagram MAGIC h ts p @ rest))
   \<and> (decode_registration buf = Some h \<longleftrightarrow>
      (\<exists>ts p rest. length p \<le> MAX_DATAGRAM \<and> buf = datagram MAGIC_REGISTER h ts p @ rest))
   \<and> (tel_decode buf = None \<or> decode_registration buf = None)"
proof (intro conjI)
  show "tel_decode buf = Some (h, ts, p) \<longleftrightarrow>
      length p \<le> MAX_DATAGRAM \<and> (\<exists>rest. buf = datagram MAGIC h ts p @ rest)"
    using decode_with_datagram decode_with_Some by (auto simp: tel_decode_def)
  have "decode_registration buf = Some h \<longleftrightarrow> (\<exists>ts p. decode_with buf MAGIC_REGISTER = Some (h, ts, p))"
    by (auto simp: decode_registration_def)
  also have "\<dots> \<longleftrightarrow> (\<exists>ts p rest. length p \<le> MAX_DATAGRAM \<and> buf = datagram MAGIC_REGISTER h ts p @ rest)"
    using decode_with_datagram decode_with_Some by blast
  finally show "decode_registration buf = Some h \<longleftrightarrow>
      (\<exists>ts p rest. length p \<le> MAX_DATAGRAM \<and> buf = datagram MAGIC_REGISTER h ts p @ rest)" .
qed (rule not_both)

text \<open>A registration written into any buffer that holds a header is read back as a registration of
  that channel, and never as data.\<close>

lemma registration_round_trip:
  assumes "HEADER_LEN \<le> length buf"
  shows "\<exists>buf'. encode_registration now buf h = Some (HEADER_LEN, buf') \<and> length buf' = length buf
    \<and> decode_registration (take HEADER_LEN buf') = Some h \<and> tel_decode (take HEADER_LEN buf') = None"
  using assms decode_with_datagram [of "[]" MAGIC_REGISTER h now "[]"]
    decode_with_other [of MAGIC_REGISTER MAGIC h now "[]" "[]"]
  by (simp add: encode_registration_def tel_decode_def decode_registration_def encode_with_layout Let_def)

subsection \<open>The channel hash\<close>

text \<open>The FNV prime is odd, so hashing a byte can be undone when the byte is known.\<close>

lemma fnv_prime_cancel: "(x :: u32) * 16777619 = y * 16777619 \<longleftrightarrow> x = y"
proof
  assume "x * 16777619 = y * 16777619"
  then have "x * 16777619 * 899433627 = y * 16777619 * 899433627" by simp
  moreover have "(15090354709594113 :: u32) = 1" by simp
  ultimately show "x = y" by (simp add: mult.assoc)
qed simp

lemma xor_cancel: "(h :: u32) XOR a = h XOR b \<longleftrightarrow> a = b"
  using bit.xor_left_self [of h a] bit.xor_left_self [of h b] by metis

lemma hash_byte_inj_hash: "hash_byte b h = hash_byte b h' \<longleftrightarrow> h = h'"
  unfolding hash_byte_def fnv_prime_cancel xor.commute [of _ "ucast b"] xor_cancel ..

lemma hash_byte_inj_byte: "hash_byte b h = hash_byte b' h \<longleftrightarrow> b = b'"
proof -
  have "(ucast b :: u32) = ucast b' \<longleftrightarrow> b = b'"
    using unat_ucast_up [where 'b = 32, of b] unat_ucast_up [where 'b = 32, of b']
    by (auto simp: word_unat_eq_iff)
  then show ?thesis unfolding hash_byte_def fnv_prime_cancel xor_cancel .
qed

lemma fold_hash_byte_inj: "fold hash_byte bs h = fold hash_byte bs h' \<longleftrightarrow> h = h'"
  by (induction bs arbitrary: h h') (simp_all add: hash_byte_inj_hash)

text \<open>Channel names that differ in a single byte never share a hash: such a pair can not be
  mistaken for one another on the wire.\<close>

lemma topic_hash_one_byte:
  "topic_hash (pre @ [c] @ post) = topic_hash (pre @ [d] @ post) \<longleftrightarrow> c = d"
proof -
  have "of_char c = (of_char d :: u8) \<longleftrightarrow> c = d"
    by (metis of_char_eq_iff unat_of_char)
  then show ?thesis
    by (simp add: topic_hash_def str_bytes_def fold_hash_byte_inj hash_byte_inj_byte)
qed

end
