(* ===== verification/Telemetry_Relay.thy ===== *)
theory Telemetry_Relay
  imports Telemetry
begin

text \<open>
  The telemetry relay of \<open>core/src/server.rs\<close>: leases of channels to addresses, the published
  snapshot the relay reads, and one turn of the receive loop.  Instants are nanoseconds of a
  monotonic clock; \<open>duration_since\<close> saturates at zero, as does subtraction of naturals.
\<close>

datatype socket_addr = SocketAddr (addr_ip: bytes) (addr_port: u16)

definition TELEMETRY_TTL :: nat where "TELEMETRY_TTL = 10000000000"
definition MAX_TELEMETRY_SUBSCRIBERS :: nat where "MAX_TELEMETRY_SUBSCRIBERS = 16"
definition MAX_TELEMETRY_CHANNELS :: nat where "MAX_TELEMETRY_CHANNELS = 256"

type_synonym leases = "(socket_addr, nat) hm"

record telemetry_plane =
  tel_registry :: "(u32, leases) hm"
  tel_published :: "(u32, socket_addr list) hm"
  tel_poisoned :: bool

definition telemetry_new :: telemetry_plane where
  "telemetry_new = \<lparr>tel_registry = [], tel_published = [], tel_poisoned = False\<rparr>"

definition live :: "nat \<Rightarrow> leases \<Rightarrow> leases" where
  "live now addresses = filter (\<lambda>(_, seen). now - seen < TELEMETRY_TTL) addresses"

definition drop_empty :: "(u32, leases) hm \<Rightarrow> (u32, leases) hm" where
  "drop_empty registry = filter (\<lambda>(_, addresses). addresses \<noteq> []) registry"

definition sweep :: "nat \<Rightarrow> (u32, leases) hm \<Rightarrow> (u32, leases) hm" where
  "sweep now registry = drop_empty (hm_map (live now) registry)"

definition snapshot :: "(u32, leases) hm \<Rightarrow> (u32, socket_addr list) hm" where
  "snapshot registry = map (\<lambda>(h, addresses). (h, map fst addresses)) registry"

definition leases_of :: "(u32, leases) hm \<Rightarrow> u32 \<Rightarrow> leases" where
  "leases_of registry h = (case hm_get registry h of None \<Rightarrow> [] | Some addresses \<Rightarrow> addresses)"

definition register_telemetry ::
    "nat \<Rightarrow> u32 \<Rightarrow> socket_addr \<Rightarrow> telemetry_plane \<Rightarrow> bool \<times> telemetry_plane" where
  "register_telemetry now channel_hash address st =
    (if tel_poisoned st then (False, st)
     else let registry = sweep now (tel_registry st);
        known = hm_has registry channel_hash
      in if \<not> known \<and> length registry \<ge> MAX_TELEMETRY_CHANNELS
         then (False, st\<lparr>tel_registry := registry\<rparr>)
         else let registry1 = (if known then registry else hm_insert registry channel_hash []);
            addresses = leases_of registry1 channel_hash
          in if \<not> hm_has addresses address \<and> length addresses \<ge> MAX_TELEMETRY_SUBSCRIBERS
             then (False, st\<lparr>tel_registry := drop_empty registry1\<rparr>)
             else let registry2 = hm_insert registry1 channel_hash (hm_insert addresses address now)
               in (True, st\<lparr>tel_registry := registry2, tel_published := snapshot registry2\<rparr>))"

text \<open>One turn of the receive loop: what arrived, and the datagrams sent in return.  The receive
  buffer holds \<open>MAX_DATAGRAM\<close> bytes; \<open>own\<close> is the relay's own port, when the socket knows it.\<close>

definition targets :: "telemetry_plane \<Rightarrow> u32 \<Rightarrow> socket_addr list" where
  "targets st h = (case hm_get (tel_published st) h of None \<Rightarrow> [] | Some ts \<Rightarrow> ts)"

definition relay_datagram ::
    "u16 option \<Rightarrow> nat \<Rightarrow> socket_addr \<Rightarrow> bytes \<Rightarrow> telemetry_plane \<Rightarrow> telemetry_plane \<times> (socket_addr \<times> bytes) list" where
  "relay_datagram own now from received st =
    (let dgram = take MAX_DATAGRAM received in
     case decode_registration dgram of
       Some channel_hash \<Rightarrow> (snd (register_telemetry now channel_hash from st), [])
     | None \<Rightarrow> (case tel_decode dgram of
         None \<Rightarrow> (st, [])
       | Some (channel_hash, _, _) \<Rightarrow>
           (st, map (\<lambda>t. (t, dgram)) (filter (\<lambda>t. own \<noteq> Some (addr_port t)) (targets st channel_hash)))))"

record arrival =
  arr_now :: nat
  arr_from :: socket_addr
  arr_bytes :: bytes

definition relay_step :: "u16 option \<Rightarrow> arrival \<Rightarrow> telemetry_plane \<Rightarrow> telemetry_plane" where
  "relay_step own a st = fst (relay_datagram own (arr_now a) (arr_from a) (arr_bytes a) st)"

definition relay_run :: "u16 option \<Rightarrow> arrival list \<Rightarrow> telemetry_plane \<Rightarrow> telemetry_plane" where
  "relay_run own as st = fold (relay_step own) as st"

subsection \<open>The caps\<close>

definition leases_ok :: "leases \<Rightarrow> bool" where
  "leases_ok ls \<longleftrightarrow> hm_ok ls \<and> ls \<noteq> [] \<and> length ls \<le> MAX_TELEMETRY_SUBSCRIBERS"

definition relay_ok :: "telemetry_plane \<Rightarrow> bool" where
  "relay_ok st \<longleftrightarrow> hm_ok (tel_registry st) \<and> length (tel_registry st) \<le> MAX_TELEMETRY_CHANNELS
   \<and> (\<forall>ls \<in> snd ` set (tel_registry st). leases_ok ls)
   \<and> hm_ok (tel_published st) \<and> length (tel_published st) \<le> MAX_TELEMETRY_CHANNELS
   \<and> (\<forall>ts \<in> snd ` set (tel_published st). distinct ts \<and> length ts \<le> MAX_TELEMETRY_SUBSCRIBERS)"

lemma filter_hm_ok [simp]: "hm_ok m \<Longrightarrow> hm_ok (filter P m)"
  by (induction m) auto

lemma live_props:
  "hm_ok ls \<Longrightarrow> hm_ok (live now ls)" "length (live now ls) \<le> length ls"
  by (simp_all add: live_def)

lemma set_drop_empty: "set (drop_empty r) = {(h, ls) \<in> set r. ls \<noteq> []}"
  by (auto simp: drop_empty_def)

lemma hm_ok_sweep: "hm_ok r \<Longrightarrow> hm_ok (sweep now r)"
  unfolding sweep_def drop_empty_def by (rule filter_hm_ok) simp

lemma length_sweep: "length (sweep now r) \<le> length r"
  unfolding sweep_def drop_empty_def by (rule order_trans [OF length_filter_le]) (simp add: hm_map_def)

lemma sweep_leases:
  assumes "\<forall>ls \<in> snd ` set r. leases_ok ls" and "ls \<in> snd ` set (sweep now r)"
  shows "leases_ok ls"
proof -
  from assms(2) obtain ls0 where ls0: "ls0 \<in> snd ` set r" "ls = live now ls0" "ls \<noteq> []"
    by (force simp: sweep_def set_drop_empty hm_map_def)
  then have "hm_ok ls0" "length ls0 \<le> MAX_TELEMETRY_SUBSCRIBERS"
    using assms(1) by (auto simp: leases_ok_def)
  with live_props(1) [of ls0 now] live_props(2) [of now ls0] ls0 show ?thesis by (simp add: leases_ok_def)
qed

lemma hm_get_drop_empty:
  assumes "hm_ok r"
  shows "hm_get (drop_empty r) h = (case hm_get r h of None \<Rightarrow> None | Some ls \<Rightarrow> if ls = [] then None else Some ls)"
  using assms by (induction r) (auto simp: drop_empty_def map_of_eq_None_iff split: option.splits)

lemma leases_of_sweep: "hm_ok r \<Longrightarrow> leases_of (sweep now r) h = live now (leases_of r h)"
  by (auto simp: leases_of_def sweep_def hm_get_drop_empty live_def split: option.splits)

lemma hm_get_snapshot: "hm_get (snapshot r) h = map_option (map fst) (hm_get r h)"
  by (induction r) (auto simp: snapshot_def)

lemma set_hm_insert_vals: "snd ` set (hm_insert m k v) \<subseteq> insert v (snd ` set m)"
  by (induction m) (auto simp: hm_insert_def)

text \<open>The state a successful registration leaves.\<close>

definition registered :: "nat \<Rightarrow> u32 \<Rightarrow> socket_addr \<Rightarrow> telemetry_plane \<Rightarrow> (u32, leases) hm" where
  "registered now h a st = (let r = sweep now (tel_registry st) in
     hm_insert r h (hm_insert (leases_of r h) a now))"

definition accepts :: "nat \<Rightarrow> u32 \<Rightarrow> socket_addr \<Rightarrow> telemetry_plane \<Rightarrow> bool" where
  "accepts now h a st \<longleftrightarrow> (let r = sweep now (tel_registry st) in
     \<not> tel_poisoned st
   \<and> (hm_has r h \<or> length r < MAX_TELEMETRY_CHANNELS)
   \<and> (hm_has (leases_of r h) a \<or> length (leases_of r h) < MAX_TELEMETRY_SUBSCRIBERS))"

lemma hm_insert_not_Nil: "hm_insert m k v \<noteq> []"
  by (cases m) (auto simp: hm_insert_def)

lemma hm_insert_twice: "hm_insert (hm_insert m k v) k w = hm_insert m k w"
  by (induction m) (auto simp: hm_insert_def)

lemma register_accepted:
  assumes "accepts now h a st"
  shows "register_telemetry now h a st =
    (True, st\<lparr>tel_registry := registered now h a st, tel_published := snapshot (registered now h a st)\<rparr>)"
proof -
  define r where "r = sweep now (tel_registry st)"
  show ?thesis
    using assms
    unfolding register_telemetry_def accepts_def registered_def r_def [symmetric] Let_def
    by (cases "hm_get r h") (auto simp: leases_of_def hm_insert_twice MAX_TELEMETRY_SUBSCRIBERS_def)
qed

lemma register_refused:
  assumes "\<not> accepts now h a st"
  shows "register_telemetry now h a st = (False, if tel_poisoned st then st
    else st\<lparr>tel_registry := sweep now (tel_registry st)\<rparr>)"
proof -
  define r where "r = sweep now (tel_registry st)"
  have "drop_empty r = r" by (simp add: r_def sweep_def drop_empty_def)
  then show ?thesis
    using assms
    unfolding register_telemetry_def accepts_def r_def [symmetric] Let_def
    by (cases "hm_get r h") (auto simp: leases_of_def MAX_TELEMETRY_SUBSCRIBERS_def)
qed

lemma relay_ok_registered:
  assumes ok: "relay_ok st" and acc: "accepts now h a st"
  shows "hm_ok (registered now h a st)" "length (registered now h a st) \<le> MAX_TELEMETRY_CHANNELS"
    "\<forall>ls \<in> snd ` set (registered now h a st). leases_ok ls"
proof -
  define r where "r = sweep now (tel_registry st)"
  have rok: "hm_ok r" using ok by (simp add: r_def relay_ok_def hm_ok_sweep)
  have rleases: "leases_ok ls" if "ls \<in> snd ` set r" for ls
    using ok that sweep_leases [of "tel_registry st" ls now] by (auto simp: r_def relay_ok_def)
  have rlen: "length r \<le> MAX_TELEMETRY_CHANNELS"
    using ok length_sweep [of now "tel_registry st"] by (simp add: r_def relay_ok_def)
  have reg: "registered now h a st = hm_insert r h (hm_insert (leases_of r h) a now)"
    by (simp add: registered_def r_def Let_def)
  show "hm_ok (registered now h a st)" using rok reg by simp
  show "length (registered now h a st) \<le> MAX_TELEMETRY_CHANNELS"
    using acc rlen rok by (auto simp: reg length_hm_insert accepts_def r_def Let_def)
  have of: "leases_of r h = [] \<or> leases_ok (leases_of r h)"
  proof (cases "hm_get r h")
    case (Some ls)
    then have "ls \<in> snd ` set r" by (metis image_eqI map_of_SomeD snd_conv)
    then show ?thesis using rleases Some by (simp add: leases_of_def)
  qed (simp add: leases_of_def)
  define ls1 where "ls1 = hm_insert (leases_of r h) a now"
  have "hm_ok ls1" using of by (auto simp: leases_ok_def ls1_def)
  moreover have "length ls1 \<le> MAX_TELEMETRY_SUBSCRIBERS"
    using acc of by (auto simp: ls1_def length_hm_insert accepts_def r_def Let_def leases_ok_def)
  moreover have "ls1 \<noteq> []" by (simp add: ls1_def hm_insert_not_Nil)
  ultimately have "leases_ok ls1" by (simp add: leases_ok_def)
  moreover have "registered now h a st = hm_insert r h ls1" by (simp add: reg ls1_def)
  moreover have "snd ` set (hm_insert r h ls1) \<subseteq> insert ls1 (snd ` set r)" by (rule set_hm_insert_vals)
  ultimately show "\<forall>ls \<in> snd ` set (registered now h a st). leases_ok ls"
    using rleases by auto
qed

lemma relay_ok_register: "relay_ok st \<Longrightarrow> relay_ok (snd (register_telemetry now h a st))"
proof (cases "accepts now h a st")
  case True
  assume "relay_ok st"
  note ok = relay_ok_registered [OF this True]
  then show ?thesis unfolding register_accepted [OF True]
    by (auto simp: relay_ok_def snapshot_def leases_ok_def case_prod_unfold comp_def)
next
  case False
  assume ok: "relay_ok st"
  have "leases_ok ls" if "ls \<in> snd ` set (sweep now (tel_registry st))" for ls
    by (rule sweep_leases [OF _ that]) (use ok in \<open>simp add: relay_ok_def\<close>)
  then show ?thesis unfolding register_refused [OF False]
    using ok length_sweep [of now "tel_registry st"] by (auto simp: relay_ok_def hm_ok_sweep)
qed

lemma relay_ok_step: "relay_ok st \<Longrightarrow> relay_ok (relay_step own a st)"
  by (simp add: relay_step_def relay_datagram_def Let_def relay_ok_register split: option.splits)

lemma relay_ok_run: "relay_ok st \<Longrightarrow> relay_ok (relay_run own as st)"
  by (induction as arbitrary: st) (simp_all add: relay_run_def relay_ok_step)

lemma relay_ok_new: "relay_ok telemetry_new"
  by (simp add: relay_ok_def telemetry_new_def)

subsection \<open>What a registration gives\<close>

definition holds_lease :: "u32 \<Rightarrow> socket_addr \<Rightarrow> nat \<Rightarrow> telemetry_plane \<Rightarrow> bool" where
  "holds_lease h a t st \<longleftrightarrow> (\<exists>seen \<ge> t. hm_get (leases_of (tel_registry st) h) a = Some seen)
     \<and> a \<in> set (targets st h)"

lemma targets_snapshot: "tel_published st = snapshot r \<Longrightarrow> set (targets st h) = fst ` set (leases_of r h)"
  by (cases "hm_get r h") (simp_all add: targets_def hm_get_snapshot leases_of_def)

lemma mem_keys: "hm_get m a = Some s \<Longrightarrow> a \<in> fst ` set m"
  by (metis fst_conv image_eqI map_of_SomeD)

lemma leases_of_registered:
  assumes "hm_ok (tel_registry st)"
  shows "leases_of (registered now h a st) h' =
    (if h' = h then hm_insert (live now (leases_of (tel_registry st) h)) a now
     else live now (leases_of (tel_registry st) h'))"
  using leases_of_sweep [OF assms, of now] by (simp add: registered_def Let_def leases_of_def)

lemma hm_get_live:
  "hm_ok ls \<Longrightarrow> hm_get ls a = Some seen \<Longrightarrow> now < seen + TELEMETRY_TTL \<Longrightarrow> hm_get (live now ls) a = Some seen"
proof -
  assume "hm_ok ls" "hm_get ls a = Some seen" "now < seen + TELEMETRY_TTL"
  then have "(a, seen) \<in> set (live now ls)"
    using hm_get_mem [of ls a seen] by (auto simp: live_def TELEMETRY_TTL_def)
  then show ?thesis using \<open>hm_ok ls\<close> live_props(1) hm_get_mem by metis
qed

lemma hm_ok_leases_of: "relay_ok st \<Longrightarrow> hm_ok (leases_of (tel_registry st) h)"
proof (cases "hm_get (tel_registry st) h")
  case (Some ls)
  assume "relay_ok st"
  moreover have "ls \<in> snd ` set (tel_registry st)" using Some by (metis image_eqI map_of_SomeD snd_conv)
  ultimately show ?thesis using Some by (auto simp: relay_ok_def leases_ok_def leases_of_def)
qed (simp add: leases_of_def)

lemma lease_gained:
  assumes "relay_ok st" and "accepts now h a st"
  shows "holds_lease h a now (snd (register_telemetry now h a st))"
proof -
  have ok: "hm_ok (tel_registry st)" using assms(1) by (simp add: relay_ok_def)
  have "hm_get (leases_of (registered now h a st) h) a = Some now"
    by (simp add: leases_of_registered [OF ok])
  then show ?thesis
    using mem_keys targets_snapshot [of "snd (register_telemetry now h a st)" "registered now h a st" h]
    by (auto simp: holds_lease_def register_accepted [OF assms(2)])
qed

lemma lease_kept:
  assumes ok: "relay_ok st" and lease: "holds_lease h a t st" and now: "t \<le> now" "now < t + TELEMETRY_TTL"
  shows "holds_lease h a t (snd (register_telemetry now h' a' st))"
proof -
  obtain seen where seen: "t \<le> seen" "hm_get (leases_of (tel_registry st) h) a = Some seen"
    and target: "a \<in> set (targets st h)"
    using lease by (auto simp: holds_lease_def)
  have rok: "hm_ok (tel_registry st)" using ok by (simp add: relay_ok_def)
  have still: "hm_get (live now (leases_of (tel_registry st) h)) a = Some seen"
    by (rule hm_get_live [OF hm_ok_leases_of [OF ok] seen(2)]) (use seen(1) now in simp)
  show ?thesis
  proof (cases "accepts now h' a' st")
    case True
    have "\<exists>s \<ge> t. hm_get (leases_of (registered now h' a' st) h) a = Some s"
      using still seen(1) now(1) by (auto simp: leases_of_registered [OF rok])
    then show ?thesis
      using mem_keys targets_snapshot [of "snd (register_telemetry now h' a' st)" "registered now h' a' st" h]
      by (auto simp: holds_lease_def register_accepted [OF True])
  next
    case False
    then show ?thesis
      using still seen target leases_of_sweep [OF rok, of now h]
      by (auto simp: holds_lease_def register_refused targets_def)
  qed
qed

lemma lease_kept_step:
  assumes "relay_ok st" "holds_lease h a t st" "t \<le> arr_now x" "arr_now x < t + TELEMETRY_TTL"
  shows "holds_lease h a t (relay_step own x st)"
  using lease_kept [OF assms] assms(2)
  by (simp add: relay_step_def relay_datagram_def Let_def split: option.splits)

lemma lease_kept_run:
  assumes "relay_ok st" "holds_lease h a t st" "\<forall>x \<in> set xs. t \<le> arr_now x \<and> arr_now x < t + TELEMETRY_TTL"
  shows "holds_lease h a t (relay_run own xs st)"
  using assms
  by (induction xs arbitrary: st) (simp_all add: relay_run_def lease_kept_step relay_ok_step)

text \<open>C34. Whatever arrives on the telemetry port, and in whatever order, the relay keeps at most
  \<open>MAX_TELEMETRY_CHANNELS\<close> channels of at most \<open>MAX_TELEMETRY_SUBSCRIBERS\<close> leases each, and a
  datagram makes it send at most \<open>MAX_TELEMETRY_SUBSCRIBERS\<close> others: each a copy of what
  arrived, to pairwise different addresses, none of them on the relay's own port, and only
  to the published subscribers of the channel named in its header.\<close>

theorem relay_amplification_bounded:
  "let st = relay_run own before telemetry_new;
       (st', sent) = relay_datagram own now from received st
   in relay_ok st' \<and> length sent \<le> MAX_TELEMETRY_SUBSCRIBERS \<and> distinct (map fst sent)
    \<and> (sent \<noteq> [] \<longrightarrow> st' = st \<and> (\<exists>h ts p. tel_decode (take MAX_DATAGRAM received) = Some (h, ts, p)
        \<and> (\<forall>(target, bytes) \<in> set sent. bytes = take MAX_DATAGRAM received \<and> own \<noteq> Some (addr_port target)
             \<and> target \<in> set (targets st h))))"
proof -
  define st where "st = relay_run own before telemetry_new"
  have ok: "relay_ok st" unfolding st_def by (rule relay_ok_run [OF relay_ok_new])
  have ok': "relay_ok (fst (relay_datagram own now from received st))"
    using relay_ok_step [OF ok, of own "\<lparr>arr_now = now, arr_from = from, arr_bytes = received\<rparr>"]
    by (simp add: relay_step_def)
  have targets: "distinct (targets st h) \<and> length (targets st h) \<le> MAX_TELEMETRY_SUBSCRIBERS" for h
  proof (cases "hm_get (tel_published st) h")
    case (Some ts)
    then have "ts \<in> snd ` set (tel_published st)" by (metis image_eqI map_of_SomeD snd_conv)
    with ok Some show ?thesis by (auto simp: relay_ok_def targets_def)
  qed (simp add: targets_def)
  have "length (filter P (targets st h)) \<le> MAX_TELEMETRY_SUBSCRIBERS" for P h
    using targets [of h] length_filter_le [of P "targets st h"] by linarith
  then show ?thesis
    unfolding st_def [symmetric] using ok' targets
    by (auto simp: relay_datagram_def Let_def comp_def split: option.splits)
qed

lemma relay_one_sample:
  "relay_run (Some 5) [\<lparr>arr_now = 0, arr_from = SocketAddr [127] 9, arr_bytes = datagram MAGIC_REGISTER 7 0 []\<rparr>]
     telemetry_new = \<lparr>tel_registry = [(7, [(SocketAddr [127] 9, 0)])],
       tel_published = [(7, [SocketAddr [127] 9])], tel_poisoned = False\<rparr>"
proof -
  have "take MAX_DATAGRAM (datagram MAGIC_REGISTER 7 0 []) = datagram MAGIC_REGISTER 7 0 []"
    "decode_registration (datagram MAGIC_REGISTER 7 0 []) = Some 7"
    using decode_with_datagram [of "[]" MAGIC_REGISTER 7 0 "[]"]
    by (simp_all add: MAX_DATAGRAM_def HEADER_LEN_def decode_registration_def)
  then show ?thesis
    by (simp add: relay_run_def relay_step_def relay_datagram_def register_telemetry_def telemetry_new_def
        sweep_def drop_empty_def hm_map_def leases_of_def snapshot_def hm_insert_def
        MAX_TELEMETRY_CHANNELS_def MAX_TELEMETRY_SUBSCRIBERS_def Let_def)
qed

theorem relay_amplification_bounded_witness:
  "let st = relay_run (Some 5) [\<lparr>arr_now = 0, arr_from = SocketAddr [127] 9,
         arr_bytes = datagram MAGIC_REGISTER 7 0 []\<rparr>] telemetry_new;
       sent = snd (relay_datagram (Some 5) 3 (SocketAddr [127] 8) (datagram MAGIC 7 1 [5]) st)
   in sent \<noteq> [] \<and> length sent \<le> MAX_TELEMETRY_SUBSCRIBERS \<and> (\<forall>t \<in> fst ` set sent. addr_port t \<noteq> 5)"
proof -
  have dec: "take MAX_DATAGRAM (datagram MAGIC 7 1 [5]) = datagram MAGIC 7 1 [5]"
    "tel_decode (datagram MAGIC 7 1 [5]) = Some (7, 1, [5])"
    using decode_with_datagram [of "[5]" MAGIC 7 1 "[]"]
    by (simp_all add: MAX_DATAGRAM_def HEADER_LEN_def tel_decode_def)
  then have "decode_registration (datagram MAGIC 7 1 [5]) = None" using not_both by force
  then show ?thesis
    using relay_amplification_bounded [of "Some 5" "[\<lparr>arr_now = 0, arr_from = SocketAddr [127] 9,
         arr_bytes = datagram MAGIC_REGISTER 7 0 []\<rparr>]" 3 "SocketAddr [127] 8" "datagram MAGIC 7 1 [5]"] dec
    by (simp add: relay_one_sample relay_datagram_def targets_def Let_def)
qed

text \<open>A registration is accepted exactly when the address already holds a live lease of the
  channel or there is room for it: a live channel with a free place, or a new channel below the channel
  cap.  Refreshing a live lease therefore always succeeds.  Once accepted, the address
  receives a copy of every data datagram of that channel that arrives within
  \<open>TELEMETRY_TTL\<close> of the registration, whatever else arrived in between, unless it is on the
  relay's own port; a refused registration changes no published route.\<close>

lemma registration_lease:
  assumes ok: "relay_ok st" and healthy: "\<not> tel_poisoned st"
  shows "case register_telemetry now h a st of (accepted, st') \<Rightarrow>
      (let r = sweep now (tel_registry st) in
       accepted \<longleftrightarrow> hm_has (leases_of r h) a
        \<or> (hm_has r h \<and> length (leases_of r h) < MAX_TELEMETRY_SUBSCRIBERS)
        \<or> (\<not> hm_has r h \<and> length r < MAX_TELEMETRY_CHANNELS))
    \<and> (\<not> accepted \<longrightarrow> tel_published st' = tel_published st)
    \<and> (accepted \<and> (\<forall>x \<in> set between. now \<le> arr_now x \<and> arr_now x < now + TELEMETRY_TTL)
        \<and> tel_decode (take MAX_DATAGRAM received) = Some (h, ts, p) \<and> own \<noteq> Some (addr_port a)
       \<longrightarrow> (a, take MAX_DATAGRAM received) \<in>
             set (snd (relay_datagram own later from received (relay_run own between st'))))"
proof -
  define r where "r = sweep now (tel_registry st)"
  have acc: "accepts now h a st \<longleftrightarrow> hm_has (leases_of r h) a
        \<or> (hm_has r h \<and> length (leases_of r h) < MAX_TELEMETRY_SUBSCRIBERS)
        \<or> (\<not> hm_has r h \<and> length r < MAX_TELEMETRY_CHANNELS)"
    unfolding accepts_def r_def [symmetric] Let_def using healthy
    by (cases "hm_get r h") (auto simp: leases_of_def MAX_TELEMETRY_SUBSCRIBERS_def)
  show ?thesis
  proof (cases "accepts now h a st")
    case False
    with acc show ?thesis by (simp add: register_refused r_def Let_def)
  next
    case True
    define st' where "st' = snd (register_telemetry now h a st)"
    have "holds_lease h a now st'" unfolding st'_def by (rule lease_gained [OF ok True])
    then have "a \<in> set (targets (relay_run own between st') h)"
      if "\<forall>x \<in> set between. now \<le> arr_now x \<and> arr_now x < now + TELEMETRY_TTL"
      using lease_kept_run [OF _ _ that] relay_ok_register [OF ok] by (auto simp: st'_def holds_lease_def)
    moreover have "decode_registration (take MAX_DATAGRAM received) = None"
      if "tel_decode (take MAX_DATAGRAM received) = Some (h, ts, p)"
      using that not_both by force
    moreover have "register_telemetry now h a st = (True, st')"
      using True by (simp add: st'_def register_accepted)
    ultimately show ?thesis
      using True acc by (auto simp: r_def [symmetric] relay_datagram_def Let_def)
  qed
qed

end
