(* ===== verification/Ws_Server.thy ===== *)
theory Ws_Server
  imports Nt_Registry_Props Transport
begin

text \<open>
  The NT4 server, \<^verbatim>\<open>core/src/websocket/server.rs\<close>: what a connection's thread does with each
  payload, and the life of a connection from the accept loop to its teardown, around one registry
  and one connection map.

  The control handler and the value sink are closures the server is given; \<open>host\<close> holds them with
  the environment and the JSON parser, and \<open>ws_app\<close> is the state those closures share.  A thread
  holds a lock for one turn at a time, so that the interleaving of threads is a sequence of turns of
  \<open>thread_turn\<close>; the functions named as in the source run a payload to its end.
\<close>

section \<open>State\<close>

definition MAX_CONNECTIONS :: nat where "MAX_CONNECTIONS = 32"

datatype route_outcome = Dispatch routes | ControlReply bytes | Close

record 'a ws_server =
  ws_registry :: nt_registry
  ws_conns :: connection_map
  ws_sockets :: "client_id list"
  ws_live :: nat
  ws_app :: 'a

record 'a host =
  host_env :: env
  host_parse :: "string \<Rightarrow> json option"
  host_control :: "bytes \<Rightarrow> 'a ws_server \<Rightarrow> bytes option \<times> 'a ws_server"
  host_sink :: "string \<Rightarrow> nt_value \<Rightarrow> 'a \<Rightarrow> 'a"

definition ws_server_new :: "'a \<Rightarrow> 'a ws_server" where
  "ws_server_new app = \<lparr> ws_registry = registry_new, ws_conns = connection_map_new, ws_sockets = [],
     ws_live = 0, ws_app = app \<rparr>"

text \<open>The handler and the sink of a server bound without them.\<close>

definition noop_handler :: "bytes \<Rightarrow> 'a ws_server \<Rightarrow> bytes option \<times> 'a ws_server" where
  "noop_handler p s = (None, s)"

definition noop_sink :: "string \<Rightarrow> nt_value \<Rightarrow> 'a \<Rightarrow> 'a" where
  "noop_sink name v a = a"

definition plain_host :: "env \<Rightarrow> (string \<Rightarrow> json option) \<Rightarrow> 'a host" where
  "plain_host E parse = \<lparr> host_env = E, host_parse = parse, host_control = noop_handler, host_sink = noop_sink \<rparr>"

section \<open>Routing a payload\<close>

definition arrival_timestamp :: "u64 \<Rightarrow> u64 \<Rightarrow> u64" where
  "arrival_timestamp sent now = (if sent = 0 \<or> sent > now then now else sent)"

fun json_to_xtvalue :: "json \<Rightarrow> nt_value" where
  "json_to_xtvalue (JBool b) = VBool b"
| "json_to_xtvalue (JNumber n) =
     (case num_as_f64 n of
        Some f \<Rightarrow> VDouble f
      | None \<Rightarrow> (case num_as_i64 n of Some i \<Rightarrow> VInt64 i | None \<Rightarrow> VInt64 0))"
| "json_to_xtvalue (JString s) = VString s"
| "json_to_xtvalue _ = VString []"

definition option_flag :: "jmap \<Rightarrow> string \<Rightarrow> bool" where
  "option_flag options key = (case Option.bind (om_get options key) json_as_bool of Some b \<Rightarrow> b | None \<Rightarrow> False)"

fun route_control :: "env \<Rightarrow> client_id \<Rightarrow> control_message \<Rightarrow> nt_registry \<Rightarrow> route_outcome \<times> nt_registry" where
  "route_control E c (Publish name pubuid data_type properties) r =
     map_prod Dispatch id (handle_publish E c name pubuid data_type properties r)"
| "route_control E c (Unpublish pubuid) r = map_prod Dispatch id (handle_unpublish E c pubuid r)"
| "route_control E c (Subscribe patterns subuid options) r =
     map_prod Dispatch id (handle_subscribe E c patterns subuid (option_flag options ''prefix'')
       (option_flag options ''topicsonly'') options r)"
| "route_control E c (SetProperties name update) r = map_prod Dispatch id (handle_setproperties E c name update r)"
| "route_control E c (Unsubscribe subuid) r = map_prod Dispatch id (handle_unsubscribe E c subuid r)"
| "route_control E c (Timestamp _ v) r =
     (let (server_ts, r) = now_micros E r in
      map_prod Dispatch id (handle_timestamp c (json_to_xtvalue v) server_ts r))"
| "route_control E c _ r = (Dispatch [], r)"

fun route_messages :: "env \<Rightarrow> client_id \<Rightarrow> control_message list \<Rightarrow> routes \<Rightarrow> nt_registry \<Rightarrow> route_outcome \<times> nt_registry" where
  "route_messages E c [] routes r = (Dispatch routes, r)"
| "route_messages E c (m # ms) routes r =
     (case route_control E c m r of
        (Dispatch rs, r) \<Rightarrow> route_messages E c ms (routes @ rs) r
      | (other, r) \<Rightarrow> (other, r))"

definition route_text :: "'a host \<Rightarrow> client_id \<Rightarrow> string \<Rightarrow> nt_registry \<Rightarrow> route_outcome \<times> nt_registry" where
  "route_text H c text r =
     (case from_json_batch (host_parse H) text of
        Inl _ \<Rightarrow> (Close, r)
      | Inr messages \<Rightarrow> route_messages (host_env H) c messages [] r)"

text \<open>One value of a binary frame, under the registry's lock: the answer to a time exchange, nothing for
  an unknown publisher, or the value conformed to its topic, stamped, fanned out and, when the
  topic accepts it, handed to the value sink.\<close>

definition route_value :: "'a host \<Rightarrow> client_id \<Rightarrow> value_message \<Rightarrow> 'a ws_server \<Rightarrow> routes \<times> 'a ws_server" where
  "route_value H c vm s =
     (let r = ws_registry s in
      if vm_topic_id vm = RTT_TOPIC_ID then
        let (server_ts, r) = now_micros (host_env H) r;
            (routes, r) = handle_timestamp c (vm_value vm) server_ts r
        in (routes, s\<lparr> ws_registry := r \<rparr>)
      else case topic_id_for_pubuid c (vm_topic_id vm) r of
        None \<Rightarrow> ([], s)
      | Some i \<Rightarrow>
          let v = conform i (vm_value vm) r;
              (now, r) = now_micros (host_env H) r;
              stamp = arrival_timestamp (vm_timestamp_micros vm) now;
              accepted = accepts_value i v r;
              (routes, r) = handle_topic_value i v stamp r;
              app = (if accepted then case topic_name i r of Some name \<Rightarrow> host_sink H name v (ws_app s) | None \<Rightarrow> ws_app s
                     else ws_app s)
          in (routes, s\<lparr> ws_registry := r, ws_app := app \<rparr>))"

fun route_values :: "'a host \<Rightarrow> client_id \<Rightarrow> value_message list \<Rightarrow> routes \<Rightarrow> 'a ws_server \<Rightarrow> routes \<times> 'a ws_server" where
  "route_values H c [] routes s = (routes, s)"
| "route_values H c (vm # vms) routes s =
     (let (rs, s) = route_value H c vm s in route_values H c vms (routes @ rs) s)"

definition route_binary :: "'a host \<Rightarrow> client_id \<Rightarrow> bytes \<Rightarrow> 'a ws_server \<Rightarrow> route_outcome \<times> 'a ws_server" where
  "route_binary H c payload s =
     (case vm_decode_all payload of
        Inr messages \<Rightarrow> map_prod Dispatch id (route_values H c messages [] s)
      | Inl _ \<Rightarrow>
          (case host_control H payload s of
             (Some reply, s) \<Rightarrow> (ControlReply reply, s)
           | (None, s) \<Rightarrow>
               (case from_utf8 payload of
                  Some text \<Rightarrow> let (out, r) = route_text H c text (ws_registry s) in (out, s\<lparr> ws_registry := r \<rparr>)
                | None \<Rightarrow> (Close, s))))"

section \<open>Serving a connection\<close>

text \<open>How the sockets and the writers' locks behave while frames are dispatched.\<close>

record weather =
  w_socks :: "client_id \<Rightarrow> nat \<Rightarrow> bool"
  w_free :: "client_id \<Rightarrow> bool"

definition send_routes :: "weather \<Rightarrow> routes \<Rightarrow> 'a ws_server \<Rightarrow> 'a ws_server" where
  "send_routes w routes s = s\<lparr> ws_conns := snd (dispatch (w_socks w) (w_free w) routes (ws_conns s)) \<rparr>"

fun apply_outcome :: "weather \<Rightarrow> client_id \<Rightarrow> route_outcome \<Rightarrow> 'a ws_server \<Rightarrow> bool \<times> 'a ws_server" where
  "apply_outcome w c (Dispatch routes) s = (True, if routes = [] then s else send_routes w routes s)"
| "apply_outcome w c (ControlReply reply) s = (True, send_routes w [(c, ValueFrame reply)] s)"
| "apply_outcome w c Close s = (False, s\<lparr> ws_conns := send_close c 1002 ''malformed payload'' (ws_conns s) \<rparr>)"

text \<open>One turn of the loop of \<open>serve_connection\<close>: whether it goes on, and the server after it.\<close>

definition serve_payload :: "'a host \<Rightarrow> weather \<Rightarrow> client_id \<Rightarrow> payload \<Rightarrow> 'a ws_server \<Rightarrow> bool \<times> 'a ws_server" where
  "serve_payload H w c p s =
     (let (out, s) = (case p of
            Binary bs \<Rightarrow> route_binary H c bs s
          | PText text \<Rightarrow> let (out, r) = route_text H c text (ws_registry s) in (out, s\<lparr> ws_registry := r \<rparr>))
      in apply_outcome w c out s)"

text \<open>Values the server publishes itself.\<close>

definition fan_out :: "weather \<Rightarrow> string \<Rightarrow> nt_value \<Rightarrow> u64 \<Rightarrow> 'a ws_server \<Rightarrow> 'a ws_server" where
  "fan_out w name v ts s =
     (case registry_topic_id name (ws_registry s) of
        None \<Rightarrow> s
      | Some i \<Rightarrow> let (routes, r) = handle_topic_value i v ts (ws_registry s)
                  in send_routes w routes (s\<lparr> ws_registry := r \<rparr>))"

definition fan_out_upsert_with ::
  "weather \<Rightarrow> string \<Rightarrow> u64 \<Rightarrow> ('a \<Rightarrow> nt_value option \<times> 'a) \<Rightarrow> 'a ws_server \<Rightarrow> 'a ws_server" where
  "fan_out_upsert_with w name ts decide s =
     (let (v, app) = decide (ws_app s); s = s\<lparr> ws_app := app \<rparr> in
      case v of
        None \<Rightarrow> s
      | Some v \<Rightarrow> let (routes, r) = handle_upsert_value name v ts (ws_registry s)
                  in send_routes w routes (s\<lparr> ws_registry := r \<rparr>))"

definition fan_out_upsert :: "weather \<Rightarrow> string \<Rightarrow> nt_value \<Rightarrow> u64 \<Rightarrow> 'a ws_server \<Rightarrow> 'a ws_server" where
  "fan_out_upsert w name v ts s = fan_out_upsert_with w name ts (\<lambda>app. (Some v, app)) s"

definition dropped_publishes :: "'a ws_server \<Rightarrow> nat" where
  "dropped_publishes s = dropped_total (ws_conns s)"

text \<open>A connection accepted for time exchanges only: the answers to one frame, batched.\<close>

definition serve_rtt :: "(nat \<Rightarrow> u64) \<Rightarrow> payload \<Rightarrow> bytes option" where
  "serve_rtt now p =
     (case p of
        PText _ \<Rightarrow> None
      | Binary bs \<Rightarrow>
          (case vm_decode_all bs of
             Inl _ \<Rightarrow> None
           | Inr messages \<Rightarrow>
               let asked = filter (\<lambda>m. vm_topic_id m = RTT_TOPIC_ID) messages in
               if asked = [] then None
               else Some (concat (map (\<lambda>(k, m). encode_once (vm_value m) (now k) RTT_TOPIC_ID) (enumerate 0 asked)))))"

section \<open>The life of a connection\<close>

datatype thread_phase =
    Handshaking
  | Joining string string
  | Welcoming routes
  | Reading
  | RoutingValues "value_message list" routes
  | RoutingControls "control_message list" routes
  | Outcome route_outcome
  | Leaving
  | Removed
  | Departing routes
  | Finished

text \<open>What one turn of a thread meets: the handshake's name and peer (or a refused or time-only
  connection), the next payload (or a failed read), and the sockets.\<close>

record turn_input =
  in_handshake :: "(string \<times> string) option"
  in_recv :: "payload option"
  in_weather :: weather

fun begin_payload :: "'a host \<Rightarrow> payload \<Rightarrow> 'a ws_server \<Rightarrow> thread_phase \<times> 'a ws_server" where
  "begin_payload H (PText text) s =
     (case from_json_batch (host_parse H) text of
        Inl _ \<Rightarrow> (Outcome Close, s)
      | Inr ms \<Rightarrow> (RoutingControls ms [], s))"
| "begin_payload H (Binary bs) s =
     (case vm_decode_all bs of
        Inr vms \<Rightarrow> (RoutingValues vms [], s)
      | Inl _ \<Rightarrow>
          (case host_control H bs s of
             (Some reply, s) \<Rightarrow> (Outcome (ControlReply reply), s)
           | (None, s) \<Rightarrow>
               (case from_utf8 bs of
                  Some text \<Rightarrow> (case from_json_batch (host_parse H) text of
                      Inl _ \<Rightarrow> (Outcome Close, s)
                    | Inr ms \<Rightarrow> (RoutingControls ms [], s))
                | None \<Rightarrow> (Outcome Close, s))))"

fun thread_turn :: "'a host \<Rightarrow> turn_input \<Rightarrow> client_id \<Rightarrow> thread_phase \<Rightarrow> 'a ws_server \<Rightarrow> thread_phase \<times> 'a ws_server" where
  "thread_turn H x c Handshaking s =
     (case in_handshake x of
        None \<Rightarrow> (Finished, s)
      | Some (name, peer) \<Rightarrow>
          (Joining name peer, s\<lparr> ws_sockets := List.insert c (ws_sockets s),
             ws_conns := add_client c conn_new (ws_conns s) \<rparr>))"
| "thread_turn H x c (Joining name peer) s =
     (let (routes, r) = on_connect (host_env H) c name peer (ws_registry s)
      in (Welcoming routes, s\<lparr> ws_registry := r \<rparr>))"
| "thread_turn H x c (Welcoming routes) s = (Reading, send_routes (in_weather x) routes s)"
| "thread_turn H x c Reading s =
     (case in_recv x of None \<Rightarrow> (Leaving, s) | Some p \<Rightarrow> begin_payload H p s)"
| "thread_turn H x c (RoutingValues [] routes) s = (Outcome (Dispatch routes), s)"
| "thread_turn H x c (RoutingValues (vm # vms) routes) s =
     (let (rs, s) = route_value H c vm s in (RoutingValues vms (routes @ rs), s))"
| "thread_turn H x c (RoutingControls [] routes) s = (Outcome (Dispatch routes), s)"
| "thread_turn H x c (RoutingControls (m # ms) routes) s =
     (case route_control (host_env H) c m (ws_registry s) of
        (Dispatch rs, r) \<Rightarrow> (RoutingControls ms (routes @ rs), s\<lparr> ws_registry := r \<rparr>)
      | (other, r) \<Rightarrow> (Outcome other, s\<lparr> ws_registry := r \<rparr>))"
| "thread_turn H x c (Outcome out) s =
     (let (go, s) = apply_outcome (in_weather x) c out s in (if go then Reading else Leaving, s))"
| "thread_turn H x c Leaving s =
     (Removed, s\<lparr> ws_sockets := removeAll c (ws_sockets s), ws_conns := remove_client c (ws_conns s) \<rparr>)"
| "thread_turn H x c Removed s =
     (let (routes, r) = on_disconnect (host_env H) c (ws_registry s)
      in (Departing routes, s\<lparr> ws_registry := r \<rparr>))"
| "thread_turn H x c (Departing routes) s = (Finished, send_routes (in_weather x) routes s)"
| "thread_turn H x c Finished s = (Finished, s)"

text \<open>The whole server: how many connections the accept loop has taken, which numbers them modulo
  \<open>2 ^ 64\<close>, and the connection threads.  Restarting the server runs a new accept loop, whose numbers
  start over; the threads of the old connections end on their own.\<close>

record 'a ws_system =
  sys_server :: "'a ws_server"
  sys_accepted :: nat
  sys_threads :: "(client_id \<times> thread_phase) list"

definition ws_system_new :: "'a \<Rightarrow> 'a ws_system" where
  "ws_system_new app = \<lparr> sys_server = ws_server_new app, sys_accepted = 0, sys_threads = [] \<rparr>"

definition accept_one :: "'a ws_system \<Rightarrow> 'a ws_system" where
  "accept_one st =
     (let s = sys_server st in
      if ws_live s \<ge> MAX_CONNECTIONS then st
      else \<lparr> sys_server = s\<lparr> ws_live := ws_live s + 1 \<rparr>, sys_accepted = sys_accepted st + 1,
             sys_threads = sys_threads st @ [(of_nat (sys_accepted st), Handshaking)] \<rparr>)"

inductive ws_step :: "'a host \<Rightarrow> 'a ws_system \<Rightarrow> 'a ws_system \<Rightarrow> bool" for H where
  accept: "ws_step H st (accept_one st)"
| turn: "sys_threads st = before @ (c, ph) # after \<Longrightarrow>
    thread_turn H x c ph (sys_server st) = (ph', s) \<Longrightarrow>
    ws_step H st (st\<lparr> sys_server := s, sys_threads := before @ (c, ph') # after \<rparr>)"
| slot: "sys_threads st = before @ (c, Finished) # after \<Longrightarrow>
    ws_step H st (st\<lparr> sys_server := (sys_server st)\<lparr> ws_live := ws_live (sys_server st) - 1 \<rparr>,
      sys_threads := before @ after \<rparr>)"
| publish: "ws_step H st (st\<lparr> sys_server := fan_out_upsert w name v ts (sys_server st) \<rparr>)"
| load: "list_all entry_typed entries \<Longrightarrow>
    ws_step H st (st\<lparr> sys_server := (sys_server st)\<lparr> ws_registry :=
      restore_persistent entries ts (ws_registry (sys_server st)) \<rparr> \<rparr>)"
| drain: "hm_get (senders (ws_conns (sys_server st))) c = Some cn \<Longrightarrow>
    ws_step H st (st\<lparr> sys_server := (sys_server st)\<lparr> ws_conns := (ws_conns (sys_server st))\<lparr> senders :=
      hm_insert (senders (ws_conns (sys_server st))) c (snd (writer_round sock cn)) \<rparr> \<rparr> \<rparr>)"

inductive ws_reachable :: "'a host \<Rightarrow> 'a \<Rightarrow> 'a ws_system \<Rightarrow> bool" for H app where
  start: "ws_reachable H app (ws_system_new app)"
| step: "ws_reachable H app st \<Longrightarrow> ws_step H st st' \<Longrightarrow> ws_reachable H app st'"

definition restart :: "'a ws_system \<Rightarrow> 'a ws_system" where
  "restart st = st\<lparr> sys_accepted := 0 \<rparr>"

end
