(* ===== verification/Ws_Server_Props.thy ===== *)
theory Ws_Server_Props
  imports Ws_Server
begin

text \<open>
  What the NT4 server promises however its threads interleave: the registry only ever changes by
  the registry's own calls, connections stay within their cap and are numbered apart, and the
  connection map holds exactly the clients being served.  The contract the control handler has to
  keep is the locale \<open>ws_host\<close>.  The last part follows one published value from the frame it
  arrives in to the stream of a subscriber.
\<close>

section \<open>Dispatching keeps the set of clients\<close>

abbreviation sender_ids :: "'a ws_server \<Rightarrow> client_id set" where
  "sender_ids s \<equiv> fst ` set (senders (ws_conns s))"

lemma deliver_group_keys:
  "fst ` set (senders (snd (deliver_group socks free g (n, m)))) = fst ` set (senders m)"
  by (auto simp: deliver_group_def case_prod_beta keys_hm_insert hm_has_keys [symmetric] split: option.split)

lemma deliver_keys: "fst ` set (senders (snd (deliver socks free p m))) = fst ` set (senders m)"
proof -
  have "fst ` set (senders (snd (foldl (\<lambda>acc g. deliver_group socks free g acc) (k, m) gs))) = fst ` set (senders m)"
    for k gs
  proof (induction gs arbitrary: k m)
    case (Cons g gs)
    obtain k' m' where g: "deliver_group socks free g (k, m) = (k', m')" by fastforce
    with deliver_group_keys [of socks free g k m] Cons.IH [of k' m'] show ?case by simp
  qed simp
  then show ?thesis by (auto simp: deliver_def case_prod_beta Let_def)
qed

lemma send_routes_simps [simp]:
  "ws_registry (send_routes w routes s) = ws_registry s" "ws_live (send_routes w routes s) = ws_live s"
  "ws_app (send_routes w routes s) = ws_app s" "ws_sockets (send_routes w routes s) = ws_sockets s"
  "sender_ids (send_routes w routes s) = sender_ids s"
  by (simp_all add: send_routes_def dispatch_def deliver_keys)

lemma apply_outcome_simps [simp]:
  "ws_registry (snd (apply_outcome w c out s)) = ws_registry s"
  "ws_live (snd (apply_outcome w c out s)) = ws_live s"
  "ws_sockets (snd (apply_outcome w c out s)) = ws_sockets s"
  "ws_app (snd (apply_outcome w c out s)) = ws_app s"
  by (cases out; simp)+

lemma keys_hm_modify_set: "fst ` set (hm_modify m k f) = fst ` set m"
  by (metis keys_hm_modify list.set_map)

lemma apply_outcome_senders [simp]: "sender_ids (snd (apply_outcome w c out s)) = sender_ids s"
  by (cases out) (simp_all add: send_close_def keys_hm_modify_set)

section \<open>The registry changes by its own calls only\<close>

lemma reach_run: "reachable E r \<Longrightarrow> call_ok call \<Longrightarrow> reg_run E call r = (routes, r') \<Longrightarrow> reachable E r'"
  using reachable.call [of E r call] by simp

lemma reach_tick: "reachable E r \<Longrightarrow> reachable E (snd (now_micros E r))"
  using reachable.call [of E r CTick] by simp

lemma route_control_reachable:
  assumes "reachable E r"
  shows "reachable E (snd (route_control E c m r))"
proof (cases m)
  case (Publish name pubuid data_type properties)
  then show ?thesis using reachable.call [OF assms, of "CPublish c name pubuid data_type properties"] by simp
next
  case (Unpublish pubuid)
  then show ?thesis using reachable.call [OF assms, of "CUnpublish c pubuid"] by simp
next
  case (Subscribe patterns subuid options)
  then show ?thesis
    using reachable.call [OF assms, of "CSubscribe c patterns subuid (option_flag options ''prefix'')
        (option_flag options ''topicsonly'') options"] by simp
next
  case (SetProperties name update)
  then show ?thesis using reachable.call [OF assms, of "CSetProperties c name update"] by simp
next
  case (Unsubscribe subuid)
  then show ?thesis using reachable.call [OF assms, of "CUnsubscribe c subuid"] by simp
next
  case (Timestamp t v)
  obtain ts r1 where r1: "now_micros E r = (ts, r1)" by fastforce
  then have "reachable E r1" using reach_tick [OF assms] by simp
  then show ?thesis
    using reachable.call [of E r1 "CTimestamp c (json_to_xtvalue v) ts"] Timestamp r1 by simp
qed (use assms in simp_all)

lemma route_value_reachable:
  assumes "reachable (host_env H) (ws_registry s)"
  shows "reachable (host_env H) (ws_registry (snd (route_value H c vm s)))"
proof -
  obtain now r1 where r1: "now_micros (host_env H) (ws_registry s) = (now, r1)" by fastforce
  then have r1_reach: "reachable (host_env H) r1" using reach_tick [OF assms] by simp
  have "reachable (host_env H) (snd (handle_topic_value i v ts r1))" for i v ts
    using reachable.call [OF r1_reach, of "CTopicValue i v ts"] by simp
  moreover have "reachable (host_env H) (snd (handle_timestamp c v ts r1))" for v ts
    using reachable.call [OF r1_reach, of "CTimestamp c v ts"] by simp
  ultimately show ?thesis
    using assms r1 by (simp add: route_value_def case_prod_beta Let_def split: option.split)
qed

lemma route_value_simps [simp]:
  "ws_live (snd (route_value H c vm s)) = ws_live s" "ws_conns (snd (route_value H c vm s)) = ws_conns s"
  "ws_sockets (snd (route_value H c vm s)) = ws_sockets s"
  by (simp_all add: route_value_def case_prod_beta Let_def split: option.split)

lemma fan_out_upsert_with_simps [simp]:
  "ws_live (fan_out_upsert_with w name ts decide s) = ws_live s"
  "ws_sockets (fan_out_upsert_with w name ts decide s) = ws_sockets s"
  "sender_ids (fan_out_upsert_with w name ts decide s) = sender_ids s"
  by (simp_all add: fan_out_upsert_with_def case_prod_beta Let_def split: option.split)

lemma fan_out_upsert_with_reachable:
  assumes "reachable E (ws_registry s)"
  shows "reachable E (ws_registry (fan_out_upsert_with w name ts decide s))"
  using reachable.call [OF assms, of "CUpsert name v ts" for v] assms
  by (simp add: fan_out_upsert_with_def case_prod_beta Let_def split: option.split)

section \<open>The contract of the control handler\<close>

text \<open>The phases in which a client is in the connection map.\<close>

fun served :: "thread_phase \<Rightarrow> bool" where
  "served Handshaking = False"
| "served Removed = False"
| "served (Departing _) = False"
| "served Finished = False"
| "served _ = True"

lemma begin_payload_state:
  "snd (begin_payload H p s) = s \<or> (\<exists>bs. snd (begin_payload H p s) = snd (host_control H bs s))"
proof (cases p)
  case (Binary bs)
  obtain reply s' where "host_control H bs s = (reply, s')" by fastforce
  with Binary show ?thesis
    by (cases reply) (auto split: sum.split option.split intro!: exI [of _ bs])
qed (simp split: sum.split)

lemma begin_payload_served: "served (fst (begin_payload H p s))"
  by (induction H p s rule: begin_payload.induct) (auto split: sum.split option.split prod.split)

text \<open>The invariant of the whole server.\<close>

definition served_ids :: "(client_id \<times> thread_phase) list \<Rightarrow> client_id set" where
  "served_ids ts = {c. \<exists>ph. (c, ph) \<in> set ts \<and> served ph}"

definition numbered :: "nat \<Rightarrow> (client_id \<times> thread_phase) list \<Rightarrow> bool" where
  "numbered n ts \<longleftrightarrow> (\<forall>(c, ph) \<in> set ts. \<exists>k < n. c = of_nat k)"

text \<open>The number of ids a 64-bit counter gives before it starts over.\<close>

definition ID_SPACE :: nat where "ID_SPACE = 2 ^ 64"

definition sys_ok :: "env \<Rightarrow> 'a ws_system \<Rightarrow> bool" where
  "sys_ok E st \<longleftrightarrow> reachable E (ws_registry (sys_server st))
   \<and> ws_live (sys_server st) = length (sys_threads st) \<and> length (sys_threads st) \<le> MAX_CONNECTIONS
   \<and> numbered (sys_accepted st) (sys_threads st)
   \<and> (sys_accepted st \<le> ID_SPACE \<longrightarrow> distinct (map fst (sys_threads st))
        \<and> sender_ids (sys_server st) = served_ids (sys_threads st))"

lemma sys_ok_new: "sys_ok E (ws_system_new app)"
  using reachable.start
  by (simp add: sys_ok_def ws_system_new_def ws_server_new_def connection_map_new_def served_ids_def numbered_def)

lemma served_ids_append [simp]: "served_ids (xs @ ys) = served_ids xs \<union> served_ids ys"
  by (auto simp: served_ids_def)

lemma served_ids_Cons [simp]: "served_ids ((c, ph) # ts) = (if served ph then insert c (served_ids ts) else served_ids ts)"
  by (auto simp: served_ids_def)

lemma served_ids_Nil [simp]: "served_ids [] = {}"
  by (simp add: served_ids_def)

lemma served_ids_keys: "served_ids ts \<subseteq> fst ` set ts"
  by (force simp: served_ids_def)

lemma of_nat_id_inj:
  assumes "j < ID_SPACE" and "k < ID_SPACE" and "(of_nat j :: client_id) = of_nat k"
  shows "j = k"
proof -
  have "ID_SPACE = 2 ^ LENGTH(64)" by (simp add: ID_SPACE_def)
  then show ?thesis using assms unat_of_nat_small [where 'a = 64] by metis
qed

lemma sys_ok_accept: "sys_ok E st \<Longrightarrow> sys_ok E (accept_one st)"
proof (cases "ws_live (sys_server st) \<ge> MAX_CONNECTIONS")
  case False
  assume ok: "sys_ok E st"
  let ?n = "sys_accepted st" and ?ts = "sys_threads st"
  have old: "\<exists>k < ?n. c = of_nat k" if "(c, ph) \<in> set ?ts" for c ph
    using ok that by (auto simp: sys_ok_def numbered_def)
  have fresh: "of_nat ?n \<notin> fst ` set ?ts" if "?n + 1 \<le> ID_SPACE"
  proof
    assume "of_nat ?n \<in> fst ` set ?ts"
    then obtain k where "k < ?n" "(of_nat ?n :: u64) = of_nat k" using old by force
    with that of_nat_id_inj [of ?n k] show False by simp
  qed
  have "numbered (?n + 1) (?ts @ [(of_nat ?n, Handshaking)])"
    unfolding numbered_def
  proof clarify
    fix c ph
    assume "(c, ph) \<in> set (?ts @ [(of_nat ?n, Handshaking)])"
    then consider "(c, ph) \<in> set ?ts" | "c = of_nat ?n" by auto
    then show "\<exists>k < ?n + 1. c = of_nat k" using old by cases (metis less_SucI Suc_eq_plus1, auto)
  qed
  then show ?thesis using ok False fresh by (auto simp: sys_ok_def accept_one_def Let_def)
qed (simp add: accept_one_def Let_def)

lemma sys_ok_slot:
  assumes "sys_ok E st" and "sys_threads st = before @ (c, Finished) # after"
  shows "sys_ok E (st\<lparr> sys_server := (sys_server st)\<lparr> ws_live := ws_live (sys_server st) - 1 \<rparr>,
    sys_threads := before @ after \<rparr>)"
  using assms by (auto simp: sys_ok_def numbered_def)

lemma sys_ok_turn:
  assumes ok: "sys_ok E st" and ts: "sys_threads st = before @ (c, ph) # after"
    and live: "ws_live s = ws_live (sys_server st)" and reg: "reachable E (ws_registry s)"
    and ids: "sender_ids s = (if served ph' then if served ph then sender_ids (sys_server st) else insert c (sender_ids (sys_server st))
      else if served ph then sender_ids (sys_server st) - {c} else sender_ids (sys_server st))"
  shows "sys_ok E (st\<lparr> sys_server := s, sys_threads := before @ (c, ph') # after \<rparr>)"
proof -
  have "sender_ids s = served_ids (before @ (c, ph') # after)" if small: "sys_accepted st \<le> ID_SPACE"
  proof -
    have "distinct (map fst (before @ (c, ph) # after))"
      and old: "sender_ids (sys_server st) = served_ids (before @ (c, ph) # after)"
      using ok ts small by (simp_all add: sys_ok_def)
    then have "c \<notin> served_ids before" "c \<notin> served_ids after"
      using served_ids_keys [of before] served_ids_keys [of after] by auto
    then show ?thesis unfolding ids old by auto
  qed
  then show ?thesis using ok ts live reg by (auto simp: sys_ok_def numbered_def)
qed

locale ws_host =
  fixes H :: "'a host"
  assumes control_registry: "reachable (host_env H) (ws_registry s) \<Longrightarrow>
      reachable (host_env H) (ws_registry (snd (host_control H p s)))"
    and control_live: "ws_live (snd (host_control H p s)) = ws_live s"
    and control_senders: "sender_ids (snd (host_control H p s)) = sender_ids s"
begin

lemma begin_payload_keeps:
  "ws_live (snd (begin_payload H p s)) = ws_live s"
  "sender_ids (snd (begin_payload H p s)) = sender_ids s"
  "reachable (host_env H) (ws_registry s) \<Longrightarrow> reachable (host_env H) (ws_registry (snd (begin_payload H p s)))"
  using begin_payload_state [of H p s] control_registry [of s] control_live control_senders by metis+

lemma turn_live: "ws_live (snd (thread_turn H x c ph s)) = ws_live s"
proof (cases ph)
  case (RoutingControls ms routes)
  then show ?thesis by (cases ms) (auto simp: case_prod_beta Let_def split: route_outcome.split)
next
  case (RoutingValues vms routes)
  then show ?thesis by (cases vms) (auto simp: case_prod_beta Let_def)
qed (auto simp: case_prod_beta Let_def begin_payload_keeps split: option.split)

lemma turn_reachable:
  assumes "reachable (host_env H) (ws_registry s)"
  shows "reachable (host_env H) (ws_registry (snd (thread_turn H x c ph s)))"
proof (cases ph)
  case (Joining name peer)
  then show ?thesis using reachable.call [OF assms, of "CConnect c name peer"] by (simp add: case_prod_beta Let_def)
next
  case Removed
  then show ?thesis using reachable.call [OF assms, of "CDisconnect c"] by (simp add: case_prod_beta Let_def)
next
  case (RoutingValues vms routes)
  then show ?thesis using assms route_value_reachable by (cases vms) (simp_all add: case_prod_beta Let_def)
next
  case (RoutingControls ms routes)
  then show ?thesis using assms route_control_reachable [OF assms]
    by (cases ms) (auto simp: case_prod_beta Let_def split: route_outcome.split)
qed (use assms in \<open>auto simp: case_prod_beta Let_def begin_payload_keeps split: option.split\<close>)

lemma turn_senders:
  "sender_ids (snd (thread_turn H x c ph s)) =
     (if served (fst (thread_turn H x c ph s)) then if served ph then sender_ids s else insert c (sender_ids s)
      else if served ph then sender_ids s - {c} else sender_ids s)"
proof (cases ph)
  case (RoutingControls ms routes)
  then show ?thesis by (cases ms) (auto simp: case_prod_beta Let_def split: route_outcome.split)
next
  case (RoutingValues vms routes)
  then show ?thesis by (cases vms) (auto simp: case_prod_beta Let_def)
next
  case (Reading)
  then show ?thesis by (simp add: begin_payload_served begin_payload_keeps(2) split: option.split)
qed (auto simp: case_prod_beta Let_def add_client_def remove_client_def keys_hm_insert keys_hm_remove split: option.split)

lemma sys_ok_step:
  assumes ok: "sys_ok (host_env H) st" and step: "ws_step H st st'"
  shows "sys_ok (host_env H) st'"
  using step
proof cases
  case accept
  then show ?thesis using sys_ok_accept [OF ok] by simp
next
  case (turn before c ph after x ph' s)
  then show ?thesis
    using sys_ok_turn [OF ok turn(2), where ph' = ph' and s = s] turn_live [of x c ph "sys_server st"]
      turn_reachable [of "sys_server st" x c ph] turn_senders [of x c ph "sys_server st"] ok
    by (simp add: sys_ok_def)
next
  case (slot before c after)
  then show ?thesis using sys_ok_slot [OF ok] by simp
next
  case (publish w name v ts)
  then show ?thesis using ok by (simp add: sys_ok_def fan_out_upsert_def fan_out_upsert_with_reachable)
next
  case (load entries ts)
  then show ?thesis using ok reachable.call [of "host_env H" "ws_registry (sys_server st)" "CRestore entries ts"]
    by (simp add: sys_ok_def)
next
  case (drain c cn sock)
  then have "c \<in> sender_ids (sys_server st)" by (metis fst_conv image_eqI map_of_SomeD)
  then show ?thesis using ok drain by (auto simp: sys_ok_def keys_hm_insert insert_absorb)
qed

lemma ws_reachable_ok: "ws_reachable H app st \<Longrightarrow> sys_ok (host_env H) st"
  by (induction rule: ws_reachable.induct) (auto simp: sys_ok_new intro: sys_ok_step)

end

text \<open>A host whose control handler and sink keep an invariant of the state they share.\<close>

locale ws_host_app = ws_host +
  fixes app_ok :: "'a \<Rightarrow> bool"
  assumes control_app: "app_ok (ws_app s) \<Longrightarrow> app_ok (ws_app (snd (host_control H p s)))"
    and sink_app: "app_ok a \<Longrightarrow> app_ok (host_sink H name v a)"
begin

lemma route_value_app: "app_ok (ws_app s) \<Longrightarrow> app_ok (ws_app (snd (route_value H c vm s)))"
  by (simp add: route_value_def case_prod_beta Let_def sink_app split: option.split)

lemma turn_app:
  assumes "app_ok (ws_app s)"
  shows "app_ok (ws_app (snd (thread_turn H x c ph s)))"
proof (cases ph)
  case (RoutingControls ms routes)
  then show ?thesis using assms by (cases ms) (auto simp: case_prod_beta Let_def split: route_outcome.split)
next
  case (RoutingValues vms routes)
  then show ?thesis using assms route_value_app by (cases vms) (auto simp: case_prod_beta Let_def)
next
  case Reading
  have "app_ok (ws_app (snd (begin_payload H p s)))" for p
    using begin_payload_state [of H p s] control_app [OF assms] assms by metis
  then show ?thesis using Reading assms by (simp split: option.split)
qed (use assms in \<open>auto simp: case_prod_beta Let_def split: option.split\<close>)

lemma step_app: "ws_step H st st' \<Longrightarrow> app_ok (ws_app (sys_server st)) \<Longrightarrow> app_ok (ws_app (sys_server st'))"
proof (induction rule: ws_step.induct)
  case (turn st before c ph after x ph' s)
  then show ?case using turn_app [of "sys_server st" x c ph] by simp
next
  case (publish st w name v ts)
  then show ?case
    by (simp add: fan_out_upsert_def fan_out_upsert_with_def case_prod_beta Let_def)
qed (simp_all add: accept_one_def Let_def)

lemma reachable_app: "ws_reachable H app st \<Longrightarrow> app_ok app \<Longrightarrow> app_ok (ws_app (sys_server st))"
  by (induction rule: ws_reachable.induct) (auto simp: ws_system_new_def ws_server_new_def intro: step_app)

end

section \<open>A payload run to its end\<close>

text \<open>A thread that runs alone: \<open>n\<close> turns in a row.\<close>

definition turns :: "'a host \<Rightarrow> turn_input \<Rightarrow> client_id \<Rightarrow> nat \<Rightarrow> thread_phase \<times> 'a ws_server \<Rightarrow> thread_phase \<times> 'a ws_server" where
  "turns H x c n = ((\<lambda>(ph, s). thread_turn H x c ph s) ^^ n)"

lemma turns_0 [simp]: "turns H x c 0 p = p"
  by (simp add: turns_def)

lemma turns_Suc [simp]: "turns H x c (Suc n) (ph, s) = turns H x c n (thread_turn H x c ph s)"
  by (simp add: turns_def funpow_swap1)

lemma turns_values:
  "turns H x c (length vms + 1) (RoutingValues vms routes, s) =
     map_prod (\<lambda>rs. Outcome (Dispatch rs)) id (route_values H c vms routes s)"
  by (induction vms arbitrary: routes s) (simp_all add: case_prod_beta Let_def)

lemma route_control_dispatches: "\<exists>rs r'. route_control E c m r = (Dispatch rs, r')"
  by (cases m) (auto simp: map_prod_def case_prod_beta Let_def)

lemma route_messages_dispatches: "\<exists>rs r'. route_messages E c ms routes r = (Dispatch rs, r')"
proof (induction ms arbitrary: routes r)
  case (Cons m ms)
  obtain rs r' where "route_control E c m r = (Dispatch rs, r')" using route_control_dispatches by blast
  with Cons.IH [of "routes @ rs" r'] show ?case by simp
qed simp

lemma turns_controls:
  "turns H x c (length ms + 1) (RoutingControls ms routes, s) =
     (case route_messages (host_env H) c ms routes (ws_registry s) of
        (out, r) \<Rightarrow> (Outcome out, s\<lparr> ws_registry := r \<rparr>))"
proof (induction ms arbitrary: routes s)
  case (Cons m ms)
  obtain rs r' where "route_control (host_env H) c m (ws_registry s) = (Dispatch rs, r')"
    using route_control_dispatches by blast
  with Cons.IH [of "routes @ rs" "s\<lparr> ws_registry := r' \<rparr>"] show ?case by simp
qed simp

text \<open>The phase in which the thread has decided what to do with a payload.\<close>

definition routed :: "'a host \<Rightarrow> client_id \<Rightarrow> payload \<Rightarrow> 'a ws_server \<Rightarrow> route_outcome \<times> 'a ws_server" where
  "routed H c p s = (case p of
     Binary bs \<Rightarrow> route_binary H c bs s
   | PText doc \<Rightarrow> let (out, r) = route_text H c doc (ws_registry s) in (out, s\<lparr> ws_registry := r \<rparr>))"

lemma turns_text:
  "\<exists>n. turns H x c n (case from_json_batch (host_parse H) doc of
         Inl _ \<Rightarrow> (Outcome Close, s) | Inr ms \<Rightarrow> (RoutingControls ms [], s)) =
     (case route_text H c doc (ws_registry s) of (out, r) \<Rightarrow> (Outcome out, s\<lparr> ws_registry := r \<rparr>))"
proof (cases "from_json_batch (host_parse H) doc")
  case (Inl e)
  then show ?thesis by (intro exI [of _ 0]) (simp add: route_text_def)
next
  case (Inr ms)
  then show ?thesis using turns_controls [of H x c ms "[]" s]
    by (intro exI [of _ "length ms + 1"]) (simp add: route_text_def)
qed

lemma turns_begin:
  "\<exists>n. turns H x c n (begin_payload H p s) = map_prod Outcome id (routed H c p s)"
proof (cases p)
  case (PText doc)
  then show ?thesis using turns_text [of H x c s doc] by (simp add: routed_def map_prod_def case_prod_beta Let_def)
next
  case (Binary bs)
  show ?thesis
  proof (cases "vm_decode_all bs")
    case (Inr vms)
    then show ?thesis using turns_values [of H x c vms "[]" s] Binary
      by (auto simp: routed_def route_binary_def map_prod_def case_prod_beta intro!: exI [of _ "length vms + 1"])
  next
    case (Inl e)
    obtain reply s' where reply: "host_control H bs s = (reply, s')" by fastforce
    show ?thesis
    proof (cases "reply = None \<and> from_utf8 bs \<noteq> None")
      case True
      then obtain doc where "from_utf8 bs = Some doc" by auto
      then show ?thesis using turns_text [of H x c s' doc] True reply Inl Binary
        by (simp add: routed_def route_binary_def map_prod_def case_prod_beta Let_def)
    next
      case False
      then show ?thesis using reply Inl Binary
        by (cases reply) (auto simp: routed_def route_binary_def intro!: exI [of _ 0])
    qed
  qed
qed

lemma turns_add: "turns H x c (m + n) p = turns H x c n (turns H x c m p)"
  by (simp add: turns_def add.commute [of m n] funpow_add)


section \<open>Malformed payloads\<close>

text \<open>What makes a payload malformed.\<close>

fun malformed :: "'a host \<Rightarrow> payload \<Rightarrow> 'a ws_server \<Rightarrow> bool" where
  "malformed H (PText doc) s \<longleftrightarrow> host_parse H doc = None"
| "malformed H (Binary bs) s \<longleftrightarrow> (\<forall>vms. vm_decode_all bs \<noteq> Ok vms) \<and> fst (host_control H bs s) = None
     \<and> (case from_utf8 bs of None \<Rightarrow> True | Some doc \<Rightarrow> host_parse H doc = None)"

lemma from_json_batch_Inl: "from_json_batch parse doc = Inl e \<longleftrightarrow> parse doc = None \<and> e = BadJson"
  by (cases "parse doc") (auto simp: from_json_batch_def split: json.split)

lemma route_text_bad: "host_parse H doc = None \<Longrightarrow> route_text H c doc r = (Close, r)"
  by (simp add: route_text_def from_json_batch_def)

lemma route_text_good:
  assumes "host_parse H doc \<noteq> None"
  shows "fst (route_text H c doc r) \<noteq> Close"
proof -
  obtain ms where "from_json_batch (host_parse H) doc = Inr ms"
    using assms by (cases "from_json_batch (host_parse H) doc") (simp_all add: from_json_batch_Inl)
  moreover obtain rs r' where "route_messages (host_env H) c ms [] r = (Dispatch rs, r')"
    using route_messages_dispatches by blast
  ultimately show ?thesis by (simp add: route_text_def)
qed

lemma route_text_Close: "fst (route_text H c doc r) = Close \<longleftrightarrow> host_parse H doc = None"
  using route_text_bad [of H doc c r] route_text_good [of H doc c r] by (cases "host_parse H doc") simp_all

lemma routed_Close: "fst (routed H c p s) = Close \<longleftrightarrow> malformed H p s"
proof (cases p)
  case (PText doc)
  then show ?thesis by (simp add: routed_def route_text_Close case_prod_beta Let_def)
next
  case (Binary bs)
  obtain reply s' where "host_control H bs s = (reply, s')" by fastforce
  with Binary show ?thesis
    by (cases reply; cases "vm_decode_all bs")
      (auto simp: routed_def route_binary_def route_text_Close case_prod_beta Let_def split: option.split)
qed

lemma apply_outcome_go: "fst (apply_outcome w c out s) \<longleftrightarrow> out \<noteq> Close"
  by (cases out) simp_all


section \<open>A server bound without a control plane\<close>

interpretation plain: ws_host "plain_host E parse" for E parse
  by unfold_locales (simp_all add: plain_host_def noop_handler_def)

definition calm :: weather where
  "calm = \<lparr> w_socks = (\<lambda>_ _. True), w_free = (\<lambda>_. True) \<rparr>"

definition silent_env :: env where
  "silent_env = \<lparr> to_string = (\<lambda>_. []), clock = (\<lambda>_. 100) \<rparr>"

lemma counted_conn_new: "counted_queue conn_new" "c_open conn_new" "c_queue conn_new = []" "stream conn_new = []"
  by (simp_all add: counted_queue_def conn_new_def stream_def written_def writer_new_def)



section \<open>From a publisher's frame to a subscriber's stream\<close>

lemma frames_for_map:
  "distinct ds \<Longrightarrow> frames_for d (map (\<lambda>d. (d, out)) ds) = (if d \<in> set ds then [out] else [])"
  by (induction ds) (auto simp: frames_for_def)

lemma send_routes_stream:
  assumes conn: "hm_get (senders (ws_conns s)) d = Some cn" and sock: "\<forall>n. w_socks w d n" and ok: "counted_queue cn"
    and room: "c_open cn" "length (c_queue cn) + length (frames_for d routes) \<le> PUB_HIGH_WATER_MARK"
  shows "\<exists>cn'. hm_get (senders (ws_conns (send_routes w routes s))) d = Some cn'
    \<and> stream cn' = stream cn @ concat (map out_atoms (frames_for d routes)) \<and> counted_queue cn'"
proof -
  let ?fs = "frames_for d routes"
  obtain k cn' where run: "deliver_all (w_socks w d) (w_free w d) ?fs cn = (k, cn')" by fastforce
  have "hm_get (senders (ws_conns (send_routes w routes s))) d = Some (if ?fs = [] then cn else cn')"
    using dispatch_client [OF conn, of "w_socks w" "w_free w" routes] run by (simp add: send_routes_def)
  moreover have "carried ?fs cn k cn'" by (rule deliver_all_carried [OF sock ok run])
  ultimately show ?thesis using room ok by (auto simp: carried_def)
qed

lemma route_value_published:
  assumes "vm_topic_id vm \<noteq> RTT_TOPIC_ID" and "topic_id_for_pubuid c (vm_topic_id vm) (ws_registry s) = Some i"
    and "hm_get (topics (ws_registry s)) i = Some t" and "v = conform i (vm_value vm) (ws_registry s)"
    and "xt_data_type v = t_data_type t" and "now_micros (host_env H) (ws_registry s) = (now, r)"
    and "stamp = arrival_timestamp (vm_timestamp_micros vm) now"
  shows "fst (route_value H c vm s) = map (\<lambda>d. (d, ValueFrame (encode_once v stamp (of_nat i))))
      (list_of (topic_subscribers (ws_registry s)) i)"
    and "ws_conns (snd (route_value H c vm s)) = ws_conns s"
proof -
  have r: "topics r = topics (ws_registry s)" "topic_subscribers r = topic_subscribers (ws_registry s)"
    using assms(6) by (auto simp: now_micros_def)
  have "fst (handle_topic_value i v stamp r) = map (\<lambda>d. (d, ValueFrame (encode_once v stamp (of_nat i))))
      (list_of (topic_subscribers (ws_registry s)) i)"
    using assms(3,5) r by (simp add: handle_topic_value_def Let_def)
  then show "fst (route_value H c vm s) = map (\<lambda>d. (d, ValueFrame (encode_once v stamp (of_nat i))))
      (list_of (topic_subscribers (ws_registry s)) i)"
    using assms by (simp add: route_value_def case_prod_beta Let_def)
qed simp

text \<open>C6. End to end: when a client sends a frame with one value for a topic it publishes, every
  subscriber of the topic whose connection is up, whose socket works and whose queue has room is sent
  that value, after everything it was sent before, in a frame that decodes to the topic's id, the
  value conformed to the topic's type in its wire form, and a time that is never ahead of the
  server's clock; the publisher's connection goes on.\<close>

theorem published_value_delivered:
  assumes frame: "vm_decode_all payload = Ok [vm]" and uid: "vm_topic_id vm \<noteq> RTT_TOPIC_ID"
    and topic: "topic_id_for_pubuid c (vm_topic_id vm) (ws_registry s) = Some i" "hm_get (topics (ws_registry s)) i = Some t"
    and val: "v = conform i (vm_value vm) (ws_registry s)" "xt_data_type v = t_data_type t"
      "encode_value v = Ok b" "wire_ok v"
    and subscriber: "lists_ok (ws_registry s)" "d \<in> set (list_of (topic_subscribers (ws_registry s)) i)"
    and conn: "hm_get (senders (ws_conns s)) d = Some cn" "\<forall>n. w_socks w d n" "counted_queue cn" "c_open cn"
      "length (c_queue cn) < PUB_HIGH_WATER_MARK"
  shows "\<exists>s' cn' out stamp. serve_payload H w c (Binary payload) s = (True, s')
    \<and> hm_get (senders (ws_conns s')) d = Some cn' \<and> stream cn' = stream cn @ map AByte out
    \<and> vm_decode out = Ok \<lparr> vm_topic_id = of_nat i, vm_timestamp_micros = stamp, vm_data_type = t_data_type t,
                           vm_value = wire_form v \<rparr>
    \<and> stamp \<le> fst (now_micros (host_env H) (ws_registry s))"
proof -
  obtain now r where now: "now_micros (host_env H) (ws_registry s) = (now, r)" by fastforce
  define stamp where "stamp = arrival_timestamp (vm_timestamp_micros vm) now"
  define out where "out = encode_once v stamp (of_nat i)"
  define ds where "ds = list_of (topic_subscribers (ws_registry s)) i"
  obtain routes s1 where rv: "route_value H c vm s = (routes, s1)" by fastforce
  have routes: "routes = map (\<lambda>d. (d, ValueFrame out)) ds" and conns: "ws_conns s1 = ws_conns s"
    using route_value_published [where H = H, OF uid topic val(1,2) now stamp_def] rv
    by (simp_all add: out_def ds_def)
  have "distinct ds" "d \<in> set ds" using subscriber lists_ok_list_of(1) by (auto simp: ds_def)
  then have fs: "frames_for d routes = [ValueFrame out]" and "routes \<noteq> []"
    using routes by (auto simp: frames_for_map)
  have "serve_payload H w c (Binary payload) s = (True, send_routes w routes s1)"
    using \<open>routes \<noteq> []\<close> rv frame by (simp add: serve_payload_def route_binary_def)
  moreover have "\<exists>cn'. hm_get (senders (ws_conns (send_routes w routes s1))) d = Some cn'
      \<and> stream cn' = stream cn @ map AByte out \<and> counted_queue cn'"
    using send_routes_stream [of s1 d cn w routes] conn conns fs by simp
  moreover have "stamp \<le> now" by (auto simp: stamp_def arrival_timestamp_def not_less)
  moreover have "vm_decode out = Ok \<lparr> vm_topic_id = of_nat i, vm_timestamp_micros = stamp,
      vm_data_type = t_data_type t, vm_value = wire_form v \<rparr>"
    using encode_once_decodes [OF val(3,4), of stamp "of_nat i"] val(2) by (simp add: out_def)
  ultimately show ?thesis using now by auto
qed

lemma vm_decode_Nil: "\<exists>e. vm_decode [] = Inl e"
  using vm_decode_one_bounds [of "[]"] by (cases "vm_decode_one []") (auto simp: vm_decode_def)

theorem published_value_delivered_witness:
  "\<exists>s' cn'. serve_payload (plain_host silent_env (\<lambda>_. None)) calm 1 (Binary [0x94, 0x07, 0x05, 0x00, 0xc3])
      ((ws_server_new ())\<lparr> ws_registry := sample_registry, ws_conns := \<lparr> senders = [(2, conn_new)], dropped_total = 0 \<rparr> \<rparr>) = (True, s')
    \<and> hm_get (senders (ws_conns s')) 2 = Some cn' \<and> stream cn' \<noteq> []"
proof -
  let ?s = "(ws_server_new ())\<lparr> ws_registry := sample_registry, ws_conns := \<lparr> senders = [(2, conn_new)], dropped_total = 0 \<rparr> \<rparr>"
  let ?vm = "\<lparr> vm_topic_id = 7, vm_timestamp_micros = 5, vm_data_type = 0, vm_value = VBool True \<rparr>"
  have enc: "vm_encode ?vm = Ok [0x94, 0x07, 0x05, 0x00, 0xc3]"
    by (simp add: vm_encode_def encode_value_message_def encode_array_header_def RTT_TOPIC_ID_def
        encode_uint_def encode_int_def encode_i64_def)
  have dec: "vm_decode_all [0x94, 0x07, 0x05, 0x00, 0xc3] = Ok [?vm]"
    using vm_decode_one_encode [OF enc, of "[]"] by (simp add: vm_decode_all_def vm_decode_loop.simps)
  have reg: "lists_ok sample_registry" "topic_id_for_pubuid 1 7 sample_registry = Some 0"
    "hm_get (topics sample_registry) 0 = Some sample_topic" "list_of (topic_subscribers sample_registry) 0 = [2]"
    "t_data_type sample_topic = 0"
    by (simp_all add: lists_ok_def sample_registry_def sample_topic_def registry_new_def topic_id_for_pubuid_def
        list_of_def)
  then have conf: "VBool True = conform 0 (VBool True) sample_registry" by (simp add: conform_def conformed_id)
  have "\<exists>s' cn' out stamp. serve_payload (plain_host silent_env (\<lambda>_. None)) calm 1 (Binary [0x94, 0x07, 0x05, 0x00, 0xc3]) ?s = (True, s')
    \<and> hm_get (senders (ws_conns s')) 2 = Some cn' \<and> stream cn' = stream conn_new @ map AByte out
    \<and> vm_decode out = Ok \<lparr> vm_topic_id = of_nat 0, vm_timestamp_micros = stamp, vm_data_type = t_data_type sample_topic,
                           vm_value = wire_form (VBool True) \<rparr>
    \<and> stamp \<le> fst (now_micros (host_env (plain_host silent_env (\<lambda>_. None) :: unit host)) (ws_registry ?s))"
    by (rule published_value_delivered [where s = ?s and c = 1 and vm = ?vm and i = 0 and t = sample_topic
        and v = "VBool True" and b = "[0xc3]" and d = 2 and cn = conn_new and w = calm
        and H = "plain_host silent_env (\<lambda>_. None)", OF dec])
      (use reg conf counted_conn_new in \<open>simp_all add: RTT_TOPIC_ID_def calm_def PUB_HIGH_WATER_MARK_def\<close>)
  then show ?thesis
    by (metis append_is_Nil_conv list.map_disc_iff vm_decode_Nil Inl_Inr_False)
qed

section \<open>Restarting reuses the ids of connections that are still ending\<close>

lemma ws_turn:
  assumes "sys_threads st = before @ (c, ph) # after" and "thread_turn H x c ph (sys_server st) = (ph', s)"
    and "st' = st\<lparr> sys_server := s, sys_threads := before @ (c, ph') # after \<rparr>"
  shows "ws_step H st st'"
  using ws_step.turn [OF assms(1,2)] assms(3) by simp

lemma single_turn:
  assumes "thread_turn H x c ph s = (ph', s')"
  shows "ws_step H \<lparr> sys_server = s, sys_accepted = n, sys_threads = [(c, ph)] \<rparr>
    \<lparr> sys_server = s', sys_accepted = n, sys_threads = [(c, ph')] \<rparr>"
  by (rule ws_turn [where before = "[]" and after = "[]", OF _ ]) (use assms in simp_all)

lemma one_leaving:
  "\<exists>r. \<exists>m. ws_reachable (plain_host E parse) () \<lparr> sys_server = \<lparr> ws_registry = r, ws_conns = m, ws_sockets = [0],
      ws_live = 1, ws_app = () \<rparr>, sys_accepted = 1, sys_threads = [(0, Leaving)] \<rparr>"
proof -
  let ?H = "plain_host E parse" and ?w = "calm"
  let ?x = "\<lparr> in_handshake = Some (''a'', ''p''), in_recv = None, in_weather = calm \<rparr>"
  let ?sys = "\<lambda>s ph. \<lparr> sys_server = s, sys_accepted = 1, sys_threads = [(0 :: client_id, ph)] \<rparr>"
  define s1 :: "unit ws_server" where "s1 = (ws_server_new ())\<lparr> ws_live := 1 \<rparr>"
  obtain s2 s3 s4 s5 ph2 ph3 where
    t2: "thread_turn ?H ?x 0 Handshaking s1 = (ph2, s2)" and t3: "thread_turn ?H ?x 0 ph2 s2 = (ph3, s3)"
    and t4: "thread_turn ?H ?x 0 ph3 s3 = (Reading, s4)" and t5: "thread_turn ?H ?x 0 Reading s4 = (Leaving, s5)"
    and s5: "ws_sockets s5 = [0]" "ws_live s5 = 1"
    by (force simp: s1_def ws_server_new_def case_prod_beta Let_def)
  have "ws_reachable ?H () (?sys s1 Handshaking)"
    using ws_reachable.step [OF ws_reachable.start ws_step.accept, of ?H "()"]
    by (simp add: ws_system_new_def accept_one_def ws_server_new_def MAX_CONNECTIONS_def s1_def)
  then have "ws_reachable ?H () (?sys s5 Leaving)"
    using t2 t3 t4 t5 by (meson single_turn ws_reachable.step)
  moreover have "s5 = \<lparr> ws_registry = ws_registry s5, ws_conns = ws_conns s5, ws_sockets = [0], ws_live = 1, ws_app = () \<rparr>"
    using s5 by simp
  ultimately show ?thesis by metis
qed

text \<open>A restarted server numbers its connections from zero again while the threads of the
  connections it shut down still wind up.  A new connection can then get the id of an old one, and the
  old thread, taking its own id out of the connection map, disconnects the new client from every
  fan-out although its thread goes on serving it.\<close>

lemma restart_disconnects_new_client:
  "\<exists>st st'. ws_reachable (plain_host E parse) () st
    \<and> (ws_step (plain_host E parse))\<^sup>*\<^sup>* (restart st) st'
    \<and> (\<exists>ph. (0, ph) \<in> set (sys_threads st') \<and> served ph) \<and> 0 \<notin> sender_ids (sys_server st')"
proof -
  let ?H = "plain_host E parse"
  let ?x = "\<lparr> in_handshake = Some (''b'', ''q''), in_recv = None, in_weather = calm \<rparr>"
  obtain r m where st: "ws_reachable ?H () \<lparr> sys_server = \<lparr> ws_registry = r, ws_conns = m, ws_sockets = [0],
      ws_live = 1, ws_app = () \<rparr>, sys_accepted = 1, sys_threads = [(0, Leaving)] \<rparr>" (is "ws_reachable ?H () ?st")
    using one_leaving by blast
  let ?s = "\<lambda>m so. \<lparr> ws_registry = r, ws_conns = m, ws_sockets = so, ws_live = 2, ws_app = () \<rparr>"
  let ?sys = "\<lambda>s a b. \<lparr> sys_server = s, sys_accepted = 1, sys_threads = [(0 :: client_id, a), (0, b)] \<rparr>"
  have 1: "ws_step ?H (restart ?st) (?sys (?s m [0]) Leaving Handshaking)"
    using ws_step.accept [of ?H "restart ?st"]
    by (simp add: restart_def accept_one_def MAX_CONNECTIONS_def numeral_2_eq_2)
  have 2: "ws_step ?H (?sys (?s m [0]) Leaving Handshaking)
      (?sys (?s (add_client 0 conn_new m) [0]) Leaving (Joining ''b'' ''q''))"
    by (rule ws_turn [where before = "[(0, Leaving)]" and x = ?x and c = 0 and ph = Handshaking and after = "[]"
          and ph' = "Joining ''b'' ''q''" and s = "?s (add_client 0 conn_new m) [0]"])
      (simp_all add: List.insert_def)
  have 3: "ws_step ?H (?sys (?s (add_client 0 conn_new m) [0]) Leaving (Joining ''b'' ''q''))
      (?sys (?s (remove_client 0 (add_client 0 conn_new m)) []) Removed (Joining ''b'' ''q''))"
    by (rule ws_turn [where before = "[]" and x = ?x and c = 0 and ph = Leaving
          and after = "[(0, Joining ''b'' ''q'')]" and ph' = Removed
          and s = "?s (remove_client 0 (add_client 0 conn_new m)) []"]) simp_all
  have "(ws_step ?H)\<^sup>*\<^sup>* (restart ?st) (?sys (?s (remove_client 0 (add_client 0 conn_new m)) []) Removed (Joining ''b'' ''q''))"
    using 1 2 3 by (meson converse_rtranclp_into_rtranclp rtranclp.rtrancl_refl)
  with st show ?thesis
    by (intro exI [of _ ?st] exI [of _ "?sys (?s (remove_client 0 (add_client 0 conn_new m)) []) Removed (Joining ''b'' ''q'')"])
      (auto simp: remove_client_def keys_hm_remove)
qed

end
