(* ===== verification/Proto_Value.thy ===== *)
theory Proto_Value
  imports Tarwyn_Value Json_Model
begin

text \<open>
  The protobuf values and messages of the control plane (\<^verbatim>\<open>proto/proto/messages.proto\<close>) and their
  conversion to and from the server's values (\<^verbatim>\<open>core/src/server/convert.rs\<close>).  The wire format is
  the work of the \<open>prost\<close> library: its encoders and decoders are the members of \<open>prost\<close>, an
  argument of the definitions that call them.
\<close>

section \<open>Messages\<close>

record coordinate =
  co_x :: f64
  co_y :: f64

record control_point =
  cp_x :: f64
  cp_y :: f64
  cp_rotation_degrees :: "f64 option"

type_synonym bezier_curve = "control_point list"

record traversal_options =
  meters_per_second :: "f64 option"
  final_rotation_degrees :: "f64 option"
  acceleration_meters_per_second :: "f64 option"
  face_nearest_reef_april_tag :: "bool option"
  end_face_threshold_percentage :: "f64 option"
  face_nearest_direction :: "u32 option"
  final_rotation_turn_speed_factor :: "f64 option"
  start_face_threshold_percentage :: "f64 option"
  snap_to_nearest_april_tag :: "bool option"
  april_tag_turn_speed_factor_per_step :: "f64 option"

record bezier_curves =
  bc_curves :: "bezier_curve list"
  bc_options :: "traversal_options option"

datatype kind =
    KString string | KInt32 u32 | KInt64 u64 | KUint32 u32 | KUint64 u64 | KBool bool
  | KDouble f64 | KFloat f32 | KBytes bytes
  | KStringList "string list" | KFloatList "f32 list" | KBytesList "bytes list" | KBoolList "bool list"
  | KDoubleList "f64 list" | KIntegerList "u32 list" | KLongList "u64 list"
  | KCoordinateList "coordinate list" | KBezierCurve bezier_curve | KBezierCurves bezier_curves
  | KBezierCurvesList "bezier_curves list"

text \<open>A \<open>SupportedValues\<close> message may come without its kind, and a field may come without the message.\<close>

type_synonym supported_values = "kind option"

record compare_and_set_command =
  cas_channel :: string
  cas_expected :: "supported_values option"
  cas_value :: "supported_values option"
  cas_expect_absent :: bool

datatype request_payload =
    ReqData string | ReqLogs | ReqDelete string | ReqTables string | ReqPing u64 | ReqStatistics
  | ReqJson string | ReqCompareAndSet compare_and_set_command

record request =
  req_id :: u64
  req_payload :: "request_payload option"

record statistics =
  stat_channels :: u64
  stat_values :: u64
  stat_telemetry_subscribers :: u64
  stat_uptime_seconds :: u64
  stat_version :: string
  stat_dropped_publishes :: u64
  stat_dropped_logs :: u64

datatype reply_payload =
    RepData "supported_values option" | RepLogs "string list" | RepDelete u32 | RepTables "string list"
  | RepPing u64 u64 | RepStatistics statistics | RepJson string
  | RepCompareAndSet bool "supported_values option"

record reply =
  rep_id :: u64
  rep_payload :: "reply_payload option"

record prost =
  bytes_list_encode :: "bytes list \<Rightarrow> bytes"
  bytes_list_decode :: "bytes \<Rightarrow> bytes list option"
  coordinate_list_encode :: "coordinate list \<Rightarrow> bytes"
  coordinate_list_decode :: "bytes \<Rightarrow> coordinate list option"
  bezier_curve_encode :: "bezier_curve \<Rightarrow> bytes"
  bezier_curves_encode :: "bezier_curves \<Rightarrow> bytes"
  bezier_curves_decode :: "bytes \<Rightarrow> bezier_curves option"
  bezier_curves_list_encode :: "bezier_curves list \<Rightarrow> bytes"
  request_decode :: "bytes \<Rightarrow> request option"
  reply_encode :: "reply \<Rightarrow> bytes"

section \<open>Conversion\<close>

fun value_of_kind :: "prost \<Rightarrow> kind \<Rightarrow> nt_value" where
  "value_of_kind P (KString v) = VString v"
| "value_of_kind P (KInt32 v) = VInt32 v"
| "value_of_kind P (KInt64 v) = VInt64 v"
| "value_of_kind P (KUint32 v) = VUint32 v"
| "value_of_kind P (KUint64 v) = VUint64 v"
| "value_of_kind P (KBool v) = VBool v"
| "value_of_kind P (KDouble v) = VDouble v"
| "value_of_kind P (KFloat v) = VFloat v"
| "value_of_kind P (KBytes v) = VBytes v"
| "value_of_kind P (KStringList vs) = VStringArray vs"
| "value_of_kind P (KFloatList vs) = VFloatArray vs"
| "value_of_kind P (KBytesList vs) = VBytesList (bytes_list_encode P vs)"
| "value_of_kind P (KBoolList vs) = VBoolArray vs"
| "value_of_kind P (KDoubleList vs) = VDoubleArray vs"
| "value_of_kind P (KIntegerList vs) = VInt32Array vs"
| "value_of_kind P (KLongList vs) = VInt64Array vs"
| "value_of_kind P (KCoordinateList cs) = VCoordinate (coordinate_list_encode P cs)"
| "value_of_kind P (KBezierCurve c) = VBezier (bezier_curve_encode P c)"
| "value_of_kind P (KBezierCurves cs) = VBezier (bezier_curves_encode P cs)"
| "value_of_kind P (KBezierCurvesList l) = VBezier (bezier_curves_list_encode P l)"

definition unwrap_or :: "'a option \<Rightarrow> 'a \<Rightarrow> 'a" where
  "unwrap_or x d = (case x of None \<Rightarrow> d | Some a \<Rightarrow> a)"

lemma unwrap_or_simps [simp]: "unwrap_or None d = d" "unwrap_or (Some a) d = a"
  by (simp_all add: unwrap_or_def)

definition bezier_curves_default :: bezier_curves where
  "bezier_curves_default = \<lparr> bc_curves = [], bc_options = None \<rparr>"

fun kind_of_value :: "prost \<Rightarrow> nt_value \<Rightarrow> kind" where
  "kind_of_value P (VInt8 v) = KInt32 (scast v)"
| "kind_of_value P (VInt16 v) = KInt32 (scast v)"
| "kind_of_value P (VInt32 v) = KInt32 v"
| "kind_of_value P (VInt64 v) = KInt64 v"
| "kind_of_value P (VUint8 v) = KUint32 (ucast v)"
| "kind_of_value P (VUint16 v) = KUint32 (ucast v)"
| "kind_of_value P (VUint32 v) = KUint32 v"
| "kind_of_value P (VUint64 v) = KUint64 v"
| "kind_of_value P (VFloat v) = KFloat v"
| "kind_of_value P (VDouble v) = KDouble v"
| "kind_of_value P (VString v) = KString v"
| "kind_of_value P (VBool v) = KBool v"
| "kind_of_value P (VBytes v) = KBytes v"
| "kind_of_value P (VInt8Array v) = KIntegerList (map scast v)"
| "kind_of_value P (VInt16Array v) = KIntegerList (map scast v)"
| "kind_of_value P (VInt32Array v) = KIntegerList v"
| "kind_of_value P (VInt64Array v) = KLongList v"
| "kind_of_value P (VUint8Array v) = KIntegerList (map ucast v)"
| "kind_of_value P (VUint16Array v) = KIntegerList (map ucast v)"
| "kind_of_value P (VUint32Array v) = KIntegerList v"
| "kind_of_value P (VUint64Array v) = KLongList v"
| "kind_of_value P (VFloatArray v) = KFloatList v"
| "kind_of_value P (VDoubleArray v) = KDoubleList v"
| "kind_of_value P (VStringArray v) = KStringList v"
| "kind_of_value P (VBoolArray v) = KBoolList v"
| "kind_of_value P (VBytesList v) = KBytesList (unwrap_or (bytes_list_decode P v) [])"
| "kind_of_value P (VCoordinate v) = KCoordinateList (unwrap_or (coordinate_list_decode P v) [])"
| "kind_of_value P (VBezier v) = KBezierCurves (unwrap_or (bezier_curves_decode P v) bezier_curves_default)"

section \<open>Equality of kinds\<close>

text \<open>The derived \<open>==\<close>, which compares floats as IEEE numbers.\<close>

definition coordinate_eq :: "coordinate \<Rightarrow> coordinate \<Rightarrow> bool" where
  "coordinate_eq a b \<longleftrightarrow> f64_eq (co_x a) (co_x b) \<and> f64_eq (co_y a) (co_y b)"

definition point_eq :: "control_point \<Rightarrow> control_point \<Rightarrow> bool" where
  "point_eq a b \<longleftrightarrow> f64_eq (cp_x a) (cp_x b) \<and> f64_eq (cp_y a) (cp_y b)
     \<and> rel_option f64_eq (cp_rotation_degrees a) (cp_rotation_degrees b)"

definition options_eq :: "traversal_options \<Rightarrow> traversal_options \<Rightarrow> bool" where
  "options_eq a b \<longleftrightarrow> rel_option f64_eq (meters_per_second a) (meters_per_second b)
     \<and> rel_option f64_eq (final_rotation_degrees a) (final_rotation_degrees b)
     \<and> rel_option f64_eq (acceleration_meters_per_second a) (acceleration_meters_per_second b)
     \<and> face_nearest_reef_april_tag a = face_nearest_reef_april_tag b
     \<and> rel_option f64_eq (end_face_threshold_percentage a) (end_face_threshold_percentage b)
     \<and> face_nearest_direction a = face_nearest_direction b
     \<and> rel_option f64_eq (final_rotation_turn_speed_factor a) (final_rotation_turn_speed_factor b)
     \<and> rel_option f64_eq (start_face_threshold_percentage a) (start_face_threshold_percentage b)
     \<and> snap_to_nearest_april_tag a = snap_to_nearest_april_tag b
     \<and> rel_option f64_eq (april_tag_turn_speed_factor_per_step a) (april_tag_turn_speed_factor_per_step b)"

definition curves_eq :: "bezier_curves \<Rightarrow> bezier_curves \<Rightarrow> bool" where
  "curves_eq a b \<longleftrightarrow> list_all2 (list_all2 point_eq) (bc_curves a) (bc_curves b)
     \<and> rel_option options_eq (bc_options a) (bc_options b)"

definition kind_eq :: "kind \<Rightarrow> kind \<Rightarrow> bool" where
  "kind_eq a b = (case a of
     KDouble x \<Rightarrow> (case b of KDouble y \<Rightarrow> f64_eq x y | _ \<Rightarrow> False)
   | KFloat x \<Rightarrow> (case b of KFloat y \<Rightarrow> f32_eq x y | _ \<Rightarrow> False)
   | KFloatList x \<Rightarrow> (case b of KFloatList y \<Rightarrow> list_all2 f32_eq x y | _ \<Rightarrow> False)
   | KDoubleList x \<Rightarrow> (case b of KDoubleList y \<Rightarrow> list_all2 f64_eq x y | _ \<Rightarrow> False)
   | KCoordinateList x \<Rightarrow> (case b of KCoordinateList y \<Rightarrow> list_all2 coordinate_eq x y | _ \<Rightarrow> False)
   | KBezierCurve x \<Rightarrow> (case b of KBezierCurve y \<Rightarrow> list_all2 point_eq x y | _ \<Rightarrow> False)
   | KBezierCurves x \<Rightarrow> (case b of KBezierCurves y \<Rightarrow> curves_eq x y | _ \<Rightarrow> False)
   | KBezierCurvesList x \<Rightarrow> (case b of KBezierCurvesList y \<Rightarrow> list_all2 curves_eq x y | _ \<Rightarrow> False)
   | _ \<Rightarrow> a = b)"

text \<open>No number of the kind is a NaN.\<close>

fun kind_ordinary :: "kind \<Rightarrow> bool" where
  "kind_ordinary (KDouble a) \<longleftrightarrow> \<not> f64_is_nan a"
| "kind_ordinary (KFloat a) \<longleftrightarrow> \<not> f32_is_nan a"
| "kind_ordinary (KFloatList a) \<longleftrightarrow> list_all (\<lambda>x. \<not> f32_is_nan x) a"
| "kind_ordinary (KDoubleList a) \<longleftrightarrow> list_all (\<lambda>x. \<not> f64_is_nan x) a"
| "kind_ordinary (KCoordinateList a) \<longleftrightarrow> list_all (\<lambda>c. \<not> f64_is_nan (co_x c) \<and> \<not> f64_is_nan (co_y c)) a"
| "kind_ordinary (KBezierCurve a) \<longleftrightarrow> list_all (\<lambda>p. point_eq p p) a"
| "kind_ordinary (KBezierCurves a) \<longleftrightarrow> curves_eq a a"
| "kind_ordinary (KBezierCurvesList a) \<longleftrightarrow> list_all (\<lambda>c. curves_eq c c) a"
| "kind_ordinary _ \<longleftrightarrow> True"

lemma f64_eq_refl: "f64_eq x x \<longleftrightarrow> \<not> f64_is_nan x"
  by (simp add: f64_eq_def)

lemma f32_eq_refl: "f32_eq x x \<longleftrightarrow> \<not> f32_is_nan x"
  by (simp add: f32_eq_def)

lemma list_all2_refl_iff: "list_all2 P xs xs \<longleftrightarrow> list_all (\<lambda>x. P x x) xs"
  by (induction xs) auto

lemma kind_eq_refl: "kind_eq k k \<longleftrightarrow> kind_ordinary k"
  by (cases k) (simp_all add: kind_eq_def f64_eq_refl f32_eq_refl list_all2_refl_iff coordinate_eq_def)

lemma f64_eq_sym: "f64_eq x y \<Longrightarrow> f64_eq y x"
  by (auto simp: f64_eq_def)

lemma f64_eq_trans: "f64_eq x y \<Longrightarrow> f64_eq y z \<Longrightarrow> f64_eq x z"
  by (auto simp: f64_eq_def)

section \<open>What the conversions keep\<close>

lemma sint_uint_iff: "sint (w :: 'w::len word) = uint w \<longleftrightarrow> 2 * unat w < 2 ^ LENGTH('w)"
proof (cases "2 * uint w < 2 ^ LENGTH('w)")
  case True
  then have "sint w = uint w" by (simp add: sint_cases)
  moreover from this have "0 \<le> sint w" by simp
  ultimately show ?thesis using sint_nonneg_iff [of w] by simp
next
  case False
  then have "sint w = uint w - 2 ^ LENGTH('w)" by (simp add: sint_cases)
  moreover have "uint w < 2 ^ LENGTH('w)" by (rule unsigned_less)
  ultimately have "sint w < 0" "sint w \<noteq> uint w" by simp_all
  then show ?thesis using sint_nonneg_iff [of w] by simp
qed

lemma ucast_widen:
  "LENGTH('a::len) \<le> LENGTH('b::len) \<Longrightarrow> uint (ucast (x :: 'a word) :: 'b word) = uint x"
  using unat_ucast_up [where 'a = 'a and 'b = 'b, of x] by (simp only: uint_nat)

lemma scast_widen:
  "LENGTH('a::len) \<le> LENGTH('b::len) \<Longrightarrow> sint (scast (x :: 'a word) :: 'b word) = sint x"
  by (rule sint_up_scast) (simp add: is_up)

lemma ucast_widen_signed:
  assumes "LENGTH('a::len) < LENGTH('b::len)"
  shows "sint (ucast (x :: 'a word) :: 'b word) = uint x"
proof -
  have eq: "unat (ucast x :: 'b word) = unat x" using assms by (intro unat_ucast_up) simp
  have "(2 :: nat) ^ Suc LENGTH('a) \<le> 2 ^ LENGTH('b)" using assms by (intro power_increasing) auto
  then have "2 * unat (ucast x :: 'b word) < 2 ^ LENGTH('b)"
    using unat_less_2p [of x] unfolding eq power_Suc by linarith
  then have "sint (ucast x :: 'b word) = uint (ucast x :: 'b word)" by (simp add: sint_uint_iff)
  then show ?thesis using assms by (simp add: ucast_widen)
qed

text \<open>The integers a value holds, as numbers.\<close>

fun ints_of :: "nt_value \<Rightarrow> int list option" where
  "ints_of (VInt8 v) = Some [sint v]"
| "ints_of (VInt16 v) = Some [sint v]"
| "ints_of (VInt32 v) = Some [sint v]"
| "ints_of (VInt64 v) = Some [sint v]"
| "ints_of (VUint8 v) = Some [uint v]"
| "ints_of (VUint16 v) = Some [uint v]"
| "ints_of (VUint32 v) = Some [uint v]"
| "ints_of (VUint64 v) = Some [uint v]"
| "ints_of (VInt8Array vs) = Some (map sint vs)"
| "ints_of (VInt16Array vs) = Some (map sint vs)"
| "ints_of (VInt32Array vs) = Some (map sint vs)"
| "ints_of (VInt64Array vs) = Some (map sint vs)"
| "ints_of (VUint8Array vs) = Some (map uint vs)"
| "ints_of (VUint16Array vs) = Some (map uint vs)"
| "ints_of (VUint32Array vs) = Some (map uint vs)"
| "ints_of (VUint64Array vs) = Some (map uint vs)"
| "ints_of _ = None"

fun fits_signed :: "nt_value \<Rightarrow> bool" where
  "fits_signed (VUint32Array vs) \<longleftrightarrow> list_all (\<lambda>v. unat v < 2 ^ 31) vs"
| "fits_signed (VUint64Array vs) \<longleftrightarrow> list_all (\<lambda>v. unat v < 2 ^ 63) vs"
| "fits_signed _ \<longleftrightarrow> True"

text \<open>Values that hold an encoded message, which the conversion decodes.\<close>

fun is_message :: "nt_value \<Rightarrow> bool" where
  "is_message (VBytesList _) \<longleftrightarrow> True"
| "is_message (VCoordinate _) \<longleftrightarrow> True"
| "is_message (VBezier _) \<longleftrightarrow> True"
| "is_message _ \<longleftrightarrow> False"

lemma kind_trip:
  "xt_data_type (value_of_kind Q (kind_of_value P v)) = xt_data_type v
   \<and> (ints_of (value_of_kind Q (kind_of_value P v)) = ints_of v \<longleftrightarrow> fits_signed v)
   \<and> (ints_of v = None \<and> \<not> is_message v \<longrightarrow> value_of_kind Q (kind_of_value P v) = v)"
proof -
  have s8: "sint (scast (x :: u8) :: u32) = sint x" and s16: "sint (scast (y :: u16) :: u32) = sint y"
    and u8: "uint (ucast (x :: u8) :: u32) = uint x" and u16: "uint (ucast (y :: u16) :: u32) = uint y"
    and us8: "sint (ucast (x :: u8) :: u32) = uint x" and us16: "sint (ucast (y :: u16) :: u32) = uint y" for x y
    by (simp_all add: scast_widen ucast_widen ucast_widen_signed)
  have "sint w = uint w \<longleftrightarrow> unat w < 2 ^ 31" for w :: u32 by (simp add: sint_uint_iff)
  moreover have "sint w = uint w \<longleftrightarrow> unat w < 2 ^ 63" for w :: u64 by (simp add: sint_uint_iff)
  ultimately show ?thesis
    by (cases v) (simp_all add: s8 s16 u8 u16 us8 us16 comp_def list_all_iff)
qed

text \<open>What the read cache stores for a value and publishes again has the value's data type, its
  integers read the same exactly when no element of an unsigned array exceeds the signed range it is
  stored in, and a value of any other kind that is not an encoded message comes back as itself.\<close>

lemma cached_value_reads_back:
  "xt_data_type (value_of_kind P (kind_of_value P v)) = xt_data_type v
   \<and> (ints_of (value_of_kind P (kind_of_value P v)) = ints_of v \<longleftrightarrow> fits_signed v)
   \<and> (ints_of v = None \<and> \<not> is_message v \<longrightarrow> value_of_kind P (kind_of_value P v) = v)"
  by (rule kind_trip)

text \<open>A codec that writes nothing and reads nothing, for concrete runs.\<close>

definition null_prost :: prost where
  "null_prost = \<lparr> bytes_list_encode = (\<lambda>_. []), bytes_list_decode = (\<lambda>_. None),
     coordinate_list_encode = (\<lambda>_. []), coordinate_list_decode = (\<lambda>_. None), bezier_curve_encode = (\<lambda>_. []),
     bezier_curves_encode = (\<lambda>_. []), bezier_curves_decode = (\<lambda>_. None), bezier_curves_list_encode = (\<lambda>_. []),
     request_decode = (\<lambda>_. None), reply_encode = (\<lambda>_. []) \<rparr>"

text \<open>A kind that goes to the clients and comes back is the same kind, if the encoded messages decode
  again, except that a single curve and a list of curve sets come back as a curve set.\<close>

fun reencodes :: "prost \<Rightarrow> kind \<Rightarrow> bool" where
  "reencodes P (KBytesList l) \<longleftrightarrow> bytes_list_decode P (bytes_list_encode P l) = Some l"
| "reencodes P (KCoordinateList l) \<longleftrightarrow> coordinate_list_decode P (coordinate_list_encode P l) = Some l"
| "reencodes P (KBezierCurves c) \<longleftrightarrow> bezier_curves_decode P (bezier_curves_encode P c) = Some c"
| "reencodes P (KBezierCurve _) \<longleftrightarrow> False"
| "reencodes P (KBezierCurvesList _) \<longleftrightarrow> False"
| "reencodes P _ \<longleftrightarrow> True"

lemma kind_round_trip: "reencodes P k \<Longrightarrow> kind_of_value P (value_of_kind P k) = k"
  by (cases k) simp_all

lemma curve_changes_kind:
  "kind_of_value P (value_of_kind P (KBezierCurve c)) \<noteq> KBezierCurve c"
  "kind_of_value P (value_of_kind P (KBezierCurvesList l)) \<noteq> KBezierCurvesList l"
  by simp_all

end
