(* ===== verification/Control_Plane.thy ===== *)
theory Control_Plane
  imports Ws_Server_Props Proto_Value Server_Log Telemetry_Relay
begin

text \<open>
  The control plane of \<^verbatim>\<open>core/src/server.rs\<close>: the read cache, the handler that answers a client's
  requests, and the sink that stores published values.  Together with the NT4 server they are the
  whole program: \<open>tarwyn_host\<close> is the host the NT4 server is bound with.

  Clock readings, the uptime and the state of the sockets during a compare-and-set are functions of
  the number of requests served so far, so that every request may meet different ones.
\<close>

definition CHANNEL_HISTORY :: nat where "CHANNEL_HISTORY = 1"
definition NO_DATA_SENTINEL :: string where "NO_DATA_SENTINEL = ''TARWYN_INTERNAL_NO_DATA_AVAILABLE''"
definition LOG_TOPIC :: string where "LOG_TOPIC = ''TARWYN_INTERNAL_LOG''"

type_synonym cache = "(string, kind ring_buffer) hm"

record plane =
  cached :: cache
  cached_poisoned :: bool
  plane_telemetry :: telemetry_plane
  plane_logger :: logger
  plane_requests :: nat

record control_env =
  ctl_prost :: prost
  ctl_env :: env
  ctl_nanos :: "nat \<Rightarrow> u64"
  ctl_uptime :: "nat \<Rightarrow> u64"
  ctl_weather :: "nat \<Rightarrow> weather"
  ctl_version :: string

definition plane_new :: plane where
  "plane_new = \<lparr> cached = [], cached_poisoned = False, plane_telemetry = telemetry_new, plane_logger = LOGGER,
     plane_requests = 0 \<rparr>"

section \<open>The read cache\<close>

definition cache_read :: "cache \<Rightarrow> string \<Rightarrow> kind option" where
  "cache_read c channel = Option.bind (hm_get c channel) ring_peek"

definition compare_and_set :: "compare_and_set_command \<Rightarrow> cache \<Rightarrow> (bool \<times> kind option) \<times> cache" where
  "compare_and_set command c =
     (let current = cache_read c (cas_channel command);
          matches = (if cas_expect_absent command then current = None
                     else case (current, Option.bind (cas_expected command) (\<lambda>v. v)) of
                            (Some current, Some expected) \<Rightarrow> kind_eq current expected
                          | _ \<Rightarrow> False)
      in if \<not> matches then ((False, current), c)
         else case Option.bind (cas_value command) (\<lambda>v. v) of
           None \<Rightarrow> ((False, current), c)
         | Some kind \<Rightarrow>
             if current = None \<and> length c \<ge> MAX_TOPICS then ((False, None), c)
             else let ring = (case hm_get c (cas_channel command) of Some ring \<Rightarrow> ring | None \<Rightarrow> ring_new CHANNEL_HISTORY)
                  in ((True, Some kind), hm_insert c (cas_channel command) (ring_push kind ring)))"

definition cache_store :: "string \<Rightarrow> kind \<Rightarrow> cache \<Rightarrow> cache" where
  "cache_store name kind c =
     (case hm_get c name of
        Some ring \<Rightarrow> hm_insert c name (ring_push kind ring)
      | None \<Rightarrow>
          if length c \<ge> MAX_TOPICS then c
          else hm_insert c name (ring_push kind (ring_new CHANNEL_HISTORY)))"

definition value_sink :: "prost \<Rightarrow> string \<Rightarrow> nt_value \<Rightarrow> plane \<Rightarrow> plane" where
  "value_sink P name v a =
     (if cached_poisoned a then a else a\<lparr> cached := cache_store name (kind_of_value P v) (cached a) \<rparr>)"

definition delete_channels :: "string \<Rightarrow> cache \<Rightarrow> nat \<times> cache" where
  "delete_channels channel c =
     (if channel = [] then (length c, [])
      else ((if hm_has c channel then 1 else 0), hm_remove c channel))"

definition list_tables :: "string \<Rightarrow> cache \<Rightarrow> string list" where
  "list_tables pre c = sort (filter (\<lambda>name. starts_with name pre) (map fst c))"

section \<open>JSON documents\<close>

definition hex_digit :: "nat \<Rightarrow> char" where
  "hex_digit n = ''0123456789abcdef'' ! n"

definition hex_byte :: "u8 \<Rightarrow> string" where
  "hex_byte b = [hex_digit (unat b div 16), hex_digit (unat b mod 16)]"

definition json_hex :: "bytes \<Rightarrow> json" where
  "json_hex bs = JString (concat (map hex_byte bs))"

definition json_point :: "control_point \<Rightarrow> json" where
  "json_point p =
     (let xy = om_insert (om_insert [] ''x'' (json_f64 (cp_x p))) ''y'' (json_f64 (cp_y p)) in
      JObject (case cp_rotation_degrees p of
          None \<Rightarrow> xy
        | Some degrees \<Rightarrow> om_insert xy ''rotationDegrees'' (json_f64 degrees)))"

definition json_curve :: "bezier_curve \<Rightarrow> json" where
  "json_curve c = JArray (map json_point c)"

definition json_i32 :: "u32 \<Rightarrow> json" where
  "json_i32 v = json_i64 (scast v)"

fun json_value :: "kind \<Rightarrow> json" where
  "json_value (KString v) = JString v"
| "json_value (KInt32 v) = json_i32 v"
| "json_value (KInt64 v) = json_i64 v"
| "json_value (KUint32 v) = json_u32 v"
| "json_value (KUint64 v) = json_u64 v"
| "json_value (KBool v) = JBool v"
| "json_value (KDouble v) = json_f64 v"
| "json_value (KFloat v) = json_f64 (f32_to_f64 v)"
| "json_value (KBytes v) = json_hex v"
| "json_value (KStringList vs) = JArray (map JString vs)"
| "json_value (KBytesList vs) = JArray (map json_hex vs)"
| "json_value (KBoolList vs) = JArray (map JBool vs)"
| "json_value (KFloatList vs) = JArray (map json_f32 vs)"
| "json_value (KDoubleList vs) = JArray (map json_f64 vs)"
| "json_value (KIntegerList vs) = JArray (map json_i32 vs)"
| "json_value (KLongList vs) = JArray (map json_i64 vs)"
| "json_value (KCoordinateList cs) =
     JArray (map (\<lambda>c. JObject (om_insert (om_insert [] ''x'' (json_f64 (co_x c))) ''y'' (json_f64 (co_y c)))) cs)"
| "json_value (KBezierCurve c) = json_curve c"
| "json_value (KBezierCurves cs) = JArray (map json_curve (bc_curves cs))"
| "json_value (KBezierCurvesList l) = JArray (map (\<lambda>cs. JArray (map json_curve (bc_curves cs))) l)"

definition cache_document :: "cache \<Rightarrow> string \<Rightarrow> jmap" where
  "cache_document c pre =
     foldl (\<lambda>doc (name, v). om_insert doc name v) []
       (filter_map (\<lambda>(name, ring). map_option (\<lambda>k. (name, json_value k)) (ring_peek ring))
         (filter (\<lambda>(name, _). starts_with name pre) c))"

definition cache_to_json :: "env \<Rightarrow> cache \<Rightarrow> string \<Rightarrow> string" where
  "cache_to_json E c pre = to_string E (JObject (cache_document c pre))"

section \<open>The control handler\<close>

definition data_reply :: "u64 \<Rightarrow> kind option \<Rightarrow> reply" where
  "data_reply i data =
     \<lparr> rep_id = i, rep_payload = Some (RepData (Some (Some (unwrap_or data (KString NO_DATA_SENTINEL))))) \<rparr>"

definition reply_with :: "u64 \<Rightarrow> reply_payload \<Rightarrow> reply" where
  "reply_with i p = \<lparr> rep_id = i, rep_payload = Some p \<rparr>"

definition plane_statistics :: "control_env \<Rightarrow> plane ws_server \<Rightarrow> statistics" where
  "plane_statistics C s =
     (let a = ws_app s in
      \<lparr> stat_channels = (if cached_poisoned a then 0 else of_nat (length (cached a))),
        stat_values = (if cached_poisoned a then 0 else of_nat (sum_list (map (\<lambda>(_, ring). ring_len ring) (cached a)))),
        stat_telemetry_subscribers =
          of_nat (sum_list (map (\<lambda>(_, addresses). length addresses) (tel_published (plane_telemetry a)))),
        stat_uptime_seconds = ctl_uptime C (plane_requests a),
        stat_version = ctl_version C,
        stat_dropped_publishes = of_nat (dropped_publishes s),
        stat_dropped_logs = dropped_logs (plane_logger a) \<rparr>)"

text \<open>The swap decided under the registry's lock: what it publishes, and the outcome it reports.\<close>

definition swap_decision :: "prost \<Rightarrow> bool \<times> kind option \<Rightarrow> nt_value option" where
  "swap_decision P outcome = (case outcome of (True, Some kind) \<Rightarrow> Some (value_of_kind P kind) | _ \<Rightarrow> None)"

definition serve_compare_and_set ::
  "control_env \<Rightarrow> compare_and_set_command \<Rightarrow> plane ws_server \<Rightarrow> (bool \<times> kind option) \<times> plane ws_server" where
  "serve_compare_and_set C command s =
     (let w = ctl_weather C (plane_requests (ws_app s));
          (now, r) = now_micros (ctl_env C) (ws_registry s);
          (outcome, c) = compare_and_set command (cached (ws_app s));
          s = fan_out_upsert_with w (cas_channel command) now
                (\<lambda>a. (swap_decision (ctl_prost C) outcome, a\<lparr> cached := c \<rparr>)) (s\<lparr> ws_registry := r \<rparr>)
      in (outcome, s))"

definition serve_request :: "control_env \<Rightarrow> u64 \<Rightarrow> request_payload \<Rightarrow> plane ws_server \<Rightarrow> reply \<times> plane ws_server" where
  "serve_request C i p s =
     (let a = ws_app s in
      case p of
        ReqData channel \<Rightarrow>
          (data_reply i (if cached_poisoned a then None else cache_read (cached a) channel), s)
      | ReqDelete channel \<Rightarrow>
          (if cached_poisoned a then (reply_with i (RepDelete 0), s)
           else let (deleted, c) = delete_channels channel (cached a)
                in (reply_with i (RepDelete (of_nat deleted)), s\<lparr> ws_app := a\<lparr> cached := c \<rparr> \<rparr>))
      | ReqTables pre \<Rightarrow>
          (reply_with i (RepTables (if cached_poisoned a then [] else list_tables pre (cached a))), s)
      | ReqPing sent_nanos \<Rightarrow> (reply_with i (RepPing sent_nanos (ctl_nanos C (plane_requests a))), s)
      | ReqStatistics \<Rightarrow> (reply_with i (RepStatistics (plane_statistics C s)), s)
      | ReqJson pre \<Rightarrow>
          (reply_with i (RepJson (if cached_poisoned a then ''{}'' else cache_to_json (ctl_env C) (cached a) pre)), s)
      | ReqCompareAndSet command \<Rightarrow>
          let ((swapped, current), s) = serve_compare_and_set C command s
          in (reply_with i (RepCompareAndSet swapped (map_option Some current)), s)
      | ReqLogs \<Rightarrow> (reply_with i (RepLogs (unwrap_or (get_logs (plane_logger a)) [])), s))"

definition count_request :: "plane ws_server \<Rightarrow> plane ws_server" where
  "count_request s = s\<lparr> ws_app := (ws_app s)\<lparr> plane_requests := plane_requests (ws_app s) + 1 \<rparr> \<rparr>"

definition control_handler :: "control_env \<Rightarrow> bytes \<Rightarrow> plane ws_server \<Rightarrow> bytes option \<times> plane ws_server" where
  "control_handler C payload s =
     (case request_decode (ctl_prost C) payload of
        None \<Rightarrow> (None, s)
      | Some request \<Rightarrow>
          (case req_payload request of
             None \<Rightarrow> (None, s)
           | Some p \<Rightarrow> let (reply, s) = serve_request C (req_id request) p s
                       in (Some (reply_encode (ctl_prost C) reply), count_request s)))"

definition tarwyn_host :: "control_env \<Rightarrow> (string \<Rightarrow> json option) \<Rightarrow> plane host" where
  "tarwyn_host C parse = \<lparr> host_env = ctl_env C, host_parse = parse, host_control = control_handler C,
     host_sink = value_sink (ctl_prost C) \<rparr>"

text \<open>One turn of the log relay: the unread lines go out on the log topic.\<close>

definition log_relay :: "weather \<Rightarrow> u64 \<Rightarrow> plane ws_server \<Rightarrow> plane ws_server" where
  "log_relay w now s =
     (case wait_unread_logs (plane_logger (ws_app s)) of
        (None, g) \<Rightarrow> s\<lparr> ws_app := (ws_app s)\<lparr> plane_logger := g \<rparr> \<rparr>
      | (Some logs, g) \<Rightarrow> fan_out_upsert w LOG_TOPIC (VStringArray logs) now
                            (s\<lparr> ws_app := (ws_app s)\<lparr> plane_logger := g \<rparr> \<rparr>))"

end
