(* ===== verification/Control_Plane_Props.thy ===== *)
theory Control_Plane_Props
  imports Control_Plane
begin

text \<open>
  What the control plane promises: the read cache refines a map from channels to their newest
  value, compare-and-set is a test-and-set on that map, every request is answered under its own id,
  and the NT4 server keeps its invariant with this control plane as its host.  One theorem shows
  where the read cache and the registry part ways.
\<close>

section \<open>The cache as a map\<close>

definition cache_abs :: "cache \<Rightarrow> string \<rightharpoonup> kind" where
  "cache_abs c = cache_read c"

definition cache_ok :: "cache \<Rightarrow> bool" where
  "cache_ok c \<longleftrightarrow> hm_ok c \<and> length c \<le> MAX_TOPICS
     \<and> (\<forall>name ring. hm_get c name = Some ring \<longrightarrow> ring_capacity ring = CHANNEL_HISTORY \<and> ring_len ring = 1)"

lemma push_one:
  "ring_capacity ring = CHANNEL_HISTORY \<Longrightarrow> ring_len ring \<le> 1 \<Longrightarrow>
     ring_capacity (ring_push k ring) = CHANNEL_HISTORY \<and> ring_len (ring_push k ring) = 1
     \<and> ring_peek (ring_push k ring) = Some k"
  by (cases "ring_items ring") (auto simp: ring_push_def ring_len_def ring_peek_def CHANNEL_HISTORY_def Let_def)

lemma push_new [simp]:
  "ring_capacity (ring_push k (ring_new CHANNEL_HISTORY)) = CHANNEL_HISTORY"
  "ring_len (ring_push k (ring_new CHANNEL_HISTORY)) = 1"
  "ring_peek (ring_push k (ring_new CHANNEL_HISTORY)) = Some k"
  using push_one [of "ring_new CHANNEL_HISTORY" k] by (simp_all add: ring_new_def ring_len_def)

lemma cache_ok_ring:
  "cache_ok c \<Longrightarrow> hm_get c name = Some ring \<Longrightarrow> ring_capacity ring = CHANNEL_HISTORY \<and> ring_len ring = 1"
  unfolding cache_ok_def by blast

lemma cache_ok_present: "cache_ok c \<Longrightarrow> cache_read c name = None \<longleftrightarrow> \<not> hm_has c name"
  by (cases "hm_get c name") (auto simp: cache_read_def ring_len_def ring_peek_def dest: cache_ok_ring)

lemma dom_cache_abs: "cache_ok c \<Longrightarrow> dom (cache_abs c) = fst ` set c"
  using cache_ok_present [of c] unfolding cache_abs_def dom_def by (simp only: hm_has_keys) blast

lemma cache_ok_Nil: "cache_ok []" and cache_abs_Nil: "cache_abs [] = Map.empty"
  by (auto simp: cache_ok_def cache_abs_def cache_read_def)

lemma card_cache: "cache_ok c \<Longrightarrow> card (dom (cache_abs c)) = length c"
  by (metis cache_ok_def dom_cache_abs distinct_card length_map list.set_map)

text \<open>Putting one value in, whether the channel was there or not.\<close>

lemma cache_put:
  assumes ok: "cache_ok c" and room: "hm_has c name \<or> length c < MAX_TOPICS"
    and ring: "ring = (case hm_get c name of Some ring \<Rightarrow> ring | None \<Rightarrow> ring_new CHANNEL_HISTORY)"
  shows "cache_ok (hm_insert c name (ring_push k ring))"
    and "cache_abs (hm_insert c name (ring_push k ring)) = (cache_abs c)(name \<mapsto> k)"
proof -
  have "ring_capacity ring = CHANNEL_HISTORY \<and> ring_len ring \<le> 1"
    using ring cache_ok_ring [OF ok, of name]
    by (cases "hm_get c name") (simp_all add: ring_new_def ring_len_def)
  then have pushed: "ring_capacity (ring_push k ring) = CHANNEL_HISTORY" "ring_len (ring_push k ring) = 1"
    "ring_peek (ring_push k ring) = Some k"
    using push_one [of ring k] by simp_all
  have rings: "ring_capacity x = CHANNEL_HISTORY \<and> ring_len x = 1"
    if "hm_get (hm_insert c name (ring_push k ring)) y = Some x" for x y
    using that pushed cache_ok_ring [OF ok, of y x] by (cases "y = name") auto
  have "length (hm_insert c name (ring_push k ring)) \<le> MAX_TOPICS" "hm_ok c"
    using ok room by (auto simp: cache_ok_def length_hm_insert)
  then show "cache_ok (hm_insert c name (ring_push k ring))"
    using rings unfolding cache_ok_def by simp
  show "cache_abs (hm_insert c name (ring_push k ring)) = (cache_abs c)(name \<mapsto> k)"
    using pushed(3) by (auto simp: cache_abs_def cache_read_def fun_eq_iff)
qed

lemma cache_drop:
  assumes "cache_ok c"
  shows "cache_ok (hm_remove c name)" "cache_abs (hm_remove c name) = (cache_abs c)(name := None)"
proof -
  have "length (hm_remove c name) \<le> MAX_TOPICS" "hm_ok c"
    using assms by (auto simp: cache_ok_def hm_remove_def AList.delete_eq intro: order_trans [OF length_filter_le])
  moreover have "ring_capacity x = CHANNEL_HISTORY \<and> ring_len x = 1"
    if "hm_get (hm_remove c name) y = Some x" for x y
    using that cache_ok_ring [OF assms, of y x] by (cases "y = name") auto
  ultimately show "cache_ok (hm_remove c name)" unfolding cache_ok_def by simp
  show "cache_abs (hm_remove c name) = (cache_abs c)(name := None)"
    by (auto simp: cache_abs_def cache_read_def fun_eq_iff)
qed

subsection \<open>The specification\<close>

text \<open>A store of at most \<open>MAX_TOPICS\<close> channels, each with one value.\<close>

datatype cache_op = Store string kind | Delete string | Swap compare_and_set_command

fun spec_matches :: "compare_and_set_command \<Rightarrow> (string \<rightharpoonup> kind) \<Rightarrow> bool" where
  "spec_matches command m \<longleftrightarrow>
     (if cas_expect_absent command then m (cas_channel command) = None
      else \<exists>k e. m (cas_channel command) = Some k \<and> cas_expected command = Some (Some e) \<and> kind_eq k e)"

definition spec_room :: "string \<Rightarrow> (string \<rightharpoonup> kind) \<Rightarrow> bool" where
  "spec_room name m \<longleftrightarrow> m name \<noteq> None \<or> card (dom m) < MAX_TOPICS"

fun spec_op :: "cache_op \<Rightarrow> (string \<rightharpoonup> kind) \<Rightarrow> (string \<rightharpoonup> kind)" where
  "spec_op (Store name k) m = (if spec_room name m then m(name \<mapsto> k) else m)"
| "spec_op (Delete name) m = (if name = [] then Map.empty else m(name := None))"
| "spec_op (Swap command) m =
     (case cas_value command of
        Some (Some k) \<Rightarrow> if spec_matches command m \<and> spec_room (cas_channel command) m
                          then m(cas_channel command \<mapsto> k) else m
      | _ \<Rightarrow> m)"

fun cache_do :: "cache_op \<Rightarrow> cache \<Rightarrow> cache" where
  "cache_do (Store name k) c = cache_store name k c"
| "cache_do (Delete name) c = snd (delete_channels name c)"
| "cache_do (Swap command) c = snd (compare_and_set command c)"

lemma spec_room_cache: "cache_ok c \<Longrightarrow> spec_room name (cache_abs c) \<longleftrightarrow> hm_has c name \<or> length c < MAX_TOPICS"
  using cache_ok_present [of c name] card_cache [of c] by (auto simp: spec_room_def cache_abs_def)

lemma compare_and_set_cases:
  assumes "cache_ok c"
  shows "compare_and_set command c =
    (case cas_value command of
       Some (Some k) \<Rightarrow>
         if spec_matches command (cache_abs c) \<and> spec_room (cas_channel command) (cache_abs c)
         then ((True, Some k), hm_insert c (cas_channel command) (ring_push k
                (case hm_get c (cas_channel command) of Some ring \<Rightarrow> ring | None \<Rightarrow> ring_new CHANNEL_HISTORY)))
         else ((False, cache_abs c (cas_channel command)), c)
     | _ \<Rightarrow> ((False, cache_abs c (cas_channel command)), c))"
proof -
  define cur where "cur = cache_read c (cas_channel command)"
  have abs: "cache_abs c (cas_channel command) = cur" by (simp add: cache_abs_def cur_def)
  have room: "spec_room (cas_channel command) (cache_abs c) \<longleftrightarrow> \<not> (cur = None \<and> MAX_TOPICS \<le> length c)"
    using spec_room_cache [OF assms] cache_ok_present [OF assms] by (auto simp: cur_def)
  have matches: "spec_matches command (cache_abs c) \<longleftrightarrow> (if cas_expect_absent command then cur = None
      else case (cur, Option.bind (cas_expected command) (\<lambda>v. v)) of
             (Some current, Some expected) \<Rightarrow> kind_eq current expected | _ \<Rightarrow> False)"
    by (auto simp: abs split: option.splits bind_splits)
  show ?thesis
    unfolding compare_and_set_def room matches abs cur_def [symmetric] Let_def
    by (auto split: option.splits bind_splits)
qed

lemma cache_do_refines:
  assumes "cache_ok c"
  shows "cache_ok (cache_do op c) \<and> cache_abs (cache_do op c) = spec_op op (cache_abs c)"
proof (cases op)
  case (Store name k)
  then show ?thesis
    using cache_put [OF assms, of name] spec_room_cache [OF assms, of name] assms
    by (auto simp: cache_store_def split: option.splits)
next
  case (Delete name)
  then show ?thesis using cache_drop [OF assms] by (simp add: delete_channels_def cache_ok_Nil cache_abs_Nil)
next
  case (Swap command)
  then show ?thesis
    using cache_put [OF assms, of "cas_channel command"] spec_room_cache [OF assms, of "cas_channel command"] assms
    by (auto simp: compare_and_set_cases [OF assms] split: option.split)
qed

text \<open>C19. The read cache refines a bounded map from channels to their newest value: whatever values
  are stored, channels deleted and swaps tried, in whatever order, the cache shows exactly what the
  same operations make of that map, holds one value per channel and never more than
  \<open>MAX_TOPICS\<close> channels.\<close>

theorem cache_refines_map:
  "cache_ok (fold cache_do ops []) \<and> cache_abs (fold cache_do ops []) = fold spec_op ops Map.empty"
proof -
  have "cache_ok (fold cache_do ops c) \<and> cache_abs (fold cache_do ops c) = fold spec_op ops (cache_abs c)"
    if "cache_ok c" for c
    using that
  proof (induction ops arbitrary: c)
    case (Cons op ops)
    then show ?case using cache_do_refines [OF Cons.prems, of op] by simp
  qed simp
  from this [OF cache_ok_Nil] show ?thesis by (simp add: cache_abs_Nil)
qed

section \<open>Compare-and-set\<close>

text \<open>C20. A compare-and-set succeeds exactly when the channel holds what was expected (or nothing,
  when nothing was expected), a new value was given and there is room; it then stores the new value and
  reports it; otherwise it changes nothing and reports the value that is there.  So of any number of
  clients that try to swap the same expected value for values that differ from it, one wins:
  repeating a successful swap fails until somebody else writes the channel.\<close>

theorem compare_and_set_spec:
  assumes ok: "cache_ok c" and run: "compare_and_set command c = ((swapped, current), c')"
  shows "(swapped \<longleftrightarrow> spec_matches command (cache_abs c) \<and> spec_room (cas_channel command) (cache_abs c)
        \<and> (\<exists>k. cas_value command = Some (Some k)))
    \<and> (swapped \<longrightarrow> cas_value command = Some current \<and> cache_abs c' = (cache_abs c)(cas_channel command := current))
    \<and> (\<not> swapped \<longrightarrow> c' = c \<and> current = cache_abs c (cas_channel command))
    \<and> (swapped \<and> (\<forall>e. cas_expected command = Some (Some e) \<longrightarrow> \<not> kind_eq (the current) e) \<longrightarrow>
        \<not> fst (fst (compare_and_set command c')))"
proof -
  note cases = compare_and_set_cases [OF ok, of command, unfolded run]
  have spec: "swapped \<longleftrightarrow> spec_matches command (cache_abs c) \<and> spec_room (cas_channel command) (cache_abs c)
      \<and> (\<exists>k. cas_value command = Some (Some k))"
    and lost: "\<not> swapped \<Longrightarrow> c' = c \<and> current = cache_abs c (cas_channel command)"
    using cases by (auto split: option.splits if_splits simp del: spec_matches.simps)
  have won: "cas_value command = Some current \<and> cache_abs c' = (cache_abs c)(cas_channel command := current)
      \<and> current \<noteq> None" if "swapped"
  proof -
    obtain k where "cas_value command = Some (Some k)"
      "spec_matches command (cache_abs c)" "spec_room (cas_channel command) (cache_abs c)"
      using spec \<open>swapped\<close> by blast
    then show ?thesis
      using cases cache_put(2) [OF ok _ refl, of "cas_channel command" k] spec_room_cache [OF ok]
      by (simp del: spec_matches.simps)
  qed
  have "\<not> fst (fst (compare_and_set command c'))"
    if "swapped" and differs: "\<forall>e. cas_expected command = Some (Some e) \<longrightarrow> \<not> kind_eq (the current) e"
  proof -
    have "\<not> spec_matches command (cache_abs c')" using won [OF \<open>swapped\<close>] differs by auto
    moreover have "cache_ok c'" using cache_do_refines [OF ok, of "Swap command"] run by simp
    ultimately show ?thesis by (auto simp: compare_and_set_cases split: option.split simp del: spec_matches.simps)
  qed
  with spec won lost show ?thesis by blast
qed

theorem compare_and_set_spec_witness:
  "let command = \<lparr> cas_channel = ''lock'', cas_expected = None, cas_value = Some (Some (KInt32 7)), cas_expect_absent = True \<rparr>;
       ((swapped, current), c) = compare_and_set command [] in
   swapped \<and> cache_abs c ''lock'' = Some (KInt32 7) \<and> fst (fst (compare_and_set command c)) = False"
proof -
  define command where "command = \<lparr> cas_channel = ''lock'', cas_expected = None,
    cas_value = Some (Some (KInt32 7)), cas_expect_absent = True \<rparr>"
  obtain swapped current c where run: "compare_and_set command [] = ((swapped, current), c)" by (metis surj_pair)
  have f: "cas_channel command = ''lock''" "cas_expected command = None" "cas_value command = Some (Some (KInt32 7))"
    "cas_expect_absent command"
    by (simp_all add: command_def)
  note spec = compare_and_set_spec [OF cache_ok_Nil run]
  have "swapped" using spec f by (simp add: cache_abs_Nil spec_room_def MAX_TOPICS_def)
  then show ?thesis
    using spec f run unfolding command_def [symmetric] by auto
qed

text \<open>A value that holds a NaN can be stored but never swapped out by its own value: the comparison is
  the one of floating point.\<close>

lemma nan_never_matches:
  assumes "\<not> cas_expect_absent command" and "cache_abs c (cas_channel command) = Some k"
    and "cas_expected command = Some (Some k)" and "\<not> kind_ordinary k" and "cache_ok c"
  shows "fst (fst (compare_and_set command c)) = False"
  using assms by (auto simp: compare_and_set_cases kind_eq_refl split: option.split)

section \<open>Replies\<close>

fun read_only :: "request_payload \<Rightarrow> bool" where
  "read_only (ReqDelete _) \<longleftrightarrow> False"
| "read_only (ReqCompareAndSet _) \<longleftrightarrow> False"
| "read_only _ \<longleftrightarrow> True"

text \<open>The kind of reply each request asks for, and what it says of the cache.\<close>

definition answers :: "control_env \<Rightarrow> plane ws_server \<Rightarrow> request_payload \<Rightarrow> reply_payload \<Rightarrow> bool" where
  "answers C s p rep = (let m = cache_abs (cached (ws_app s)) in
     case p of
       ReqData channel \<Rightarrow> rep = RepData (Some (Some (unwrap_or (m channel) (KString NO_DATA_SENTINEL))))
     | ReqTables pre \<Rightarrow> (\<exists>names. rep = RepTables names \<and> sorted names \<and> distinct names
         \<and> set names = {name \<in> dom m. starts_with name pre})
     | ReqDelete channel \<Rightarrow> (\<exists>n. rep = RepDelete n
         \<and> unat n = (if channel = [] then card (dom m) else if channel \<in> dom m then 1 else 0))
     | ReqPing sent \<Rightarrow> (\<exists>now. rep = RepPing sent now)
     | ReqStatistics \<Rightarrow> (\<exists>st. rep = RepStatistics st \<and> stat_channels st = stat_values st
         \<and> unat (stat_channels st) = card (dom m))
     | ReqJson pre \<Rightarrow> (\<exists>doc. rep = RepJson (to_string (ctl_env C) (JObject doc)) \<and> om_ok doc
         \<and> (\<forall>name. om_get doc name = (if starts_with name pre then map_option json_value (m name) else None)))
     | ReqCompareAndSet command \<Rightarrow> (\<exists>current. rep = RepCompareAndSet (fst (fst (compare_and_set command (cached (ws_app s))))) current)
     | ReqLogs \<Rightarrow> (\<exists>logs. rep = RepLogs logs \<and> get_logs (plane_logger (ws_app s)) = Some logs))"

lemma tables_answer:
  assumes "cache_ok c"
  shows "sorted (list_tables pre c) \<and> distinct (list_tables pre c)
    \<and> set (list_tables pre c) = {name \<in> dom (cache_abs c). starts_with name pre}"
  using assms dom_cache_abs [OF assms] by (auto simp: list_tables_def cache_ok_def)

lemma document_answer:
  assumes "cache_ok c"
  shows "om_ok (cache_document c pre) \<and> om_get (cache_document c pre) name =
    (if starts_with name pre then map_option json_value (cache_abs c name) else None)"
proof -
  let ?ins = "\<lambda>doc (name, v). om_insert doc name v"
  let ?rows = "\<lambda>c. filter_map (\<lambda>(name, ring). map_option (\<lambda>k. (name, json_value k)) (ring_peek ring))
         (filter (\<lambda>(name, _). starts_with name pre) c)"
  have rows: "om_ok (foldl ?ins acc (?rows c))
      \<and> om_get (foldl ?ins acc (?rows c)) name =
        (if starts_with name pre \<and> cache_read c name \<noteq> None then map_option json_value (cache_read c name) else om_get acc name)"
    if "hm_ok c" and "om_ok acc" for acc and c :: cache
    using that
  proof (induction c arbitrary: acc)
    case (Cons x c)
    obtain n ring where x: "x = (n, ring)" by fastforce
    have "hm_get c n = None" using Cons.prems(1) by (simp add: x map_of_eq_None_iff)
    then show ?case
      using Cons.prems Cons.IH [of acc] Cons.IH [of "om_insert acc n (json_value k)" for k]
      by (cases "ring_peek ring") (auto simp: x cache_read_def)
  qed (simp add: cache_read_def)
  show ?thesis using assms rows [of c "[]"]
    by (auto simp: cache_document_def cache_ok_def cache_abs_def)
qed

lemma values_sum: "cache_ok c \<Longrightarrow> sum_list (map (\<lambda>(_, ring). ring_len ring) c) = length c"
proof -
  assume ok: "cache_ok c"
  then have "ring_len ring = 1" if "(name, ring) \<in> set c" for name ring
    using that cache_ok_ring [OF ok, of name ring] by (simp add: cache_ok_def)
  then have "map (\<lambda>(_, ring). ring_len ring) c = replicate (length c) 1"
    by (intro replicate_eqI) auto
  then show ?thesis by (simp add: sum_list_replicate)
qed

lemma word_of_len: "cache_ok c \<Longrightarrow> unat (of_nat (length c) :: u64) = length c \<and> unat (of_nat (length c) :: u32) = length c"
proof -
  assume "cache_ok c"
  then have "length c \<le> 16384" by (simp add: cache_ok_def MAX_TOPICS_def)
  then show ?thesis by (simp add: unat_of_nat_small)
qed

lemma fan_out_app [simp]: "ws_app (fan_out_upsert_with w name ts decide s) = snd (decide (ws_app s))"
  by (simp add: fan_out_upsert_with_def case_prod_beta Let_def split: option.split)

lemma serve_compare_and_set_app:
  "serve_compare_and_set C command s = (outcome, s') \<Longrightarrow>
     fst (compare_and_set command (cached (ws_app s))) = outcome
     \<and> ws_app s' = (ws_app s)\<lparr> cached := snd (compare_and_set command (cached (ws_app s))) \<rparr>"
  by (auto simp: serve_compare_and_set_def case_prod_beta Let_def)

text \<open>C21. Every well-formed request is answered once, under its own id, with the reply it asks for: the
  newest value of the channel or the sentinel, the channels with a prefix sorted and without
  repetition, the number deleted, the echoed time, counters that agree with the cache, one JSON
  object with every channel under the prefix and no other, the outcome of the swap, or the log
  history.  Only a delete and a compare-and-set change the server.  Bytes that are no request, and
  a request without a command, get no reply and change nothing.\<close>

theorem request_answered:
  assumes ok: "cache_ok (cached (ws_app s))" and healthy: "\<not> cached_poisoned (ws_app s)"
    "\<not> log_history_poisoned (plane_logger (ws_app s))"
  shows "case Option.bind (request_decode (ctl_prost C) payload) (\<lambda>req. map_option (Pair (req_id req)) (req_payload req)) of
      None \<Rightarrow> control_handler C payload s = (None, s)
    | Some (i, p) \<Rightarrow> \<exists>rep s'. control_handler C payload s =
          (Some (reply_encode (ctl_prost C) \<lparr> rep_id = i, rep_payload = Some rep \<rparr>), s')
        \<and> answers C s p rep \<and> (read_only p \<longrightarrow> s' = count_request s) \<and> cache_ok (cached (ws_app s'))"
proof -
  define c where "c = cached (ws_app s)"
  note facts = tables_answer [OF ok] document_answer [OF ok] values_sum [OF ok] word_of_len [OF ok] card_cache [OF ok]
    cache_ok_present [OF ok]
  have served: "\<exists>rep s'. serve_request C i p s = (\<lparr> rep_id = i, rep_payload = Some rep \<rparr>, s')
      \<and> answers C s p rep \<and> (read_only p \<longrightarrow> s' = s) \<and> cache_ok (cached (ws_app s'))" for i p
  proof (cases p)
    case (ReqData channel)
    then show ?thesis using ok healthy
      by (simp add: serve_request_def data_reply_def answers_def cache_abs_def Let_def)
  next
    case (ReqDelete channel)
    then show ?thesis
      using ok healthy facts cache_do_refines [OF ok, of "Delete channel"]
      by (auto simp: serve_request_def reply_with_def answers_def delete_channels_def cache_abs_def dom_def
          cache_ok_Nil Let_def)
  next
    case (ReqCompareAndSet command)
    obtain sw cur s' where run: "serve_compare_and_set C command s = ((sw, cur), s')" by (metis surj_pair)
    then show ?thesis
      using serve_compare_and_set_app [OF run] cache_do_refines [OF ok, of "Swap command"] ReqCompareAndSet
      by (simp add: serve_request_def reply_with_def answers_def)
  qed (use ok healthy facts in \<open>auto simp: serve_request_def reply_with_def answers_def plane_statistics_def
        cache_to_json_def get_logs_def Let_def\<close>)
  show ?thesis
  proof (cases "request_decode (ctl_prost C) payload")
    case (Some req)
    then show ?thesis
    proof (cases "req_payload req")
      case (Some p)
      with \<open>request_decode (ctl_prost C) payload = Some req\<close> show ?thesis
        using served [of "req_id req" p] by (auto simp: control_handler_def count_request_def)
    qed (simp add: control_handler_def)
  qed (simp add: control_handler_def)
qed

definition ping_prost :: prost where
  "ping_prost = null_prost\<lparr> request_decode := (\<lambda>_. Some \<lparr> req_id = 4, req_payload = Some (ReqData ''x'') \<rparr>) \<rparr>"

definition sample_control :: control_env where
  "sample_control = \<lparr> ctl_prost = ping_prost, ctl_env = silent_env, ctl_nanos = (\<lambda>_. 0), ctl_uptime = (\<lambda>_. 0),
     ctl_weather = (\<lambda>_. calm), ctl_version = ''0'' \<rparr>"

theorem request_answered_witness:
  "\<exists>rep s'. control_handler sample_control [1] (ws_server_new plane_new) =
      (Some (reply_encode ping_prost \<lparr> rep_id = 4, rep_payload = Some rep \<rparr>), s')
    \<and> rep = RepData (Some (Some (KString NO_DATA_SENTINEL)))"
proof -
  have "ws_app (ws_server_new plane_new) = plane_new" by (simp add: ws_server_new_def)
  then have "cache_ok (cached (ws_app (ws_server_new plane_new)))" "\<not> cached_poisoned (ws_app (ws_server_new plane_new))"
    "\<not> log_history_poisoned (plane_logger (ws_app (ws_server_new plane_new)))"
    "cached (ws_app (ws_server_new plane_new)) = []"
    by (simp_all add: plane_new_def cache_ok_Nil LOGGER_def)
  with request_answered [of "ws_server_new plane_new" sample_control "[1]"]
  show ?thesis
    by (auto simp: sample_control_def ping_prost_def null_prost_def answers_def cache_abs_Nil Let_def)
qed

section \<open>The whole server\<close>

lemma serve_compare_and_set_keeps:
  "ws_live (snd (serve_compare_and_set C command s)) = ws_live s"
  "sender_ids (snd (serve_compare_and_set C command s)) = sender_ids s"
  "reachable (ctl_env C) (ws_registry s) \<Longrightarrow> reachable (ctl_env C) (ws_registry (snd (serve_compare_and_set C command s)))"
  using reach_tick [of "ctl_env C" "ws_registry s"]
  by (simp_all add: serve_compare_and_set_def case_prod_beta Let_def fan_out_upsert_with_reachable)

lemma serve_request_keeps:
  "ws_live (snd (serve_request C i p s)) = ws_live s"
  "sender_ids (snd (serve_request C i p s)) = sender_ids s"
  "reachable (ctl_env C) (ws_registry s) \<Longrightarrow> reachable (ctl_env C) (ws_registry (snd (serve_request C i p s)))"
  by (cases p; simp add: serve_request_def case_prod_beta Let_def serve_compare_and_set_keeps)+

lemma count_request_keeps [simp]:
  "ws_live (count_request s) = ws_live s" "ws_conns (count_request s) = ws_conns s"
  "ws_registry (count_request s) = ws_registry s" "cached (ws_app (count_request s)) = cached (ws_app s)"
  by (simp_all add: count_request_def)

definition plane_ok :: "plane \<Rightarrow> bool" where
  "plane_ok a \<longleftrightarrow> cache_ok (cached a)"

lemma serve_request_cache:
  assumes "cache_ok (cached (ws_app s))"
  shows "cache_ok (cached (ws_app (snd (serve_request C i p s))))"
proof (cases p)
  case (ReqDelete channel)
  then show ?thesis using assms cache_do_refines [OF assms, of "Delete channel"]
    by (simp add: serve_request_def case_prod_beta Let_def)
next
  case (ReqCompareAndSet command)
  obtain out s' where run: "serve_compare_and_set C command s = (out, s')" by fastforce
  then show ?thesis
    using serve_compare_and_set_app [OF run] cache_do_refines [OF assms, of "Swap command"] ReqCompareAndSet
    by (simp add: serve_request_def case_prod_beta)
qed (use assms in \<open>simp_all add: serve_request_def Let_def\<close>)

interpretation tarwyn: ws_host_app "tarwyn_host C parse" plane_ok for C parse
proof
  fix s :: "plane ws_server" and p
  assume "reachable (host_env (tarwyn_host C parse)) (ws_registry s)"
  then show "reachable (host_env (tarwyn_host C parse)) (ws_registry (snd (host_control (tarwyn_host C parse) p s)))"
    by (simp add: tarwyn_host_def control_handler_def case_prod_beta Let_def serve_request_keeps split: option.split)
next
  fix s :: "plane ws_server" and p
  show "ws_live (snd (host_control (tarwyn_host C parse) p s)) = ws_live s"
    and "sender_ids (snd (host_control (tarwyn_host C parse) p s)) = sender_ids s"
    by (simp_all add: tarwyn_host_def control_handler_def case_prod_beta Let_def serve_request_keeps split: option.split)
next
  fix s :: "plane ws_server" and p
  assume "plane_ok (ws_app s)"
  then show "plane_ok (ws_app (snd (host_control (tarwyn_host C parse) p s)))"
    by (simp add: plane_ok_def tarwyn_host_def control_handler_def case_prod_beta Let_def serve_request_cache
        split: option.split)
next
  fix a :: plane and name v
  assume "plane_ok a"
  then show "plane_ok (host_sink (tarwyn_host C parse) name v a)"
    using cache_do_refines [of "cached a" "Store name (kind_of_value (ctl_prost C) v)"]
    by (simp add: plane_ok_def tarwyn_host_def value_sink_def)
qed

text \<open>C1. In every state the running server can reach, however its connection threads, writer threads and
  publications interleave: the registry is one the registry's own calls reach (and so satisfies all
  of its invariants), at most \<open>MAX_CONNECTIONS\<close> connections hold a slot and each slot is a thread,
  the clients are numbered apart and the connection map holds exactly the clients being served (until
  the 64-bit counter starts over), and the read cache is sound.\<close>

theorem server_invariant:
  assumes "ws_reachable (tarwyn_host C parse) plane_new st"
  shows "reachable (ctl_env C) (ws_registry (sys_server st)) \<and> registry_ok (ws_registry (sys_server st))
    \<and> ws_live (sys_server st) = length (sys_threads st) \<and> length (sys_threads st) \<le> MAX_CONNECTIONS
    \<and> (sys_accepted st \<le> ID_SPACE \<longrightarrow> distinct (map fst (sys_threads st))
        \<and> sender_ids (sys_server st) = served_ids (sys_threads st))
    \<and> cache_ok (cached (ws_app (sys_server st)))"
proof -
  have "plane_ok plane_new" by (simp add: plane_ok_def plane_new_def cache_ok_Nil)
  then have "plane_ok (ws_app (sys_server st))" using tarwyn.reachable_app [OF assms] by simp
  moreover have "sys_ok (ctl_env C) st"
    using tarwyn.ws_reachable_ok [OF assms] by (simp add: tarwyn_host_def)
  moreover from this have "registry_ok (ws_registry (sys_server st))"
    using reachable_ok [of "ctl_env C"] by (simp add: sys_ok_def)
  ultimately show ?thesis by (simp add: sys_ok_def plane_ok_def)
qed

theorem server_invariant_witness:
  "let st = accept_one (ws_system_new plane_new) in
   sys_threads st = [(0, Handshaking)] \<and> length (sys_threads st) \<le> MAX_CONNECTIONS
     \<and> registry_ok (ws_registry (sys_server st))"
proof -
  let ?st = "accept_one (ws_system_new plane_new)"
  have "ws_reachable (tarwyn_host sample_control (\<lambda>_. None)) plane_new ?st"
    by (rule ws_reachable.step [OF ws_reachable.start ws_step.accept])
  note server_invariant [OF this]
  moreover have "sys_threads ?st = [(0, Handshaking)]"
    by (simp add: accept_one_def ws_system_new_def ws_server_new_def MAX_CONNECTIONS_def)
  ultimately show ?thesis by simp
qed

section \<open>The cache and the registry can part\<close>

text \<open>The read cache keeps the value that arrived last, the registry the value with the newest
  time.  A value whose time is older than the retained one therefore leaves the two disagreeing: a
  client that reads the channel is told the late value, a client that subscribes is told the retained
  one, and a compare-and-set compares with the late one.\<close>

lemma late_value_splits_cache:
  assumes uid: "vm_topic_id vm \<noteq> RTT_TOPIC_ID" "topic_id_for_pubuid c (vm_topic_id vm) (ws_registry s) = Some i"
    and topic: "hm_get (topics (ws_registry s)) i = Some t" "t_current t = Some cur"
    and val: "v = conform i (vm_value vm) (ws_registry s)" "xt_data_type v = t_data_type t"
    and late: "vm_timestamp_micros vm \<noteq> 0" "vm_timestamp_micros vm < ts_micros cur"
      "vm_timestamp_micros vm \<le> fst (now_micros (ctl_env C) (ws_registry s))"
    and cache: "cache_ok (cached (ws_app s))" "\<not> cached_poisoned (ws_app s)"
      "spec_room (t_name t) (cache_abs (cached (ws_app s)))"
    and run: "route_value (tarwyn_host C parse) c vm s = (routes, s')"
  shows "hm_get (topics (ws_registry s')) i = Some t
    \<and> cache_abs (cached (ws_app s')) (t_name t) = Some (kind_of_value (ctl_prost C) v)"
proof -
  obtain now r where now: "now_micros (ctl_env C) (ws_registry s) = (now, r)" by fastforce
  then have r: "topics r = topics (ws_registry s)" by (auto simp: now_micros_def)
  define stamp where "stamp = arrival_timestamp (vm_timestamp_micros vm) now"
  have "stamp = vm_timestamp_micros vm" using late now by (auto simp: stamp_def arrival_timestamp_def)
  then have "\<not> ts_micros cur \<le> stamp" using late(2) by (simp add: not_le)
  then have reg: "snd (handle_topic_value i v stamp r) = r"
    using topic val r by (simp add: handle_topic_value_def Let_def)
  have acc: "accepts_value i v r" "topic_name i r = Some (t_name t)"
    using topic val r by (simp_all add: accepts_value_def topic_name_def)
  have s': "s' = s\<lparr> ws_registry := r, ws_app := value_sink (ctl_prost C) (t_name t) v (ws_app s) \<rparr>"
    using run uid now reg acc val(1)
    by (simp add: route_value_def tarwyn_host_def stamp_def case_prod_beta Let_def)
  have "cache_abs (cache_do (Store (t_name t) (kind_of_value (ctl_prost C) v)) (cached (ws_app s))) =
      (cache_abs (cached (ws_app s)))(t_name t \<mapsto> kind_of_value (ctl_prost C) v)"
    using cache_do_refines [OF cache(1), of "Store (t_name t) (kind_of_value (ctl_prost C) v)"] cache(3) by simp
  then show ?thesis using s' r topic cache(2) by (simp add: value_sink_def)
qed

lemma late_value_splits_cache_example:
  "let cur = \<lparr> ts_micros = 50, stamped = VBool True \<rparr>;
       s = (ws_server_new plane_new)\<lparr> ws_registry := sample_registry\<lparr> topics := [(0, sample_topic\<lparr> t_current := Some cur \<rparr>)] \<rparr> \<rparr>;
       vm = \<lparr> vm_topic_id = 7, vm_timestamp_micros = 20, vm_data_type = 0, vm_value = VBool False \<rparr>;
       s' = snd (route_value (tarwyn_host sample_control (\<lambda>_. None)) 1 vm s) in
   hm_get (topics (ws_registry s')) 0 = Some (sample_topic\<lparr> t_current := Some cur \<rparr>)
   \<and> cache_abs (cached (ws_app s')) ''a'' = Some (KBool False)"
proof -
  define cur where "cur = \<lparr> ts_micros = (50 :: u64), stamped = VBool True \<rparr>"
  define t where "t = sample_topic\<lparr> t_current := Some cur \<rparr>"
  define s where "s = (ws_server_new plane_new)\<lparr> ws_registry := sample_registry\<lparr> topics := [(0, t)] \<rparr> \<rparr>"
  define vm where "vm = \<lparr> vm_topic_id = (7 :: u32), vm_timestamp_micros = (20 :: u64), vm_data_type = 0, vm_value = VBool False \<rparr>"
  obtain routes s' where run: "route_value (tarwyn_host sample_control (\<lambda>_. None)) 1 vm s = (routes, s')" by fastforce
  have t: "t_name t = ''a''" "t_data_type t = 0" "t_current t = Some cur" by (simp_all add: t_def sample_topic_def)
  have reg: "topic_id_for_pubuid 1 7 (ws_registry s) = Some 0" "hm_get (topics (ws_registry s)) 0 = Some t"
    "fst (now_micros (ctl_env sample_control) (ws_registry s)) = 100"
    by (simp_all add: s_def sample_registry_def registry_new_def topic_id_for_pubuid_def now_micros_def
        sample_control_def silent_env_def)
  have app: "cached (ws_app s) = []" "\<not> cached_poisoned (ws_app s)" by (simp_all add: s_def ws_server_new_def plane_new_def)
  have "VBool False = conform 0 (vm_value vm) (ws_registry s)" using reg t by (simp add: vm_def conform_def conformed_id)
  note split = late_value_splits_cache [OF _ _ reg(2) t(3) this _ _ _ _ _ _ _ run]
  have "hm_get (topics (ws_registry s')) 0 = Some t
      \<and> cache_abs (cached (ws_app s')) (t_name t) = Some (kind_of_value (ctl_prost sample_control) (VBool False))"
    by (rule split) (use reg t app in \<open>simp_all add: vm_def cur_def RTT_TOPIC_ID_def cache_ok_Nil cache_abs_Nil
        spec_room_def MAX_TOPICS_def\<close>)
  then have "hm_get (topics (ws_registry (snd (route_value (tarwyn_host sample_control (\<lambda>_. None)) 1 vm s)))) 0 = Some t
      \<and> cache_abs (cached (ws_app (snd (route_value (tarwyn_host sample_control (\<lambda>_. None)) 1 vm s)))) ''a'' = Some (KBool False)"
    using run t(1) by simp
  then show ?thesis unfolding Let_def cur_def t_def vm_def s_def .
qed

end
