(* ===== verification/Persistence.thy ===== *)
theory Persistence
  imports Ws_Server_Props
begin

text \<open>
  Saving persistent topics, the second half of \<^verbatim>\<open>core/src/websocket/server.rs\<close>: the JSON a value is
  written as, the file replaced through a scratch file, and the saver that compares the registry's
  persistence counter with the one it last saved.  The JSON text, base64 and the file system are
  arguments.
\<close>

record disk_codec =
  to_string_pretty :: "json \<Rightarrow> string"
  from_str :: "string \<Rightarrow> json option"
  base64_encode :: "bytes \<Rightarrow> string"
  base64_decode :: "string \<Rightarrow> bytes option"

type_synonym persistent_topic = "string \<times> string \<times> nt_value \<times> jmap"

section \<open>Values as JSON\<close>

fun value_to_json :: "disk_codec \<Rightarrow> nt_value \<Rightarrow> json" where
  "value_to_json K (VBool v) = JBool v"
| "value_to_json K (VDouble v) = json_f64 v"
| "value_to_json K (VFloat v) = json_f32 v"
| "value_to_json K (VInt8 v) = json_i64 (scast v)"
| "value_to_json K (VInt16 v) = json_i64 (scast v)"
| "value_to_json K (VInt32 v) = json_i64 (scast v)"
| "value_to_json K (VInt64 v) = json_i64 v"
| "value_to_json K (VUint8 v) = json_u64 (ucast v)"
| "value_to_json K (VUint16 v) = json_u64 (ucast v)"
| "value_to_json K (VUint32 v) = json_u64 (ucast v)"
| "value_to_json K (VUint64 v) = json_u64 v"
| "value_to_json K (VString v) = JString v"
| "value_to_json K (VBoolArray v) = JArray (map JBool v)"
| "value_to_json K (VDoubleArray v) = JArray (map json_f64 v)"
| "value_to_json K (VFloatArray v) = JArray (map json_f32 v)"
| "value_to_json K (VInt8Array v) = JArray (map (\<lambda>x. json_i64 (scast x)) v)"
| "value_to_json K (VInt16Array v) = JArray (map (\<lambda>x. json_i64 (scast x)) v)"
| "value_to_json K (VInt32Array v) = JArray (map (\<lambda>x. json_i64 (scast x)) v)"
| "value_to_json K (VInt64Array v) = JArray (map json_i64 v)"
| "value_to_json K (VUint8Array v) = JArray (map (\<lambda>x. json_u64 (ucast x)) v)"
| "value_to_json K (VUint16Array v) = JArray (map (\<lambda>x. json_u64 (ucast x)) v)"
| "value_to_json K (VUint32Array v) = JArray (map (\<lambda>x. json_u64 (ucast x)) v)"
| "value_to_json K (VUint64Array v) = JArray (map json_u64 v)"
| "value_to_json K (VStringArray v) = JArray (map JString v)"
| "value_to_json K (VBytes v) = JString (base64_encode K v)"
| "value_to_json K (VBytesList v) = JString (base64_encode K v)"
| "value_to_json K (VCoordinate v) = JString (base64_encode K v)"
| "value_to_json K (VBezier v) = JString (base64_encode K v)"

definition json_list :: "(json \<Rightarrow> 'a option) \<Rightarrow> json \<Rightarrow> 'a list option" where
  "json_list f j = Option.bind (json_as_array j) (collect_opt f)"

definition value_from_json :: "disk_codec \<Rightarrow> string \<Rightarrow> json \<Rightarrow> nt_value option" where
  "value_from_json K type_str j =
     (if type_str = ''boolean'' then map_option VBool (json_as_bool j)
      else if type_str = ''double'' then map_option VDouble (json_as_f64 j)
      else if type_str = ''float'' then map_option (\<lambda>x. VFloat (f64_to_f32 x)) (json_as_f64 j)
      else if type_str = ''int'' then map_option VInt64 (json_as_i64 j)
      else if type_str = ''string'' \<or> type_str = ''json'' then map_option VString (json_as_str j)
      else if type_str = ''boolean[]'' then map_option VBoolArray (json_list json_as_bool j)
      else if type_str = ''double[]'' then map_option VDoubleArray (json_list json_as_f64 j)
      else if type_str = ''float[]'' then map_option (\<lambda>xs. VFloatArray (map f64_to_f32 xs)) (json_list json_as_f64 j)
      else if type_str = ''int[]'' then map_option VInt64Array (json_list json_as_i64 j)
      else if type_str = ''string[]'' then map_option VStringArray (json_list json_as_str j)
      else map_option VBytes (Option.bind (json_as_str j) (base64_decode K)))"

definition entry_json :: "disk_codec \<Rightarrow> persistent_topic \<Rightarrow> json" where
  "entry_json K e = (case e of (name, type_str, v, properties) \<Rightarrow>
     JObject (inserted [(''name'', JString name), (''type'', JString type_str), (''value'', value_to_json K v),
       (''properties'', JObject properties)]))"

definition persistent_to_json :: "disk_codec \<Rightarrow> persistent_topic list \<Rightarrow> string" where
  "persistent_to_json K entries = to_string_pretty K (JArray (map (entry_json K) entries))"

definition entry_from_json :: "disk_codec \<Rightarrow> json \<Rightarrow> persistent_topic option" where
  "entry_from_json K row =
     Option.bind (Option.bind (json_get row ''name'') json_as_str) (\<lambda>name.
     Option.bind (Option.bind (json_get row ''type'') json_as_str) (\<lambda>type_str.
     Option.bind (Option.bind (json_get row ''value'') (value_from_json K type_str)) (\<lambda>v.
     Some (name, type_str, v,
       case Option.bind (json_get row ''properties'') json_as_object of Some p \<Rightarrow> p | None \<Rightarrow> []))))"

definition persistent_from_json :: "disk_codec \<Rightarrow> string \<Rightarrow> persistent_topic list" where
  "persistent_from_json K text =
     (case from_str K text of
        Some (JArray rows) \<Rightarrow> filter_map (entry_from_json K) rows
      | _ \<Rightarrow> [])"

section \<open>The file\<close>

text \<open>A file system as far as the saver uses it, and how its two calls end: a failed write may leave
  anything in the scratch file.\<close>

type_synonym disk = "string \<Rightarrow> string option"

record io =
  io_write :: "string option option"
  io_rename :: bool

definition save_persistent :: "disk_codec \<Rightarrow> io \<Rightarrow> string \<Rightarrow> nt_registry \<Rightarrow> disk \<Rightarrow> bool \<times> disk" where
  "save_persistent K x path r d =
     (let scratch = path @ ''.tmp'' in
      case io_write x of
        Some partial \<Rightarrow> (False, d(scratch := partial))
      | None \<Rightarrow>
          let d = d(scratch := Some (persistent_to_json K (persistent_snapshot r)))
          in if io_rename x then (True, d(path := d scratch, scratch := None)) else (False, d))"

definition load_persistent :: "disk_codec \<Rightarrow> string \<Rightarrow> disk \<Rightarrow> u64 \<Rightarrow> nt_registry \<Rightarrow> nt_registry" where
  "load_persistent K path d now r =
     (case d path of
        None \<Rightarrow> r
      | Some text \<Rightarrow>
          let entries = persistent_from_json K text
          in if entries = [] then r else restore_persistent entries now r)"

text \<open>One round of the saver's thread.  It reads the counter in one critical section and takes the
  snapshot in another, so that the registry may have moved on in between.\<close>

definition saver_round ::
  "disk_codec \<Rightarrow> io \<Rightarrow> string \<Rightarrow> nt_registry \<Rightarrow> nt_registry \<Rightarrow> nat \<times> disk \<Rightarrow> nat \<times> disk" where
  "saver_round K x path counted_at saved_at st =
     (case st of (saved, d) \<Rightarrow>
        let current = persistent_generation counted_at in
        if current \<noteq> saved
        then (case save_persistent K x path saved_at d of (ok, d) \<Rightarrow> (if ok then current else saved, d))
        else (saved, d))"

section \<open>Values round trip\<close>

text \<open>The values the file can hold, and the form they come back in.\<close>

fun storable :: "disk_codec \<Rightarrow> nt_value \<Rightarrow> bool" where
  "storable K (VDouble x) \<longleftrightarrow> f64_is_finite x"
| "storable K (VFloat x) \<longleftrightarrow> f64_is_finite (f32_to_f64 x)"
| "storable K (VUint64 x) \<longleftrightarrow> unat x < 2 ^ 63"
| "storable K (VDoubleArray xs) \<longleftrightarrow> list_all f64_is_finite xs"
| "storable K (VFloatArray xs) \<longleftrightarrow> list_all (\<lambda>x. f64_is_finite (f32_to_f64 x)) xs"
| "storable K (VUint64Array xs) \<longleftrightarrow> list_all (\<lambda>x. unat x < 2 ^ 63) xs"
| "storable K (VBytes b) \<longleftrightarrow> base64_decode K (base64_encode K b) = Some b"
| "storable K (VBytesList b) \<longleftrightarrow> base64_decode K (base64_encode K b) = Some b"
| "storable K (VCoordinate b) \<longleftrightarrow> base64_decode K (base64_encode K b) = Some b"
| "storable K (VBezier b) \<longleftrightarrow> base64_decode K (base64_encode K b) = Some b"
| "storable K _ \<longleftrightarrow> True"

fun stored_form :: "nt_value \<Rightarrow> nt_value" where
  "stored_form (VInt8 v) = VInt64 (scast v)"
| "stored_form (VInt16 v) = VInt64 (scast v)"
| "stored_form (VInt32 v) = VInt64 (scast v)"
| "stored_form (VUint8 v) = VInt64 (ucast v)"
| "stored_form (VUint16 v) = VInt64 (ucast v)"
| "stored_form (VUint32 v) = VInt64 (ucast v)"
| "stored_form (VUint64 v) = VInt64 v"
| "stored_form (VInt8Array v) = VInt64Array (map scast v)"
| "stored_form (VInt16Array v) = VInt64Array (map scast v)"
| "stored_form (VInt32Array v) = VInt64Array (map scast v)"
| "stored_form (VUint8Array v) = VInt64Array (map ucast v)"
| "stored_form (VUint16Array v) = VInt64Array (map ucast v)"
| "stored_form (VUint32Array v) = VInt64Array (map ucast v)"
| "stored_form (VUint64Array v) = VInt64Array v"
| "stored_form (VBytesList b) = VBytes b"
| "stored_form (VCoordinate b) = VBytes b"
| "stored_form (VBezier b) = VBytes b"
| "stored_form v = v"

fun is_raw :: "nt_value \<Rightarrow> bool" where
  "is_raw (VBytes _) \<longleftrightarrow> True"
| "is_raw (VBytesList _) \<longleftrightarrow> True"
| "is_raw (VCoordinate _) \<longleftrightarrow> True"
| "is_raw (VBezier _) \<longleftrightarrow> True"
| "is_raw _ \<longleftrightarrow> False"

lemma len64: "LENGTH(64) = 64"
  by simp

lemma finite_not_nan:
  assumes "f64_is_finite (f32_to_f64 x)"
  shows "\<not> f32_is_nan x"
proof
  assume nan: "f32_is_nan x"
  define n where "n = unat x"
  define s where "s = n div 2 ^ 31"
  define e where "e = n div 2 ^ 23 mod 256"
  define f where "f = n mod 2 ^ 23"
  have "n < 2 ^ 32" using unat_less_2p [of x] by (simp add: n_def)
  note sp = f32_split [OF this, folded s_def e_def f_def]
  have "n mod 2 ^ 31 = e * 2 ^ 23 + f"
    using sp by (simp add: mod_mult2_eq [of n "2 ^ 23" 256, simplified] e_def f_def)
  then have ef: "e = 255" "f \<noteq> 0"
    using nan sp(3,4) by (auto simp: f32_is_nan_def n_def [symmetric])
  define g where "g = (if f < 2 ^ 22 then f + 2 ^ 22 else f) * 2 ^ 29"
  have g: "g < 2 ^ 52" using sp(4) by (simp add: g_def)
  have "f32_to_f64 x = of_nat (s * 2 ^ 63 +
      (if e = 255 then
         (if f = 0 then 2047 * 2 ^ 52
          else 2047 * 2 ^ 52 + (if f < 2 ^ 22 then f + 2 ^ 22 else f) * 2 ^ 29)
       else if e = 0 then
         (if f = 0 then 0 else let k = bit_len f - 1 in (k + 874) * 2 ^ 52 + (f - 2 ^ k) * 2 ^ (52 - k))
       else (e + 896) * 2 ^ 52 + f * 2 ^ 29))"
    by (simp only: f32_to_f64_def Let_def n_def s_def e_def f_def)
  then have "f32_to_f64 x = of_nat (s * 2 ^ 63 + (2047 * 2 ^ 52 + g))"
    by (simp only: ef(1) ef(2) g_def if_True if_False refl)
  moreover have "s * 2 ^ 63 + (2047 * 2 ^ 52 + g) < 2 ^ 64" using sp(2) g by simp
  ultimately have "unat (f32_to_f64 x) = s * 2 ^ 63 + (2047 * 2 ^ 52 + g)"
    by (simp only: unat_of_nat_small len64)
  moreover have "2047 * 2 ^ 52 + g < (2 :: nat) ^ 63" using g by simp
  ultimately show False using assms by (simp add: f64_is_finite_def)
qed

lemma json_as_f64_json_f64: "json_as_f64 (json_f64 x) = (if f64_is_finite x then Some x else None)"
  by (simp add: json_f64_def)

lemma json_as_f64_json_f32: "json_as_f64 (json_f32 x) = (if f64_is_finite (f32_to_f64 x) then Some (f32_to_f64 x) else None)"
  by (simp add: json_f32_def json_as_f64_json_f64)

lemma json_as_i64_json_u64: "json_as_i64 (json_u64 x) = (if unat x < 2 ^ 63 then Some x else None)"
  by (simp add: json_u64_def)

lemma small_ucast: "LENGTH('a::len) < 64 \<Longrightarrow> unat (ucast (x :: 'a word) :: u64) < 2 ^ 63"
proof -
  assume "LENGTH('a) < 64"
  then have "unat (ucast x :: u64) = unat x" "LENGTH('a) \<le> 63"
    by (simp_all add: unat_ucast_up)
  moreover from this(2) have "(2 :: nat) ^ LENGTH('a) \<le> 2 ^ 63" by (rule power_increasing) simp
  ultimately show ?thesis using unat_less_2p [of x] by linarith
qed

lemma json_as_i64_small: "LENGTH('a::len) < 64 \<Longrightarrow> json_as_i64 (json_u64 (ucast (x :: 'a word))) = Some (ucast x)"
  by (simp only: json_as_i64_json_u64 small_ucast if_True)

lemma json_list_map:
  assumes "\<And>x. f (g x) = (if P x then Some (h x) else None)"
  shows "json_list f (JArray (map g xs)) = (if list_all P xs then Some (map h xs) else None)"
  by (induction xs) (simp_all add: json_list_def assms)

lemmas json_lists =
  json_list_map [of json_as_bool JBool "\<lambda>_. True" "\<lambda>x. x"]
  json_list_map [of json_as_str JString "\<lambda>_. True" "\<lambda>x. x"]
  json_list_map [of json_as_f64 json_f64 f64_is_finite "\<lambda>x. x", OF json_as_f64_json_f64]
  json_list_map [of json_as_f64 json_f32 "\<lambda>x. f64_is_finite (f32_to_f64 x)" f32_to_f64, OF json_as_f64_json_f32]
  json_list_map [of json_as_i64 json_i64 "\<lambda>_. True" "\<lambda>x. x"]
  json_list_map [of json_as_i64 json_u64 "\<lambda>x. unat x < 2 ^ 63" "\<lambda>x. x", OF json_as_i64_json_u64]

lemma json_list_signed: "json_list json_as_i64 (JArray (map (\<lambda>x. json_i64 (scast x)) xs)) = Some (map scast xs)"
  by (subst json_list_map [of _ _ "\<lambda>_. True" scast]) (simp_all add: list.pred_True)

lemma json_list_unsigned:
  "LENGTH('a::len) < 64 \<Longrightarrow>
     json_list json_as_i64 (JArray (map (\<lambda>x. json_u64 (ucast x)) (xs :: 'a word list))) = Some (map ucast xs)"
  by (subst json_list_map [of _ _ "\<lambda>_. True" ucast]) (simp_all add: json_as_i64_small list.pred_True)

lemma narrow_back: "list_all (\<lambda>x. f64_is_finite (f32_to_f64 x)) xs \<Longrightarrow> map (\<lambda>x. f64_to_f32 (f32_to_f64 x)) xs = xs"
  by (induction xs) (simp_all add: f64_to_f32_to_f64 finite_not_nan)

text \<open>The reader, by the data type the type string names.\<close>

definition value_from_json_as :: "disk_codec \<Rightarrow> u32 \<Rightarrow> json \<Rightarrow> nt_value option" where
  "value_from_json_as K d j =
     (if d = 0 then map_option VBool (json_as_bool j)
      else if d = 1 then map_option VDouble (json_as_f64 j)
      else if d = 3 then map_option (\<lambda>x. VFloat (f64_to_f32 x)) (json_as_f64 j)
      else if d = 2 then map_option VInt64 (json_as_i64 j)
      else if d = 4 then map_option VString (json_as_str j)
      else if d = 16 then map_option VBoolArray (json_list json_as_bool j)
      else if d = 17 then map_option VDoubleArray (json_list json_as_f64 j)
      else if d = 19 then map_option (\<lambda>xs. VFloatArray (map f64_to_f32 xs)) (json_list json_as_f64 j)
      else if d = 18 then map_option VInt64Array (json_list json_as_i64 j)
      else if d = 20 then map_option VStringArray (json_list json_as_str j)
      else map_option VBytes (Option.bind (json_as_str j) (base64_decode K)))"

lemma value_from_json_by_type: "value_from_json K t j = value_from_json_as K (data_type_from_string t) j"
proof -
  have as: "value_from_json_as K (data_type_from_string t) j =
     (if t = ''boolean'' then map_option VBool (json_as_bool j)
      else if t = ''double'' then map_option VDouble (json_as_f64 j)
      else if t = ''int'' then map_option VInt64 (json_as_i64 j)
      else if t = ''float'' then map_option (\<lambda>x. VFloat (f64_to_f32 x)) (json_as_f64 j)
      else if t = ''string'' \<or> t = ''json'' then map_option VString (json_as_str j)
      else if t = ''boolean[]'' then map_option VBoolArray (json_list json_as_bool j)
      else if t = ''double[]'' then map_option VDoubleArray (json_list json_as_f64 j)
      else if t = ''int[]'' then map_option VInt64Array (json_list json_as_i64 j)
      else if t = ''float[]'' then map_option (\<lambda>xs. VFloatArray (map f64_to_f32 xs)) (json_list json_as_f64 j)
      else if t = ''string[]'' then map_option VStringArray (json_list json_as_str j)
      else map_option VBytes (Option.bind (json_as_str j) (base64_decode K)))"
    by (simp only: data_type_from_string_def if_distrib [where f = "\<lambda>d. value_from_json_as K d j"])
      (simp add: value_from_json_as_def del: list.inject)
  consider "t = ''float''" | "t = ''float[]''" | "t \<noteq> ''float'' \<and> t \<noteq> ''float[]''" by argo
  then show ?thesis unfolding as by cases (simp_all add: value_from_json_def)
qed

lemma value_from_json_as_typed:
  "value_from_json_as K d j = Some v \<Longrightarrow> xt_data_type v = (if d \<in> {0, 1, 2, 3, 4, 16, 17, 18, 19, 20} then d else 5)"
  by (clarsimp simp: value_from_json_as_def split: if_splits)

lemma data_type_from_string_range: "data_type_from_string t \<in> {0, 1, 2, 3, 4, 16, 17, 18, 19, 20} \<or> data_type_from_string t = 5"
  by (simp add: data_type_from_string_def del: list.inject)

lemma value_from_json_typed: "value_from_json K t j = Some v \<Longrightarrow> xt_data_type v = data_type_from_string t"
  using value_from_json_as_typed data_type_from_string_range [of t] by (metis value_from_json_by_type)

lemma value_json_round_trip:
  assumes "xt_data_type v = data_type_from_string t"
    and "is_raw v \<Longrightarrow> storable K v"
  shows "value_from_json K t (value_to_json K v) = (if storable K v then Some (stored_form v) else None)"
  using assms(2) unfolding value_from_json_by_type assms(1) [symmetric]
proof (cases v)
  case (VUint64 x)
  then show "value_from_json_as K (xt_data_type v) (value_to_json K v) = (if storable K v then Some (stored_form v) else None)"
    by (simp add: value_from_json_as_def json_as_i64_json_u64)
qed (simp_all add: value_from_json_as_def json_as_f64_json_f64 json_as_f64_json_f32 list.pred_True
      json_as_i64_small json_lists json_list_signed json_list_unsigned f64_to_f32_to_f64 finite_not_nan narrow_back comp_def)


section \<open>Files round trip\<close>

text \<open>The form an entry comes back in, when it comes back.\<close>

definition restored :: "disk_codec \<Rightarrow> persistent_topic \<Rightarrow> persistent_topic option" where
  "restored K e = (case e of (name, type_str, v, properties) \<Rightarrow>
     if storable K v then Some (name, type_str, stored_form v, properties) else None)"

definition base64_ok :: "disk_codec \<Rightarrow> bool" where
  "base64_ok K \<longleftrightarrow> (\<forall>b. base64_decode K (base64_encode K b) = Some b)"

lemma raw_storable: "base64_ok K \<Longrightarrow> is_raw v \<Longrightarrow> storable K v"
  by (cases v) (simp_all add: base64_ok_def)

lemma stored_form_type: "xt_data_type (stored_form v) = xt_data_type v"
  by (cases v) simp_all

lemma entry_round_trip:
  assumes "base64_ok K" and "entry_typed e"
  shows "entry_from_json K (entry_json K e) = restored K e"
proof -
  obtain name type_str v properties where e: "e = (name, type_str, v, properties)" by (metis prod_cases4)
  have "value_from_json K type_str (value_to_json K v) = (if storable K v then Some (stored_form v) else None)"
    using assms by (intro value_json_round_trip raw_storable) (simp_all add: e entry_typed_def)
  then show ?thesis by (simp add: e entry_json_def entry_from_json_def restored_def)
qed

lemma file_round_trip:
  assumes "base64_ok K" and "list_all entry_typed es"
    and "from_str K (persistent_to_json K es) = Some (JArray (map (entry_json K) es))"
  shows "persistent_from_json K (persistent_to_json K es) = filter_map (restored K) es"
proof -
  have "filter_map (entry_from_json K) (map (entry_json K) es) = filter_map (restored K) es"
    using assms(2) by (induction es) (simp_all add: entry_round_trip [OF assms(1)] split: option.split)
  then show ?thesis by (simp add: persistent_from_json_def assms(3))
qed

lemma entry_from_json_typed: "entry_from_json K j = Some e \<Longrightarrow> entry_typed e"
  by (auto simp: entry_from_json_def entry_typed_def Option.bind_eq_Some_conv dest: value_from_json_typed)

lemma persistent_from_json_typed: "list_all entry_typed (persistent_from_json K content)"
  by (auto simp: persistent_from_json_def list_all_iff set_filter_map dest: entry_from_json_typed split: option.split json.split)

lemma load_persistent_call:
  "load_persistent K path d now r = r \<or>
   (\<exists>c. call_ok c \<and> (\<forall>E. load_persistent K path d now r = snd (reg_run E c r)))"
proof (cases "d path")
  case (Some content)
  have "call_ok (CRestore (persistent_from_json K content) now)" by (simp add: persistent_from_json_typed)
  then show ?thesis
    by (auto simp: load_persistent_def Some Let_def intro!: exI [of _ "CRestore (persistent_from_json K content) now"])
qed (simp add: load_persistent_def)

section \<open>Restoring a snapshot\<close>

lemma snapshot_typed:
  assumes "registry_ok r"
  shows "list_all entry_typed (persistent_snapshot r)"
proof -
  have "entry_typed e" if "e \<in> saved_entries r" for e
    using that assms unfolding saved_entries_def registry_ok_def topics_ok_def topic_ok_def entry_typed_def by fastforce
  moreover have "set (persistent_snapshot r) = saved_entries r"
    using assms by (intro set_persistent_snapshot) (simp add: registry_ok_def)
  ultimately show ?thesis by (simp add: list_all_iff)
qed

definition marked :: "persistent_topic \<Rightarrow> bool" where
  "marked e = (case e of (_, _, _, properties) \<Rightarrow> bool_property properties ''persistent'' False)"

lemma saved_restore_one:
  assumes "registry_ok r" and "\<not> hm_has (by_name r) (fst e)" and "marked e"
  shows "saved_entries (restore_one ts e r) = insert e (saved_entries r)"
    and "hm_has (by_name (restore_one ts e r)) n \<longleftrightarrow> n = fst e \<or> hm_has (by_name r) n"
proof -
  obtain name type_str v properties where e: "e = (name, type_str, v, properties)" by (metis prod_cases4)
  let ?t = "sync_properties \<lparr> t_name = name, t_data_type = data_type_from_string type_str, t_type_str = type_str,
      t_properties = properties, t_current = Some \<lparr> ts_micros = ts, stamped = v \<rparr>,
      t_publishers = 0, t_retained = True, t_cached = True, t_persistent = False \<rparr>"
  have r': "restore_one ts e r = snd (insert_topic ?t r)" using assms(2) by (simp add: restore_one_def e)
  have "ids_ok r" using assms(1) by (simp add: registry_ok_def)
  then obtain i f m where ins: "insert_topic ?t r = (i, r\<lparr> freed := f, next_id := m,
      topics := hm_insert (topics r) i ?t, by_name := hm_insert (by_name r) (t_name ?t) i \<rparr>)"
    and i: "\<not> hm_has (topics r) i"
    by (rule insert_topic_cases)
  have "saved_entries (snd (insert_topic ?t r)) = insert e (saved_entries r)"
    using i assms(3) unfolding ins by (auto simp: saved_entries_def e marked_def sync_properties_def) (metis option.distinct(1))
  then show "saved_entries (restore_one ts e r) = insert e (saved_entries r)" by (simp only: r')
  show "hm_has (by_name (restore_one ts e r)) n \<longleftrightarrow> n = fst e \<or> hm_has (by_name r) n"
    unfolding r' ins by (auto simp: e sync_properties_def)
qed

lemma saved_restore:
  assumes "registry_ok r" and "list_all entry_typed es" and "list_all marked es" and "distinct (map fst es)"
    and "\<And>n. n \<in> fst ` set es \<Longrightarrow> \<not> hm_has (by_name r) n"
  shows "saved_entries (fold (restore_one ts) es r) = saved_entries r \<union> set es"
  using assms
proof (induction es arbitrary: r)
  case (Cons e es)
  have "\<not> hm_has (by_name (restore_one ts e r)) n" if "n \<in> fst ` set es" for n
  proof -
    have "n \<noteq> fst e" using that Cons.prems(4) by (metis distinct.simps(2) list.set_map list.simps(9))
    then show ?thesis using saved_restore_one(2) [of r e ts n] that Cons.prems(5) [of n] Cons.prems(5) [of "fst e"] Cons.prems(1-3)
      by auto
  qed
  then have "saved_entries (fold (restore_one ts) es (restore_one ts e r)) = saved_entries (restore_one ts e r) \<union> set es"
    using Cons.prems(1-4) by (intro Cons.IH restore_one_ok) simp_all
  then show ?case using Cons.prems by (simp add: saved_restore_one(1))
qed simp

lemma distinct_filter_map:
  assumes "distinct (map f xs)" and "\<And>x y. x \<in> set xs \<Longrightarrow> h x = Some y \<Longrightarrow> g y = f x"
  shows "distinct (map g (filter_map h xs))"
proof -
  have "g ` set (filter_map h xs) \<subseteq> f ` set xs" if "\<And>x y. x \<in> set xs \<Longrightarrow> h x = Some y \<Longrightarrow> g y = f x" for xs
    using that by (fastforce simp: set_filter_map)
  with assms show ?thesis
    by (induction xs) (auto split: option.split, (metis image_eqI insert_iff list.simps(15) subset_iff)+)
qed

lemma snapshot_distinct:
  assumes "registry_ok r"
  shows "distinct (map fst (persistent_snapshot r))"
proof -
  have ok: "hm_ok (topics r)" "names_ok r" using assms by (simp_all add: registry_ok_def maps_ok_def)
  have "distinct (map t_name (map snd (topics r)))"
    unfolding map_map distinct_map
  proof
    show "distinct (topics r)" using ok(1) by (simp add: distinct_map)
    have "p = q" if "p \<in> set (topics r)" "q \<in> set (topics r)" "t_name (snd p) = t_name (snd q)" for p q
    proof -
      have "hm_get (topics r) (fst p) = Some (snd p)" "hm_get (topics r) (fst q) = Some (snd q)"
        using that ok(1) by (simp_all add: hm_get_mem)
      then show ?thesis using that(3) ok(2) unfolding names_ok_def by (metis option.inject prod.expand)
    qed
    then show "inj_on (t_name \<circ> snd) (set (topics r))" by (auto simp: inj_on_def)
  qed
  then have "distinct (map t_name (filter (\<lambda>t. bool_property (t_properties t) ''persistent'' False) (map snd (topics r))))"
    by (rule distinct_map_filter)
  then show ?thesis unfolding persistent_snapshot_def by (rule distinct_filter_map) auto
qed

lemma snapshot_marked: "list_all marked (persistent_snapshot r)"
  by (auto simp: persistent_snapshot_def list_all_iff set_filter_map marked_def)

lemma restored_keeps:
  "restored K e = Some e' \<Longrightarrow> entry_typed e' = entry_typed e \<and> marked e' = marked e \<and> fst e' = fst e"
  by (cases e) (auto simp: restored_def entry_typed_def marked_def stored_form_type split: if_splits)

lemma set_restored:
  "set (filter_map (restored K) es) = {(name, type_str, stored_form v, properties) | name type_str v properties.
     (name, type_str, v, properties) \<in> set es \<and> storable K v}"
proof -
  have "restored K e = Some e' \<longleftrightarrow> (\<exists>name type_str v properties. e = (name, type_str, v, properties)
      \<and> e' = (name, type_str, stored_form v, properties) \<and> storable K v)" for e e'
    by (cases e) (auto simp: restored_def)
  then show ?thesis by (simp only: set_filter_map) blast
qed

text \<open>Restoring into a server that has no topics gives back the entries.\<close>

lemma restored_snapshot:
  assumes "registry_ok r" and "base64_ok K"
  defines "es \<equiv> filter_map (restored K) (persistent_snapshot r)"
  shows "set (persistent_snapshot (restore_persistent es now registry_new)) = set es"
proof -
  have "entry_typed e \<and> marked e" if e: "e \<in> set es" for e
  proof -
    obtain e' where "e' \<in> set (persistent_snapshot r)" "restored K e' = Some e"
      using e unfolding es_def set_filter_map by blast
    then show ?thesis
      using snapshot_typed [OF assms(1)] snapshot_marked [of r] restored_keeps [of K e' e] unfolding list_all_iff by blast
  qed
  then have typed: "list_all entry_typed es" and mark: "list_all marked es" unfolding list_all_iff by blast+
  have dist: "distinct (map fst es)"
    unfolding es_def by (rule distinct_filter_map [OF snapshot_distinct [OF assms(1)]]) (rule restored_keeps [THEN conjunct2, THEN conjunct2])
  have "saved_entries (fold (restore_one now) es registry_new) = saved_entries registry_new \<union> set es"
    by (rule saved_restore [OF registry_ok_new typed mark dist]) (simp add: registry_new_def)
  moreover have "saved_entries registry_new = {}" by (simp add: saved_entries_def registry_new_def)
  ultimately have "saved_entries (restore_persistent es now registry_new) = set es"
    by (simp only: restore_persistent_def Let_def saved_entries_generation Un_empty_left)
  moreover have "maps_ok (restore_persistent es now registry_new)"
    using restore_persistent_ok [OF registry_ok_new typed] by (simp add: registry_ok_def)
  ultimately show ?thesis by (simp only: set_persistent_snapshot)
qed


definition kept_topic :: persistent_topic where
  "kept_topic = (''t'', ''int'', VInt8 7, [(''persistent'', JBool True)])"

definition kept_registry :: nt_registry where
  "kept_registry = restore_persistent [kept_topic] 5 registry_new"

definition plain_codec :: disk_codec where
  "plain_codec = \<lparr> to_string_pretty = (\<lambda>_. ''[]''),
     from_str = (\<lambda>_. Some (JArray [JObject [(''name'', JString ''t''), (''properties'', JObject [(''persistent'', JBool True)]),
       (''type'', JString ''int''), (''value'', JNumber (PosInt 7))]])),
     base64_encode = map (\<lambda>b. char_of (unat b)), base64_decode = (\<lambda>s. Some (map (\<lambda>c. of_nat (of_char c)) s)) \<rparr>"

lemma plain_codec_base64: "base64_ok plain_codec"
proof -
  have "of_nat (of_char (char_of (unat (b :: u8)))) = b" for b
    using unat_less_2p [of b] by (simp add: of_char_of)
  then show ?thesis by (simp add: base64_ok_def plain_codec_def comp_def)
qed

lemma kept_snapshot: "persistent_snapshot kept_registry = [kept_topic]"
  by code_simp

lemma kept_registry_ok: "registry_ok kept_registry"
  unfolding kept_registry_def
  by (rule restore_persistent_ok [OF registry_ok_new]) (simp add: kept_topic_def entry_typed_def)

lemma kept_codec:
  "from_str plain_codec (persistent_to_json plain_codec [kept_topic]) = Some (JArray (map (entry_json plain_codec) [kept_topic]))"
  by code_simp


section \<open>The saver\<close>

text \<open>What the thread can have seen and written: between reading the counter and taking the snapshot
  any calls may run, and any I/O may fail.\<close>

inductive reg_calls :: "env \<Rightarrow> nt_registry \<Rightarrow> nt_registry \<Rightarrow> bool" for E where
  none: "reg_calls E r r"
| call: "reg_calls E r r' \<Longrightarrow> call_ok c \<Longrightarrow> reg_calls E r (snd (reg_run E c r'))"

inductive saver_run :: "disk_codec \<Rightarrow> env \<Rightarrow> string \<Rightarrow> nt_registry \<Rightarrow> disk \<Rightarrow> nt_registry \<times> nat \<times> disk \<Rightarrow> bool"
  for K E path r0 d0 where
  start: "saver_run K E path r0 d0 (r0, persistent_generation r0, d0)"
| calls: "saver_run K E path r0 d0 (r, saved, d) \<Longrightarrow> reg_calls E r r' \<Longrightarrow> saver_run K E path r0 d0 (r', saved, d)"
| turn: "saver_run K E path r0 d0 (r, saved, d) \<Longrightarrow> reg_calls E r r' \<Longrightarrow>
    saver_run K E path r0 d0 (r', saver_round K x path r r' (saved, d))"

text \<open>Between two points of a run the counter grows, and where it stands still so does the snapshot.\<close>

definition later :: "nt_registry \<Rightarrow> nt_registry \<Rightarrow> bool" where
  "later r r' \<longleftrightarrow> registry_ok r' \<and> persistent_generation r \<le> persistent_generation r' \<and>
     (persistent_generation r' = persistent_generation r \<longrightarrow> set (persistent_snapshot r') = set (persistent_snapshot r))"

lemma later_trans: "later a b \<Longrightarrow> later b c \<Longrightarrow> later a c"
  by (auto simp: later_def)

lemma reg_calls_later: "reg_calls E r r' \<Longrightarrow> registry_ok r \<Longrightarrow> later r r'"
proof (induction rule: reg_calls.induct)
  case (call r r' c)
  then have "later r' (snd (reg_run E c r'))"
    using generation_moves [of r' E c] reg_run_ok by (simp add: later_def)
  with call show ?case using later_trans by blast
qed (simp add: later_def)

text \<open>The file is the one the server started with, from a registry of the counter last saved, or a
  complete snapshot taken no earlier than that counter.\<close>

definition file_state :: "disk_codec \<Rightarrow> string \<Rightarrow> nt_registry \<Rightarrow> disk \<Rightarrow> nt_registry \<times> nat \<times> disk \<Rightarrow> bool" where
  "file_state K path r0 d0 st = (case st of (r, saved, d) \<Rightarrow>
     registry_ok r \<and>
     (d path = d0 path \<and> saved = persistent_generation r0 \<and> later r0 r \<or>
      (\<exists>at. d path = Some (persistent_to_json K (persistent_snapshot at)) \<and> saved \<le> persistent_generation at \<and> later at r)))"

lemma save_atomic:
  "snd (save_persistent K x path r d) path =
     (if fst (save_persistent K x path r d) then Some (persistent_to_json K (persistent_snapshot r)) else d path)"
  "p \<noteq> path \<Longrightarrow> p \<noteq> path @ ''.tmp'' \<Longrightarrow> snd (save_persistent K x path r d) p = d p"
  by (auto simp: save_persistent_def Let_def split: option.split)

lemma saver_run_file:
  assumes "saver_run K E path r0 d0 st" and "registry_ok r0"
  shows "file_state K path r0 d0 st"
  using assms
proof (induction rule: saver_run.induct)
  case start
  then show ?case by (simp add: file_state_def later_def)
next
  case (calls r saved d r')
  then have "file_state K path r0 d0 (r, saved, d)" "later r r'"
    using reg_calls_later by (auto simp: file_state_def)
  then show ?case unfolding file_state_def by (auto simp: later_def [of r r'] dest: later_trans [of _ r r'])
next
  case (turn r saved d r' x)
  then have st: "file_state K path r0 d0 (r, saved, d)" and l: "later r r'"
    using reg_calls_later by (auto simp: file_state_def)
  have "later r' r'" using l by (simp add: later_def)
  with st l show ?case
    using save_atomic(1) [of K x path r' d] later_trans [of _ r r']
    by (auto simp: file_state_def saver_round_def Let_def split: prod.split) (auto simp: later_def)
qed

text \<open>C24. The saver catches up.  Whatever calls and failed writes came before, a round whose two file
  operations succeed, with no call while it runs, leaves nothing to save, and the file then holds
  exactly the current persistent topics, unless none of them changed since the saver started, when
  the file is still the one it started with.\<close>

theorem saver_catches_up:
  assumes "registry_ok r0" and "saver_run K E path r0 d0 (r, saved, d)"
    and "io_write x = None" and "io_rename x" and "saver_round K x path r r (saved, d) = (saved', d')"
  shows "saved' = persistent_generation r \<and>
    ((\<exists>es. set es = set (persistent_snapshot r) \<and> d' path = Some (persistent_to_json K es)) \<or>
     d' path = d0 path \<and> set (persistent_snapshot r) = set (persistent_snapshot r0))"
proof -
  have s': "saved' = persistent_generation r"
    using assms(3-5) by (auto simp: saver_round_def save_persistent_def Let_def split: if_splits)
  have "saver_run K E path r0 d0 (r, saved', d')"
    using saver_run.turn [OF assms(2) reg_calls.none, of x] assms(5) by simp
  then have "file_state K path r0 d0 (r, saved', d')" using assms(1) by (rule saver_run_file)
  then show ?thesis unfolding s' by (auto simp: file_state_def later_def)
qed

definition still_env :: env where
  "still_env = \<lparr> to_string = (\<lambda>_. []), clock = (\<lambda>_. 0) \<rparr>"

lemma kept_run: "saver_run plain_codec still_env ''p'' registry_new (\<lambda>_. None) (kept_registry, 0, \<lambda>_. None)"
proof -
  have "reg_calls still_env registry_new (snd (reg_run still_env (CRestore [kept_topic] 5) registry_new))"
    by (intro reg_calls.intros) (simp add: kept_topic_def entry_typed_def)
  then have "reg_calls still_env registry_new kept_registry" by (simp add: kept_registry_def)
  then have "saver_run plain_codec still_env ''p'' registry_new (\<lambda>_. None) (kept_registry, persistent_generation registry_new, \<lambda>_. None)"
    by (rule saver_run.calls [OF saver_run.start])
  moreover have "persistent_generation registry_new = 0" by (simp add: registry_new_def)
  ultimately show ?thesis by simp
qed

theorem saver_catches_up_witness:
  "\<exists>saved' d'. saver_round plain_codec \<lparr> io_write = None, io_rename = True \<rparr> ''p'' kept_registry kept_registry (0, \<lambda>_. None) = (saved', d')
    \<and> saved' = persistent_generation kept_registry \<and> d' ''p'' = Some ''[]''"
proof -
  obtain saved' d' where eq: "saver_round plain_codec \<lparr> io_write = None, io_rename = True \<rparr> ''p'' kept_registry kept_registry (0, \<lambda>_. None)
      = (saved', d')" by fastforce
  have "set (persistent_snapshot registry_new) = {}" by (simp add: persistent_snapshot_def registry_new_def)
  then show ?thesis
    using eq saver_catches_up [OF registry_ok_new kept_run _ _ eq] by (auto simp: kept_snapshot persistent_to_json_def plain_codec_def)
qed

end
