(* ===== verification/Wpilog.thy ===== *)
theory Wpilog
  imports Proto_Value Telemetry
begin

text \<open>
  The data log of \<^verbatim>\<open>proto/src/wpilog.rs\<close>: the record layout, the writer that numbers channels as they
  appear, and the logger whose thread drains a bounded queue.  The device a log is written to may fail
  at any write after part of the bytes; what each write does is an argument.
\<close>

unbundle bit_operations_syntax

definition WPILOG_MAGIC :: bytes where "WPILOG_MAGIC = str_bytes ''WPILOG''"
definition WPILOG_VERSION :: u16 where "WPILOG_VERSION = 0x0100"
definition CONTROL_ENTRY :: u64 where "CONTROL_ENTRY = 0"
definition CONTROL_START :: u8 where "CONTROL_START = 0"
definition CONTROL_FINISH :: u8 where "CONTROL_FINISH = 1"

section \<open>Records\<close>

function min_len_loop :: "nat \<Rightarrow> u64 \<Rightarrow> nat" where
  "min_len_loop len rest = (if rest > 0 then min_len_loop (len + 1) (drop_bit 8 rest) else len)"
  by pat_completeness auto
termination
proof (relation "measure (\<lambda>(_, rest). unat rest)")
  fix len :: nat and rest :: u64
  assume "rest > 0"
  then have "unat rest > 0" by (simp add: word_less_nat_alt)
  then show "((len + 1, drop_bit 8 rest), (len, rest)) \<in> measure (\<lambda>(_, rest). unat rest)"
    by (simp add: unat_drop_bit_eq drop_bit_nat_def)
qed simp

declare min_len_loop.simps [simp del]

definition min_len :: "u64 \<Rightarrow> nat" where
  "min_len v = min_len_loop 1 (drop_bit 8 v)"

definition put_le :: "bytes \<Rightarrow> u64 \<Rightarrow> nat \<Rightarrow> bytes" where
  "put_le out v len = out @ map (\<lambda>byte. ucast (drop_bit (8 * byte) v)) [0..<len]"

fun kind_type_name :: "kind \<Rightarrow> string" where
  "kind_type_name (KString _) = ''string''"
| "kind_type_name (KInt32 _) = ''int64''"
| "kind_type_name (KInt64 _) = ''int64''"
| "kind_type_name (KUint32 _) = ''int64''"
| "kind_type_name (KUint64 _) = ''int64''"
| "kind_type_name (KBool _) = ''boolean''"
| "kind_type_name (KDouble _) = ''double''"
| "kind_type_name (KFloat _) = ''float''"
| "kind_type_name (KBytes _) = ''raw''"
| "kind_type_name (KBytesList _) = ''raw''"
| "kind_type_name (KStringList _) = ''string[]''"
| "kind_type_name (KFloatList _) = ''float[]''"
| "kind_type_name (KBoolList _) = ''boolean[]''"
| "kind_type_name (KDoubleList _) = ''double[]''"
| "kind_type_name (KCoordinateList _) = ''double[]''"
| "kind_type_name (KIntegerList _) = ''int64[]''"
| "kind_type_name (KLongList _) = ''int64[]''"
| "kind_type_name (KBezierCurve _) = ''raw''"
| "kind_type_name (KBezierCurves _) = ''raw''"
| "kind_type_name (KBezierCurvesList _) = ''raw''"

definition bool_byte :: "bool \<Rightarrow> u8" where
  "bool_byte b = (if b then 1 else 0)"

definition counted_bytes :: "bytes \<Rightarrow> bytes" where
  "counted_bytes b = u32_le (of_nat (length b)) @ b"

fun kind_encode :: "prost \<Rightarrow> kind \<Rightarrow> bytes" where
  "kind_encode P (KString v) = str_bytes v"
| "kind_encode P (KInt32 v) = u64_le (scast v)"
| "kind_encode P (KInt64 v) = u64_le v"
| "kind_encode P (KUint32 v) = u64_le (ucast v)"
| "kind_encode P (KUint64 v) = u64_le v"
| "kind_encode P (KBool v) = [bool_byte v]"
| "kind_encode P (KDouble v) = u64_le v"
| "kind_encode P (KFloat v) = u32_le v"
| "kind_encode P (KBytes v) = v"
| "kind_encode P (KBoolList vs) = map bool_byte vs"
| "kind_encode P (KFloatList vs) = concat (map (\<lambda>v. u32_le v) vs)"
| "kind_encode P (KStringList vs) = u32_le (of_nat (length vs)) @ concat (map (\<lambda>v. counted_bytes (str_bytes v)) vs)"
| "kind_encode P (KBytesList vs) = u32_le (of_nat (length vs)) @ concat (map counted_bytes vs)"
| "kind_encode P (KDoubleList vs) = concat (map (\<lambda>v. u64_le v) vs)"
| "kind_encode P (KIntegerList vs) = concat (map (\<lambda>v. u64_le (scast v)) vs)"
| "kind_encode P (KLongList vs) = concat (map (\<lambda>v. u64_le v) vs)"
| "kind_encode P (KCoordinateList cs) = concat (map (\<lambda>c. u64_le (co_x c) @ u64_le (co_y c)) cs)"
| "kind_encode P (KBezierCurve c) = bezier_curve_encode P c"
| "kind_encode P (KBezierCurves cs) = bezier_curves_encode P cs"
| "kind_encode P (KBezierCurvesList l) = bezier_curves_list_encode P l"

section \<open>The writer\<close>

record log_entry =
  le_id :: u32
  le_type_name :: string

record log_writer =
  lw_out :: bytes
  lw_writes :: nat
  lw_entries :: "(string, log_entry) hm"
  lw_next_id :: u32
  lw_scratch :: bytes

text \<open>What the \<open>n\<close>-th write to the device does: \<open>Some k\<close> fails after \<open>k\<close> bytes.\<close>

type_synonym device = "nat \<Rightarrow> nat option"

definition write_all :: "device \<Rightarrow> bytes \<Rightarrow> log_writer \<Rightarrow> bool \<times> log_writer" where
  "write_all D b w =
     (case D (lw_writes w) of
        None \<Rightarrow> (True, w\<lparr> lw_out := lw_out w @ b, lw_writes := lw_writes w + 1 \<rparr>)
      | Some k \<Rightarrow> (False, w\<lparr> lw_out := lw_out w @ take k b, lw_writes := lw_writes w + 1 \<rparr>))"

fun write_each :: "device \<Rightarrow> bytes list \<Rightarrow> log_writer \<Rightarrow> bool \<times> log_writer" where
  "write_each D [] w = (True, w)"
| "write_each D (b # bs) w =
     (case write_all D b w of (False, w) \<Rightarrow> (False, w) | (True, w) \<Rightarrow> write_each D bs w)"

definition with_extra_header :: "device \<Rightarrow> string \<Rightarrow> bool \<times> log_writer" where
  "with_extra_header D extra =
     write_each D [WPILOG_MAGIC, u16_le WPILOG_VERSION, u32_le (of_nat (length (str_bytes extra))), str_bytes extra]
       \<lparr> lw_out = [], lw_writes = 0, lw_entries = [], lw_next_id = 1, lw_scratch = [] \<rparr>"

definition record_header :: "u64 \<Rightarrow> u64 \<Rightarrow> bytes \<Rightarrow> bytes" where
  "record_header i ts p =
     (let size = of_nat (length p);
          id_len = min_len i;
          size_len = min_len size;
          stamp_len = min_len ts;
          header = [of_nat ((id_len - 1) OR push_bit 2 (size_len - 1) OR push_bit 4 (stamp_len - 1))]
      in put_le (put_le (put_le header i id_len) size size_len) ts stamp_len)"

definition write_record :: "device \<Rightarrow> u64 \<Rightarrow> u64 \<Rightarrow> bytes \<Rightarrow> log_writer \<Rightarrow> bool \<times> log_writer" where
  "write_record D i ts p w = write_each D [record_header i ts p, p] w"

definition start_payload :: "u32 \<Rightarrow> string \<Rightarrow> string \<Rightarrow> bytes" where
  "start_payload i name type_name =
     [CONTROL_START] @ u32_le i @ u32_le (of_nat (length (str_bytes name))) @ str_bytes name
       @ u32_le (of_nat (length (str_bytes type_name))) @ str_bytes type_name @ u32_le 0"

definition start_entry :: "device \<Rightarrow> string \<Rightarrow> string \<Rightarrow> u64 \<Rightarrow> log_writer \<Rightarrow> u32 option \<times> log_writer" where
  "start_entry D name type_name ts w =
     (let i = lw_next_id w;
          w = w\<lparr> lw_next_id := i + 1 \<rparr>
      in case write_record D CONTROL_ENTRY ts (start_payload i name type_name) w of
           (False, w) \<Rightarrow> (None, w)
         | (True, w) \<Rightarrow>
             (Some i, w\<lparr> lw_entries := hm_insert (lw_entries w) name \<lparr> le_id = i, le_type_name = type_name \<rparr> \<rparr>))"

definition finish_entry :: "device \<Rightarrow> u32 \<Rightarrow> u64 \<Rightarrow> log_writer \<Rightarrow> bool \<times> log_writer" where
  "finish_entry D i ts w = write_record D CONTROL_ENTRY ts ([CONTROL_FINISH] @ u32_le i) w"

definition entry_id :: "device \<Rightarrow> string \<Rightarrow> string \<Rightarrow> u64 \<Rightarrow> log_writer \<Rightarrow> u32 option \<times> log_writer" where
  "entry_id D name type_name ts w =
     (case hm_get (lw_entries w) name of
        Some entry \<Rightarrow>
          if le_type_name entry = type_name then (Some (le_id entry), w)
          else (case finish_entry D (le_id entry) ts w of
                  (False, w) \<Rightarrow> (None, w)
                | (True, w) \<Rightarrow> start_entry D name type_name ts w)
      | None \<Rightarrow> start_entry D name type_name ts w)"

definition log_append :: "device \<Rightarrow> prost \<Rightarrow> string \<Rightarrow> u64 \<Rightarrow> kind \<Rightarrow> log_writer \<Rightarrow> bool \<times> log_writer" where
  "log_append D P channel ts k w =
     (case entry_id D channel (kind_type_name k) ts w of
        (None, w) \<Rightarrow> (False, w)
      | (Some i, w) \<Rightarrow>
          let p = kind_encode P k;
              (ok, w) = write_record D (ucast i) ts p w
          in (ok, w\<lparr> lw_scratch := p \<rparr>))"

definition append_raw :: "device \<Rightarrow> string \<Rightarrow> u64 \<Rightarrow> bytes \<Rightarrow> log_writer \<Rightarrow> bool \<times> log_writer" where
  "append_raw D channel ts p w =
     (case entry_id D channel ''raw'' ts w of
        (None, w) \<Rightarrow> (False, w)
      | (Some i, w) \<Rightarrow> write_record D (ucast i) ts p w)"

fun finish_each :: "device \<Rightarrow> u64 \<Rightarrow> u32 list \<Rightarrow> log_writer \<Rightarrow> bool \<times> log_writer" where
  "finish_each D ts [] w = (True, w)"
| "finish_each D ts (i # is) w =
     (case finish_entry D i ts w of (False, w) \<Rightarrow> (False, w) | (True, w) \<Rightarrow> finish_each D ts is w)"

definition finish_all :: "device \<Rightarrow> u64 \<Rightarrow> log_writer \<Rightarrow> bool \<times> log_writer" where
  "finish_all D ts w =
     finish_each D ts (map (\<lambda>(_, entry). le_id entry) (lw_entries w)) (w\<lparr> lw_entries := [] \<rparr>)"

section \<open>The logger\<close>

datatype log_command = CmdValue string u64 kind | CmdRaw string u64 bytes

record wpi_logger =
  lg_open :: bool
  lg_queue :: "log_command list"
  lg_capacity :: nat
  lg_dropped :: nat
  lg_failed :: bool
  lg_writer :: log_writer

definition logger_with_capacity :: "device \<Rightarrow> nat \<Rightarrow> wpi_logger option" where
  "logger_with_capacity D queue =
     (case with_extra_header D ''{\"source\":\"tarwyn\"}'' of
        (False, _) \<Rightarrow> None
      | (True, w) \<Rightarrow> Some \<lparr> lg_open = True, lg_queue = [], lg_capacity = queue, lg_dropped = 0, lg_failed = False,
                           lg_writer = w \<rparr>)"

definition submit :: "log_command \<Rightarrow> wpi_logger \<Rightarrow> wpi_logger" where
  "submit command l =
     (if \<not> lg_open l then l
      else if length (lg_queue l) < lg_capacity l then l\<lparr> lg_queue := lg_queue l @ [command] \<rparr>
      else l\<lparr> lg_dropped := lg_dropped l + 1 \<rparr>)"

fun run_command :: "device \<Rightarrow> prost \<Rightarrow> log_command \<Rightarrow> log_writer \<Rightarrow> bool \<times> log_writer" where
  "run_command D P (CmdValue channel ts k) w = log_append D P channel ts k w"
| "run_command D P (CmdRaw channel ts p) w = append_raw D channel ts p w"

text \<open>One command of the thread's loop.  Flushing moves no byte of the model; that it failed is an input.\<close>

definition drain_one :: "device \<Rightarrow> prost \<Rightarrow> bool \<Rightarrow> wpi_logger \<Rightarrow> wpi_logger" where
  "drain_one D P flushed l =
     (let l = (case lg_queue l of
                 [] \<Rightarrow> l
               | command # rest \<Rightarrow>
                   let l = l\<lparr> lg_queue := rest \<rparr> in
                   if lg_failed l then l
                   else let (wrote, w) = run_command D P command (lg_writer l)
                        in l\<lparr> lg_writer := w, lg_failed := \<not> wrote \<rparr>)
      in if flushed then l else l\<lparr> lg_failed := True \<rparr>)"

definition drain_end :: "device \<Rightarrow> u64 \<Rightarrow> wpi_logger \<Rightarrow> wpi_logger" where
  "drain_end D now l = l\<lparr> lg_writer := snd (finish_all D now (lg_writer l)) \<rparr>"

definition shutdown :: "wpi_logger \<Rightarrow> wpi_logger" where
  "shutdown l = l\<lparr> lg_open := False \<rparr>"

section \<open>Opening on a drive\<close>

text \<open>What listing a directory gives: the path of each entry and whether it is a directory, or nothing when
  it cannot be read.\<close>

type_synonym listing = "string \<Rightarrow> (string \<times> bool) list option"

primrec scan_mounts :: "listing \<Rightarrow> nat \<Rightarrow> string \<Rightarrow> string list" where
  "scan_mounts ls 0 root =
     (case ls root of None \<Rightarrow> [] | Some entries \<Rightarrow> map fst (filter snd entries))"
| "scan_mounts ls (Suc depth) root =
     (case ls root of
        None \<Rightarrow> []
      | Some entries \<Rightarrow> concat (map (\<lambda>(path, _). path # scan_mounts ls depth path) (filter snd entries)))"

definition removable_mounts :: "listing \<Rightarrow> string list" where
  "removable_mounts ls = concat (map (scan_mounts ls 1) [''/media'', ''/run/media'', ''/mnt''])"

definition path_join :: "string \<Rightarrow> string \<Rightarrow> string" where
  "path_join base name =
     (if name \<noteq> [] \<and> hd name = CHR ''/'' \<or> base = [] then name
      else if List.last base = CHR ''/'' then base @ name else base @ ''/'' @ name)"

text \<open>\<open>opener\<close>: what opening a log at a path gives.  No mount to try is \<open>Inl None\<close>.\<close>

fun open_on_mounts :: "(string \<Rightarrow> 'e + wpi_logger) \<Rightarrow> string \<Rightarrow> 'e option \<Rightarrow> string list \<Rightarrow> 'e option + wpi_logger \<times> string" where
  "open_on_mounts opener filename e [] = Inl e"
| "open_on_mounts opener filename e (mount # mounts) =
     (let path = path_join mount filename in
      case opener path of
        Inr logger \<Rightarrow> Inr (logger, path)
      | Inl e' \<Rightarrow> open_on_mounts opener filename (Some e') mounts)"

definition open_on_drive :: "listing \<Rightarrow> (string \<Rightarrow> 'e + wpi_logger) \<Rightarrow> string \<Rightarrow> 'e option + wpi_logger \<times> string" where
  "open_on_drive ls opener filename = open_on_mounts opener filename None (removable_mounts ls)"

text \<open>The log lands on the first directory that takes it, and fails with the error of the last one tried.\<close>

lemma open_on_mounts_first:
  "open_on_mounts opener filename e mounts = Inr (logger, path) \<longleftrightarrow>
     (\<exists>before mount after. mounts = before @ mount # after \<and> path = path_join mount filename \<and> opener path = Inr logger
        \<and> (\<forall>m \<in> set before. \<exists>e. opener (path_join m filename) = Inl e))"
proof (induction mounts arbitrary: e)
  case (Cons m mounts)
  show ?case
  proof (cases "opener (path_join m filename)")
    case (Inl x)
    have "(\<exists>before mount after. m # mounts = before @ mount # after \<and> path = path_join mount filename \<and> opener path = Inr logger
        \<and> (\<forall>m \<in> set before. \<exists>e. opener (path_join m filename) = Inl e))
      \<longleftrightarrow> (\<exists>before mount after. mounts = before @ mount # after \<and> path = path_join mount filename \<and> opener path = Inr logger
        \<and> (\<forall>m \<in> set before. \<exists>e. opener (path_join m filename) = Inl e))" (is "?l \<longleftrightarrow> ?r")
    proof
      assume ?l
      then obtain before mount after where *: "m # mounts = before @ mount # after" "path = path_join mount filename"
        "opener path = Inr logger" "\<forall>m \<in> set before. \<exists>e. opener (path_join m filename) = Inl e" by blast
      with Inl show ?r by (cases before) auto
    next
      assume ?r
      then obtain before mount after where *: "mounts = before @ mount # after" "path = path_join mount filename"
        "opener path = Inr logger" "\<forall>m \<in> set before. \<exists>e. opener (path_join m filename) = Inl e" by blast
      with Inl have "m # mounts = (m # before) @ mount # after" "\<forall>m \<in> set (m # before). \<exists>e. opener (path_join m filename) = Inl e"
        by auto
      with *(2,3) show ?l by blast
    qed
    then show ?thesis using Cons.IH [of "Some x"] Inl by simp
  next
    case (Inr l)
    have "m # mounts = before @ mount # after \<Longrightarrow> \<forall>m \<in> set before. \<exists>e. opener (path_join m filename) = Inl e \<Longrightarrow> before = []"
      for before mount after using Inr by (cases before) auto
    then show ?thesis using Inr by (fastforce simp: Let_def)
  qed
qed simp

lemma open_on_mounts_failed:
  "open_on_mounts opener filename e mounts = Inl e' \<longleftrightarrow>
     (\<forall>m \<in> set mounts. \<exists>x. opener (path_join m filename) = Inl x)
     \<and> (if mounts = [] then e' = e else map_option Inl e' = Some (opener (path_join (List.last mounts) filename)))"
  by (induction mounts arbitrary: e) (auto simp: Let_def split: sum.split)

text \<open>Every directory is taken for a mount, whether anything is mounted there or not.\<close>

lemma unmounted_directory_listed:
  "ls ''/media'' = Some [(''/media/stick'', True)] \<Longrightarrow> ''/media/stick'' \<in> set (removable_mounts ls)"
  by (simp add: removable_mounts_def One_nat_def [symmetric] del: One_nat_def) simp

end
