(* ===== verification/Wpilog_Props.thy ===== *)
theory Wpilog_Props
  imports Wpilog
begin

text \<open>
  Reading a log back.  The reader is the one the WPILOG format prescribes (and the repository's tests
  use): a length bitfield, three little-endian numbers, the payload; entry 0 carries the control records
  that open and close the numbered channels.
\<close>

section \<open>A reader\<close>

definition take_le :: "nat \<Rightarrow> bytes \<Rightarrow> (nat \<times> bytes) option" where
  "take_le n bs = (if length bs < n then None else Some (le_nat (take n bs), drop n bs))"

type_synonym log_record = "nat \<times> nat \<times> bytes"

definition read_record :: "bytes \<Rightarrow> (log_record \<times> bytes) option" where
  "read_record bs =
     (case bs of
        [] \<Rightarrow> None
      | bitfield # rest \<Rightarrow>
          let b = unat bitfield in
          Option.bind (take_le (b mod 4 + 1) rest) (\<lambda>(i, rest).
          Option.bind (take_le (b div 4 mod 4 + 1) rest) (\<lambda>(size, rest).
          Option.bind (take_le (b div 16 mod 8 + 1) rest) (\<lambda>(ts, rest).
          if length rest < size then None else Some ((i, ts, take size rest), drop size rest)))))"

lemma take_le_length: "take_le n bs = Some (v, rest) \<Longrightarrow> length rest \<le> length bs"
  by (auto simp: take_le_def split: if_splits)

lemma read_record_shorter: "read_record bs = Some (x, rest) \<Longrightarrow> length rest < length bs"
  by (cases bs) (auto simp: read_record_def Let_def Option.bind_eq_Some_conv dest!: take_le_length split: if_splits)

function read_log :: "bytes \<Rightarrow> log_record list option" where
  "read_log bs =
     (if bs = [] then Some []
      else case read_record bs of
        None \<Rightarrow> None
      | Some (x, rest) \<Rightarrow> map_option ((#) x) (read_log rest))"
  by pat_completeness auto
termination
  by (relation "measure length") (auto dest: read_record_shorter)

declare read_log.simps [simp del]

definition read_header :: "bytes \<Rightarrow> bytes option" where
  "read_header bs =
     (if take 6 bs \<noteq> WPILOG_MAGIC then None
      else Option.bind (take_le 2 (drop 6 bs)) (\<lambda>(version, rest).
           if version \<noteq> unat WPILOG_VERSION then None
           else Option.bind (take_le 4 rest) (\<lambda>(n, rest). if length rest < n then None else Some (drop n rest))))"

section \<open>Lengths\<close>

lemma unat_shift_byte: "unat (drop_bit 8 (x :: u64)) = unat x div 256"
  by (simp add: unat_drop_bit_eq drop_bit_nat_def)

lemma min_len_loop_bounds:
  "len \<le> min_len_loop len r \<and> unat r < 256 ^ (min_len_loop len r - len) \<and>
   (\<forall>k. unat r < 256 ^ k \<longrightarrow> min_len_loop len r \<le> len + k)"
proof (induction len r rule: min_len_loop.induct)
  case (1 len r)
  show ?case
  proof (cases "r > 0")
    case True
    let ?m = "min_len_loop (len + 1) (drop_bit 8 r)"
    have eq: "min_len_loop len r = ?m" using True by (subst min_len_loop.simps) simp
    note IH = "1.IH" [OF True]
    have lower: "len + 1 \<le> ?m" using IH by blast
    then have "?m - len = Suc (?m - (len + 1))" by simp
    moreover have "unat r div 256 < 256 ^ (?m - (len + 1))" using IH by (simp only: unat_shift_byte)
    ultimately have "unat r < 256 ^ (?m - len)" by (simp add: div_less_iff_less_mult mult.commute)
    moreover have "?m \<le> len + k" if k: "unat r < 256 ^ k" for k
    proof (cases k)
      case 0
      with k True show ?thesis by (simp add: word_less_nat_alt)
    next
      case (Suc j)
      with k have "unat (drop_bit 8 r) < 256 ^ j" by (simp add: unat_shift_byte div_less_iff_less_mult mult.commute)
      then have "?m \<le> len + 1 + j" using IH by blast
      with Suc show ?thesis by simp
    qed
    ultimately show ?thesis using lower unfolding eq by auto
  next
    case False
    then have "r = 0" by (simp add: word_gt_0)
    moreover have "min_len_loop len 0 = len" by (subst min_len_loop.simps) simp
    ultimately show ?thesis by simp
  qed
qed

lemma min_len_ge: "1 \<le> min_len v"
  using min_len_loop_bounds [of 1 "drop_bit 8 v"] by (simp add: min_len_def)

lemma min_len_fits: "unat v < 256 ^ min_len v"
proof -
  have "unat v div 256 < 256 ^ (min_len v - 1)"
    using min_len_loop_bounds [of 1 "drop_bit 8 v"] by (simp add: min_len_def unat_shift_byte)
  moreover have "(256 :: nat) ^ min_len v = 256 ^ (min_len v - 1) * 256"
    using min_len_ge [of v] by (cases "min_len v") simp_all
  ultimately show ?thesis by (simp add: div_less_iff_less_mult)
qed

lemma min_len_least: "unat v < 256 ^ Suc k \<Longrightarrow> min_len v \<le> Suc k"
proof -
  assume "unat v < 256 ^ Suc k"
  then have "unat (drop_bit 8 v) < 256 ^ k" by (simp add: unat_shift_byte div_less_iff_less_mult mult.commute)
  then have "min_len_loop 1 (drop_bit 8 v) \<le> 1 + k" using min_len_loop_bounds by blast
  then show ?thesis by (simp add: min_len_def)
qed

lemma min_len_64: "min_len v \<le> 8"
  using min_len_least [of v 7] unat_less_2p [of v] by simp

lemma min_len_32: "unat v < 2 ^ 32 \<Longrightarrow> min_len v \<le> 4"
  using min_len_least [of v 3] by simp

lemma put_le_bytes: "put_le out v n = out @ le_bytes n (unat v)"
proof -
  have "le_bytes n x = map (\<lambda>i. of_nat (x div 256 ^ i mod 256)) [0..<n]" for x n
  proof (induction n arbitrary: x)
    case (Suc n)
    have "[0..<Suc n] = 0 # map Suc [0..<n]" by (simp add: upt_conv_Cons map_Suc_upt)
    then show ?case by (simp add: Suc.IH comp_def div_mult2_eq)
  qed simp
  moreover have "ucast (drop_bit (8 * i) v) = (of_nat (unat v div 256 ^ i mod 256) :: u8)" for i
  proof -
    have "unat (drop_bit (8 * i) v) = unat v div 256 ^ i"
      by (simp add: unat_drop_bit_eq drop_bit_nat_def power_mult)
    then have "(ucast (drop_bit (8 * i) v) :: u8) = of_nat (unat v div 256 ^ i)" by (metis of_nat_unat)
    then show ?thesis by (simp add: word_of_nat_eq_iff take_bit_eq_mod)
  qed
  ultimately show ?thesis by (simp add: put_le_def)
qed

section \<open>One record\<close>

text \<open>The bitfield packs the three lengths without loss as long as they fit.\<close>

definition bitfield :: "nat \<Rightarrow> nat \<Rightarrow> nat \<Rightarrow> u8" where
  "bitfield a b c = of_nat (a OR push_bit 2 b OR push_bit 4 c)"

lemma bitfield_table:
  "list_all (\<lambda>a :: nat. list_all (\<lambda>b. list_all (\<lambda>c. a OR push_bit 2 b OR push_bit 4 c = a + 4 * b + 16 * c)
      [0..<8]) [0..<4]) [0..<4]"
  by code_simp

lemma bitfield_sum:
  assumes "a < 4" and "b < 4" and "c < 8"
  shows "unat (bitfield a b c) = a + 4 * b + 16 * c"
proof -
  have "a OR push_bit 2 b OR push_bit 4 c = a + 4 * b + 16 * c"
    using bitfield_table assms by (simp only: list_all_iff Let_def atLeastLessThan_iff set_upt le0 simp_thms)
  moreover have "a + 4 * b + 16 * c < 2 ^ LENGTH(8)" using assms by simp
  ultimately show ?thesis by (simp only: bitfield_def unat_of_nat_small)
qed

lemma bitfield_unpack:
  assumes "a < 4" and "b < 4" and "c < 8"
  shows "unat (bitfield a b c) mod 4 = a" "unat (bitfield a b c) div 4 mod 4 = b" "unat (bitfield a b c) div 16 mod 8 = c"
proof -
  have x: "unat (bitfield a b c) = a + 4 * (b + 4 * c)" using assms by (simp add: bitfield_sum)
  have d: "unat (bitfield a b c) div 4 = b + 4 * c" using assms(1) by (simp add: x)
  show "unat (bitfield a b c) mod 4 = a" using assms(1) by (simp only: x mod_mult_self2 mod_less)
  show "unat (bitfield a b c) div 4 mod 4 = b" using assms(2) by (simp add: d)
  have "unat (bitfield a b c) div 16 = unat (bitfield a b c) div 4 div 4" by (simp add: div_mult2_eq [symmetric])
  then show "unat (bitfield a b c) div 16 mod 8 = c" using assms(2,3) by (simp add: d)
qed

lemma take_le_bytes: "v < 256 ^ n \<Longrightarrow> take_le n (le_bytes n v @ rest) = Some (v, rest)"
  by (simp add: take_le_def le_nat_le_bytes_id)

lemma record_header_layout:
  "record_header i ts p = bitfield (min_len i - 1) (min_len (of_nat (length p)) - 1) (min_len ts - 1)
     # le_bytes (min_len i) (unat i) @ le_bytes (min_len (of_nat (length p))) (unat (of_nat (length p) :: u64))
     @ le_bytes (min_len ts) (unat ts)"
  by (simp add: record_header_def Let_def put_le_bytes bitfield_def)

definition small :: "bytes \<Rightarrow> bool" where
  "small p \<longleftrightarrow> length p < 2 ^ 32"

lemma small_length: "small p \<Longrightarrow> unat (of_nat (length p) :: u64) = length p"
  by (intro unat_of_nat_small) (simp add: small_def)

lemma read_record_header:
  assumes "unat i < 2 ^ 32" and "small p"
  shows "read_record (record_header i ts p @ p @ rest) = Some ((unat i, unat ts, p), rest)"
proof -
  let ?n = "of_nat (length p) :: u64"
  have n: "unat ?n = length p" using assms(2) by (rule small_length)
  have "min_len i \<le> 4" "min_len ?n \<le> 4" "min_len ts \<le> 8"
    using assms n by (simp_all add: min_len_32 min_len_64 small_def)
  then have lens: "min_len i - 1 < 4" "min_len ?n - 1 < 4" "min_len ts - 1 < 8" by simp_all
  have suc: "min_len v - 1 + 1 = min_len v" for v using min_len_ge [of v] by simp
  show ?thesis
    unfolding read_record_def record_header_layout append_Cons append_assoc list.case Let_def
      bitfield_unpack [OF lens] suc
    using min_len_fits [of i] min_len_fits [of ?n] min_len_fits [of ts]
    by (simp add: take_le_bytes n)
qed

section \<open>Reading on\<close>

lemma take_le_append: "take_le n bs = Some (v, rest) \<Longrightarrow> take_le n (bs @ ms) = Some (v, rest @ ms)"
  by (auto simp: take_le_def split: if_splits)

lemma read_record_append:
  assumes "read_record bs = Some (x, rest)"
  shows "read_record (bs @ ms) = Some (x, rest @ ms)"
proof -
  obtain b r0 i r1 size r2 ts r3 where bs: "bs = b # r0"
    and t: "take_le (unat b mod 4 + 1) r0 = Some (i, r1)" "take_le (unat b div 4 mod 4 + 1) r1 = Some (size, r2)"
      "take_le (unat b div 16 mod 8 + 1) r2 = Some (ts, r3)"
    and r: "\<not> length r3 < size" "x = (i, ts, take size r3)" "rest = drop size r3"
    using assms by (cases bs) (auto simp: read_record_def Let_def Option.bind_eq_Some_conv split: if_splits)
  show ?thesis
    using t [THEN take_le_append, of ms] r by (simp add: bs read_record_def Let_def)
qed

lemma read_header_append:
  assumes "read_header bs = Some rest"
  shows "read_header (bs @ ms) = Some (rest @ ms)"
proof -
  obtain r1 n r2 where m: "take 6 bs = WPILOG_MAGIC"
    and t: "take_le 2 (drop 6 bs) = Some (unat WPILOG_VERSION, r1)" "take_le 4 r1 = Some (n, r2)"
    and r: "\<not> length r2 < n" "rest = drop n r2"
    using assms by (auto simp: read_header_def Option.bind_eq_Some_conv split: if_splits)
  have "length (take 6 bs) = 6" unfolding m by (simp add: WPILOG_MAGIC_def)
  then have "6 \<le> length bs" by simp
  then show ?thesis using t [THEN take_le_append, of ms] m r by (simp add: read_header_def)
qed

lemma read_log_append:
  "read_log a = Some xs \<Longrightarrow> read_log (a @ b) = map_option ((@) xs) (read_log b)"
proof (induction a arbitrary: xs rule: read_log.induct)
  case (1 bs)
  show ?case
  proof (cases "bs = []")
    case True
    with "1.prems" show ?thesis by (simp add: read_log.simps [of "[]"] option.map_ident)
  next
    case False
    with "1.prems" obtain x rest ys where x: "read_record bs = Some (x, rest)" "read_log rest = Some ys" "xs = x # ys"
      by (subst (asm) read_log.simps) (auto split: option.splits)
    have "read_log (bs @ b) = map_option ((#) x) (read_log (rest @ b))"
      using False read_record_append [OF x(1), of b] by (subst read_log.simps) simp
    then show ?thesis
      using "1.IH" [OF False x(1) refl x(2)] by (simp add: x(3) option.map_comp comp_def)
  qed
qed

section \<open>What a log says\<close>

datatype log_control = Started nat bytes bytes | Finished nat

definition control_parse :: "bytes \<Rightarrow> log_control option" where
  "control_parse p =
     (case p of
        [] \<Rightarrow> None
      | tag # rest \<Rightarrow>
          Option.bind (take_le 4 rest) (\<lambda>(i, rest).
          if tag = CONTROL_START then
            Option.bind (take_le 4 rest) (\<lambda>(n, rest).
            Option.bind (take_le 4 (drop n rest)) (\<lambda>(m, rest').
            Some (Started i (take n rest) (take m rest'))))
          else if tag = CONTROL_FINISH then Some (Finished i) else None))"

type_synonym log_value = "bytes \<times> bytes \<times> nat \<times> bytes"
type_synonym log_state = "(nat \<rightharpoonup> bytes \<times> bytes) \<times> log_value list"

text \<open>A log is well formed when no open number is opened again, none is used or closed unless it is open.\<close>

fun log_step :: "log_record \<Rightarrow> log_state \<Rightarrow> log_state option" where
  "log_step (i, ts, p) (opened, vals) =
     (if i = 0 then
        (case control_parse p of
           None \<Rightarrow> None
         | Some (Started j name type_name) \<Rightarrow>
             if opened j = None then Some (opened(j \<mapsto> (name, type_name)), vals) else None
         | Some (Finished j) \<Rightarrow> if opened j = None then None else Some (opened(j := None), vals))
      else case opened i of
        None \<Rightarrow> None
      | Some (name, type_name) \<Rightarrow> Some (opened, vals @ [(name, type_name, ts, p)]))"

primrec log_steps :: "log_record list \<Rightarrow> log_state \<Rightarrow> log_state option" where
  "log_steps [] st = Some st"
| "log_steps (x # xs) st = Option.bind (log_step x st) (log_steps xs)"

lemma log_steps_append: "log_steps (xs @ ys) st = Option.bind (log_steps xs st) (log_steps ys)"
  by (induction xs arbitrary: st) (auto split: Option.bind_splits)

definition log_says :: "bytes \<Rightarrow> log_state \<Rightarrow> bool" where
  "log_says out st \<longleftrightarrow>
     Option.bind (Option.bind (read_header out) read_log) (\<lambda>rs. log_steps rs (Map.empty, [])) = Some st"

lemma log_says_record:
  assumes "log_says out st" and "unat i < 2 ^ 32" and "small p" and "log_step (unat i, unat ts, p) st = Some st'"
  shows "log_says (out @ record_header i ts p @ p) st'"
proof -
  obtain rest rs where r: "read_header out = Some rest" "read_log rest = Some rs" "log_steps rs (Map.empty, []) = Some st"
    using assms(1) by (auto simp: log_says_def Option.bind_eq_Some_conv)
  have "record_header i ts p @ p \<noteq> []" by (simp add: record_header_layout)
  then have "read_log (record_header i ts p @ p) = Some [(unat i, unat ts, p)]"
    using read_record_header [OF assms(2,3), of ts "[]"] by (subst read_log.simps) (simp add: read_log.simps [of "[]"])
  then have "read_log (rest @ record_header i ts p @ p) = Some (rs @ [(unat i, unat ts, p)])"
    using read_log_append [OF r(2)] by simp
  moreover have "log_steps (rs @ [(unat i, unat ts, p)]) (Map.empty, []) = Some st'"
    using r(3) assms(4) by (simp add: log_steps_append)
  ultimately show ?thesis
    using read_header_append [OF r(1), of "record_header i ts p @ p"] by (simp add: log_says_def)
qed

lemma control_parse_finish: "control_parse (CONTROL_FINISH # u32_le i) = Some (Finished (unat i))"
  using take_le_bytes [of "unat i" 4 "[]"] unat_less_2p [of i]
  by (simp add: control_parse_def CONTROL_START_def CONTROL_FINISH_def)

lemma control_parse_start:
  assumes "length (str_bytes name) < 2 ^ 31" and "length (str_bytes type_name) < 2 ^ 31"
  shows "control_parse (start_payload i name type_name) = Some (Started (unat i) (str_bytes name) (str_bytes type_name))"
proof -
  have len: "unat (of_nat n :: u32) = n" if "n < 2 ^ 31" for n
    using that by (intro unat_of_nat_small) simp
  have "unat i < 256 ^ 4" using unat_less_2p [of i] by simp
  then show ?thesis
    using assms by (simp add: control_parse_def start_payload_def take_le_bytes len)
qed

section \<open>The writer\<close>

definition sound :: "device \<Rightarrow> bool" where
  "sound D \<longleftrightarrow> (\<forall>n. D n = None)"

lemma write_record_sound:
  "sound D \<Longrightarrow> write_record D i ts p w =
     (True, w\<lparr> lw_out := lw_out w @ record_header i ts p @ p, lw_writes := lw_writes w + 2 \<rparr>)"
  by (simp add: sound_def write_record_def write_all_def)

text \<open>The numbers open in the log are those of the entries.\<close>

definition entry_mark :: "string \<Rightarrow> log_entry \<Rightarrow> bytes \<times> bytes" where
  "entry_mark name e = (str_bytes name, str_bytes (le_type_name e))"

definition agrees :: "(string, log_entry) hm \<Rightarrow> (nat \<rightharpoonup> bytes \<times> bytes) \<Rightarrow> bool" where
  "agrees es opened \<longleftrightarrow>
     (\<forall>name e. hm_get es name = Some e \<longrightarrow> opened (unat (le_id e)) = Some (entry_mark name e)) \<and>
     (\<forall>j nt. opened j = Some nt \<longrightarrow> (\<exists>name e. hm_get es name = Some e \<and> unat (le_id e) = j))"

lemma agreesD: "agrees es opened \<Longrightarrow> hm_get es name = Some e \<Longrightarrow> opened (unat (le_id e)) = Some (entry_mark name e)"
  by (simp add: agrees_def)

lemma agreesE:
  assumes "agrees es opened" and "opened j = Some nt"
  obtains name e where "hm_get es name = Some e" and "unat (le_id e) = j"
  using assms unfolding agrees_def by blast

definition numbered_to :: "u32 \<Rightarrow> (string, log_entry) hm \<Rightarrow> bool" where
  "numbered_to n es \<longleftrightarrow> (\<forall>name e. hm_get es name = Some e \<longrightarrow> 0 < unat (le_id e) \<and> unat (le_id e) < unat n)"

definition writer_ok :: "log_writer \<Rightarrow> log_state \<Rightarrow> bool" where
  "writer_ok w st \<longleftrightarrow> log_says (lw_out w) st \<and> hm_ok (lw_entries w) \<and> agrees (lw_entries w) (fst st)
     \<and> numbered_to (lw_next_id w) (lw_entries w) \<and> 0 < unat (lw_next_id w)"

lemma str_bytes_inj [simp]: "str_bytes s = str_bytes t \<longleftrightarrow> s = t"
  by (metis bytes_str_str_bytes)

lemma agrees_insert:
  assumes "agrees (hm_remove es name) opened" and "opened (unat (le_id e)) = None"
  shows "agrees (hm_insert es name e) (opened(unat (le_id e) \<mapsto> entry_mark name e))"
  unfolding agrees_def
proof (intro conjI allI impI)
  fix n e' assume "hm_get (hm_insert es name e) n = Some e'"
  then show "(opened(unat (le_id e) \<mapsto> entry_mark name e)) (unat (le_id e')) = Some (entry_mark n e')"
    using agreesD [OF assms(1), of n e'] assms(2) by (cases "n = name") auto
next
  fix j nt assume j: "(opened(unat (le_id e) \<mapsto> entry_mark name e)) j = Some nt"
  show "\<exists>n e'. hm_get (hm_insert es name e) n = Some e' \<and> unat (le_id e') = j"
  proof (cases "j = unat (le_id e)")
    case True
    then show ?thesis by (intro exI [of _ name] exI [of _ e]) simp
  next
    case False
    with j obtain n e' where "hm_get (hm_remove es name) n = Some e'" "unat (le_id e') = j"
      using agreesE [OF assms(1), of j nt] by auto
    then show ?thesis by (intro exI [of _ n] exI [of _ e']) (auto split: if_splits)
  qed
qed

lemma agrees_remove:
  assumes "agrees es opened" and "hm_get es name = Some e"
  shows "agrees (hm_remove es name) (opened(unat (le_id e) := None))"
proof -
  have inj: "n = name" if "hm_get es n = Some e'" "unat (le_id e') = unat (le_id e)" for n e'
    using agreesD [OF assms] agreesD [OF assms(1) that(1)] that(2) by (simp add: entry_mark_def)
  show ?thesis unfolding agrees_def
  proof (intro conjI allI impI)
    fix n e' assume "hm_get (hm_remove es name) n = Some e'"
    then have "n \<noteq> name" "hm_get es n = Some e'" by (auto split: if_splits)
    then show "(opened(unat (le_id e) := None)) (unat (le_id e')) = Some (entry_mark n e')"
      using inj agreesD [OF assms(1)] by auto
  next
    fix j nt assume "(opened(unat (le_id e) := None)) j = Some nt"
    then have j: "j \<noteq> unat (le_id e)" "opened j = Some nt" by (auto split: if_splits)
    obtain n e' where n: "hm_get es n = Some e'" "unat (le_id e') = j" using assms(1) j(2) by (rule agreesE)
    then have "n \<noteq> name" using j(1) assms(2) by auto
    with n show "\<exists>n e'. hm_get (hm_remove es name) n = Some e' \<and> unat (le_id e') = j"
      by (intro exI [of _ n] exI [of _ e']) simp
  qed
qed

lemma start_entry_sound:
  assumes "sound D" and "log_says (lw_out w) (opened, vals)" and "hm_ok (lw_entries w)"
    and "agrees (hm_remove (lw_entries w) name) opened" and "numbered_to (lw_next_id w) (lw_entries w)"
    and "0 < unat (lw_next_id w)" and "unat (lw_next_id w) < 2 ^ 32 - 1"
    and "length name < 2 ^ 30" and "length type_name < 2 ^ 30"
  shows "\<exists>w'. start_entry D name type_name ts w = (Some (lw_next_id w), w') \<and>
    writer_ok w' (opened(unat (lw_next_id w) \<mapsto> (str_bytes name, str_bytes type_name)), vals) \<and>
    unat (lw_next_id w') = Suc (unat (lw_next_id w))"
proof -
  let ?i = "lw_next_id w"
  have next_id: "unat (?i + 1) = Suc (unat ?i)"
    using assms(7) by (simp add: unat_word_ariths)
  have fresh: "opened (unat ?i) = None"
  proof (rule ccontr)
    assume "opened (unat ?i) \<noteq> None"
    then obtain nt where "opened (unat ?i) = Some nt" by blast
    then obtain n e where "hm_get (hm_remove (lw_entries w) name) n = Some e" "unat (le_id e) = unat ?i"
      using assms(4) by (blast elim: agreesE)
    then have "hm_get (lw_entries w) n = Some e" "unat (le_id e) = unat ?i" by (auto split: if_splits)
    then show False using assms(5) unfolding numbered_to_def by (metis less_irrefl)
  qed
  let ?p = "start_payload ?i name type_name"
  have "small ?p" using assms(8,9) by (simp add: small_def start_payload_def)
  moreover have "log_step (unat CONTROL_ENTRY, unat ts, ?p) (opened, vals) =
      Some (opened(unat ?i \<mapsto> (str_bytes name, str_bytes type_name)), vals)"
    using control_parse_start [of name type_name ?i] assms(8,9) fresh by (simp add: CONTROL_ENTRY_def)
  ultimately have "log_says (lw_out w @ record_header CONTROL_ENTRY ts ?p @ ?p)
      (opened(unat ?i \<mapsto> (str_bytes name, str_bytes type_name)), vals)"
    by (intro log_says_record [OF assms(2)]) (simp_all add: CONTROL_ENTRY_def)
  moreover have "agrees (hm_insert (lw_entries w) name \<lparr> le_id = ?i, le_type_name = type_name \<rparr>)
      (opened(unat ?i \<mapsto> (str_bytes name, str_bytes type_name)))"
    using agrees_insert [OF assms(4), of "\<lparr> le_id = ?i, le_type_name = type_name \<rparr>"] fresh by (simp add: entry_mark_def)
  moreover have "numbered_to (?i + 1) (hm_insert (lw_entries w) name \<lparr> le_id = ?i, le_type_name = type_name \<rparr>)"
    using assms(5,6) unfolding numbered_to_def next_id by (auto simp: less_Suc_eq)
  ultimately show ?thesis
    using assms(3) by (simp add: start_entry_def Let_def write_record_sound [OF assms(1)] writer_ok_def next_id)
qed

lemma data_record_sound:
  assumes "sound D" and "writer_ok w (opened, vals)" and "opened (unat i) = Some (name, type_name)" and "small p"
  shows "\<exists>w'. write_record D (ucast (i :: u32)) ts p w = (True, w') \<and>
    writer_ok w' (opened, vals @ [(name, type_name, unat ts, p)]) \<and> lw_next_id w' = lw_next_id w"
proof -
  have i: "unat (ucast i :: u64) = unat i" by (simp add: unat_ucast_up)
  have "unat i > 0"
  proof -
    have "agrees (lw_entries w) opened" "numbered_to (lw_next_id w) (lw_entries w)"
      using assms(2) by (simp_all add: writer_ok_def)
    then show ?thesis using assms(3) unfolding numbered_to_def by (metis agreesE)
  qed
  then have st: "log_step (unat (ucast i :: u64), unat ts, p) (opened, vals) = Some (opened, vals @ [(name, type_name, unat ts, p)])"
    using assms(3) by (simp add: i)
  have "log_says (lw_out w) (opened, vals)" "unat (ucast i :: u64) < 2 ^ 32"
    using assms(2) unat_less_2p [of i] by (simp_all add: writer_ok_def i)
  then have "log_says (lw_out w @ record_header (ucast i) ts p @ p) (opened, vals @ [(name, type_name, unat ts, p)])"
    by (rule log_says_record [OF _ _ assms(4) st])
  then show ?thesis using assms(2) by (simp add: write_record_sound [OF assms(1)] writer_ok_def)
qed

lemma finish_record_sound:
  assumes "sound D" and "log_says (lw_out w) (opened, vals)" and "opened (unat i) = Some nt"
  shows "finish_entry D i ts w = (True, w\<lparr> lw_out := lw_out w @ record_header CONTROL_ENTRY ts (CONTROL_FINISH # u32_le i)
        @ (CONTROL_FINISH # u32_le i), lw_writes := lw_writes w + 2 \<rparr>)"
    and "log_says (lw_out (snd (finish_entry D i ts w))) (opened(unat i := None), vals)"
proof -
  show eq: "finish_entry D i ts w = (True, w\<lparr> lw_out := lw_out w @ record_header CONTROL_ENTRY ts (CONTROL_FINISH # u32_le i)
        @ (CONTROL_FINISH # u32_le i), lw_writes := lw_writes w + 2 \<rparr>)"
    by (simp add: finish_entry_def write_record_sound [OF assms(1)])
  have "log_step (unat CONTROL_ENTRY, unat ts, CONTROL_FINISH # u32_le i) (opened, vals) = Some (opened(unat i := None), vals)"
    using assms(3) by (simp add: CONTROL_ENTRY_def control_parse_finish)
  then have "log_says (lw_out w @ record_header CONTROL_ENTRY ts (CONTROL_FINISH # u32_le i) @ (CONTROL_FINISH # u32_le i))
      (opened(unat i := None), vals)"
    by (intro log_says_record [OF assms(2)]) (simp_all add: CONTROL_ENTRY_def small_def)
  then show "log_says (lw_out (snd (finish_entry D i ts w))) (opened(unat i := None), vals)" by (simp add: eq)
qed

lemma hm_remove_absent: "hm_get es name = None \<Longrightarrow> agrees es opened \<Longrightarrow> agrees (hm_remove es name) opened"
proof -
  assume a: "agrees es opened" and none: "hm_get es name = None"
  have "hm_get (hm_remove es name) n = hm_get es n" for n using none by simp
  then show ?thesis using a by (simp only: agrees_def)
qed

lemma entry_id_sound:
  assumes "sound D" and ok: "writer_ok w (opened, vals)" and "unat (lw_next_id w) < 2 ^ 32 - 1"
    and "length name < 2 ^ 30" and "length type_name < 2 ^ 30"
  shows "\<exists>i w' opened'. entry_id D name type_name ts w = (Some i, w') \<and> writer_ok w' (opened', vals) \<and>
    opened' (unat i) = Some (str_bytes name, str_bytes type_name) \<and> unat (lw_next_id w') \<le> Suc (unat (lw_next_id w))"
proof (cases "hm_get (lw_entries w) name")
  case None
  then have "agrees (hm_remove (lw_entries w) name) opened" using ok by (intro hm_remove_absent) (simp_all add: writer_ok_def)
  from start_entry_sound [OF assms(1) _ _ this _ _ assms(3-5), of vals] ok None show ?thesis
    by (fastforce simp: entry_id_def writer_ok_def)
next
  case (Some e)
  have op: "opened (unat (le_id e)) = Some (entry_mark name e)" 
    using ok by (intro agreesD [OF _ Some]) (simp add: writer_ok_def)
  show ?thesis
  proof (cases "le_type_name e = type_name")
    case True
    with op ok Some show ?thesis by (auto simp: entry_id_def entry_mark_def)
  next
    case False
    let ?w = "snd (finish_entry D (le_id e) ts w)"
    have says: "log_says (lw_out w) (opened, vals)" using ok by (simp add: writer_ok_def)
    note fin = finish_record_sound [OF assms(1) says op, of ts]
    have w: "lw_entries ?w = lw_entries w" "lw_next_id ?w = lw_next_id w" "fst (finish_entry D (le_id e) ts w) = True"
      by (simp_all add: fin(1))
    have "agrees (hm_remove (lw_entries ?w) name) (opened(unat (le_id e) := None))"
      unfolding w using ok Some by (intro agrees_remove) (simp_all add: writer_ok_def)
    from start_entry_sound [OF assms(1) fin(2) _ this, of type_name ts] ok assms(3-5)
    obtain w' where "start_entry D name type_name ts ?w = (Some (lw_next_id w), w')"
      "writer_ok w' ((opened(unat (le_id e) := None))(unat (lw_next_id w) \<mapsto> (str_bytes name, str_bytes type_name)), vals)"
      "unat (lw_next_id w') = Suc (unat (lw_next_id w))"
      unfolding w by (auto simp: writer_ok_def)
    moreover have "entry_id D name type_name ts w = start_entry D name type_name ts ?w"
      using False Some w(3) by (cases "finish_entry D (le_id e) ts w") (simp add: entry_id_def)
    ultimately show ?thesis by (intro exI conjI) (assumption | simp)+
  qed
qed

section \<open>The logger\<close>

fun command_value :: "prost \<Rightarrow> log_command \<Rightarrow> log_value" where
  "command_value P (CmdValue channel ts k) = (str_bytes channel, str_bytes (kind_type_name k), unat ts, kind_encode P k)"
| "command_value P (CmdRaw channel ts p) = (str_bytes channel, str_bytes ''raw'', unat ts, p)"

fun command_ok :: "prost \<Rightarrow> log_command \<Rightarrow> bool" where
  "command_ok P (CmdValue channel ts k) \<longleftrightarrow> length channel < 2 ^ 30 \<and> small (kind_encode P k)"
| "command_ok P (CmdRaw channel ts p) \<longleftrightarrow> length channel < 2 ^ 30 \<and> small p"

lemma kind_type_name_length: "length (kind_type_name k) < 2 ^ 30"
  by (cases k) simp_all

lemma appended_sound:
  assumes "sound D" and "writer_ok w (opened, vals)" and "unat (lw_next_id w) < 2 ^ 32 - 1"
    and "length channel < 2 ^ 30" and "length type_name < 2 ^ 30" and "small p"
  shows "\<exists>i w1 w2 opened'. entry_id D channel type_name ts w = (Some i, w1) \<and> write_record D (ucast i) ts p w1 = (True, w2) \<and>
    writer_ok w2 (opened', vals @ [(str_bytes channel, str_bytes type_name, unat ts, p)]) \<and>
    unat (lw_next_id w2) \<le> Suc (unat (lw_next_id w))"
proof -
  obtain i w1 opened' where e: "entry_id D channel type_name ts w = (Some i, w1)" "writer_ok w1 (opened', vals)"
      "opened' (unat i) = Some (str_bytes channel, str_bytes type_name)" "unat (lw_next_id w1) \<le> Suc (unat (lw_next_id w))"
    using entry_id_sound [OF assms(1-5)] by blast
  from data_record_sound [OF assms(1) e(2,3) assms(6), of ts] e(1,4) show ?thesis by fastforce
qed

lemma writer_ok_scratch [simp]: "writer_ok (w\<lparr> lw_scratch := p \<rparr>) st = writer_ok w st"
  by (simp add: writer_ok_def)

lemma run_command_sound:
  assumes "sound D" and "writer_ok w (opened, vals)" and "unat (lw_next_id w) < 2 ^ 32 - 1" and "command_ok P c"
  shows "\<exists>w' opened'. run_command D P c w = (True, w') \<and> writer_ok w' (opened', vals @ [command_value P c]) \<and>
    unat (lw_next_id w') \<le> Suc (unat (lw_next_id w))"
proof (cases c)
  case (CmdValue channel ts k)
  then have "length channel < 2 ^ 30" "small (kind_encode P k)" using assms(4) by simp_all
  from appended_sound [OF assms(1-3) this(1) kind_type_name_length this(2), of k ts] obtain i w1 w2 opened'
    where "entry_id D channel (kind_type_name k) ts w = (Some i, w1)" "write_record D (ucast i) ts (kind_encode P k) w1 = (True, w2)"
      "writer_ok w2 (opened', vals @ [(str_bytes channel, str_bytes (kind_type_name k), unat ts, kind_encode P k)])"
      "unat (lw_next_id w2) \<le> Suc (unat (lw_next_id w))" by blast
  then show ?thesis
    by (intro exI [of _ "w2\<lparr> lw_scratch := kind_encode P k \<rparr>"] exI [of _ opened']) (simp add: CmdValue log_append_def Let_def)
next
  case (CmdRaw channel ts p)
  then have "length channel < 2 ^ 30" "small p" using assms(4) by simp_all
  from appended_sound [OF assms(1-3) this(1) _ this(2), of "''raw''" ts] show ?thesis
    by (auto simp: CmdRaw append_raw_def)
qed

lemma finish_each_sound:
  assumes "sound D" and "hm_ok es" and "agrees es opened" and "log_says (lw_out w) (opened, vals)"
  shows "\<exists>w'. finish_each D ts (map (\<lambda>(_, entry). le_id entry) es) w = (True, w') \<and> log_says (lw_out w') (Map.empty, vals)"
  using assms(2-4)
proof (induction es arbitrary: opened w)
  case Nil
  then have "opened = Map.empty" by (auto simp: agrees_def fun_eq_iff not_Some_eq [symmetric])
  with Nil show ?case by simp
next
  case (Cons x es)
  obtain name e where x: "x = (name, e)" by (cases x)
  have get: "hm_get (x # es) name = Some e" and rem: "hm_remove (x # es) name = es"
    using Cons.prems(1) by (auto simp: x hm_remove_def filter_id_conv rev_image_eqI)
  have op: "opened (unat (le_id e)) = Some (entry_mark name e)" by (rule agreesD [OF Cons.prems(2) get])
  note fin = finish_record_sound [OF assms(1) Cons.prems(3) op, of ts]
  have ag: "agrees es (opened(unat (le_id e) := None))" using agrees_remove [OF Cons.prems(2) get] by (simp only: rem)
  have "hm_ok es" using Cons.prems(1) by simp
  from Cons.IH [OF this ag fin(2)]
  obtain w' where "finish_each D ts (map (\<lambda>(_, entry). le_id entry) es) (snd (finish_entry D (le_id e) ts w)) = (True, w')"
      "log_says (lw_out w') (Map.empty, vals)"
    by blast
  then show ?case using fin(1) by (simp add: x)
qed

text \<open>Publishers submit while the thread drains, in any order; the commands the queue took are kept
  beside the logger.\<close>

datatype log_event = Submitted log_command | Drained

fun logger_event :: "device \<Rightarrow> prost \<Rightarrow> log_event \<Rightarrow> log_command list \<times> wpi_logger \<Rightarrow> log_command list \<times> wpi_logger" where
  "logger_event D P (Submitted c) (taken, l) =
     (if lg_open l \<and> length (lg_queue l) < lg_capacity l then taken @ [c] else taken, submit c l)"
| "logger_event D P Drained (taken, l) = (taken, drain_one D P True l)"

fun submits :: "log_event list \<Rightarrow> nat" where
  "submits [] = 0"
| "submits (Submitted c # evs) = Suc (submits evs)"
| "submits (Drained # evs) = submits evs"

fun event_ok :: "prost \<Rightarrow> log_event \<Rightarrow> bool" where
  "event_ok P (Submitted c) = command_ok P c"
| "event_ok P Drained = True"

text \<open>Closing lets the thread drain what is queued and then finish every entry.\<close>

definition logger_close :: "device \<Rightarrow> prost \<Rightarrow> u64 \<Rightarrow> wpi_logger \<Rightarrow> wpi_logger" where
  "logger_close D P now l = drain_end D now ((drain_one D P True ^^ length (lg_queue l)) (shutdown l))"

definition logger_ok :: "prost \<Rightarrow> log_command list \<times> wpi_logger \<Rightarrow> bool" where
  "logger_ok P st = (case st of (taken, l) \<Rightarrow>
     \<not> lg_failed l \<and> list_all (command_ok P) (lg_queue l) \<and>
     (\<exists>ran opened. taken = ran @ lg_queue l \<and> writer_ok (lg_writer l) (opened, map (command_value P) ran) \<and>
        unat (lw_next_id (lg_writer l)) \<le> 1 + length ran))"

lemma drain_one_ok:
  assumes "sound D" and "logger_ok P (taken, l)" and "length taken < 2 ^ 32 - 2"
  shows "logger_ok P (taken, drain_one D P True l) \<and> lg_queue (drain_one D P True l) = tl (lg_queue l)
    \<and> lg_dropped (drain_one D P True l) = lg_dropped l \<and> lg_open (drain_one D P True l) = lg_open l"
proof (cases "lg_queue l")
  case Nil
  with assms(2) show ?thesis by (simp add: drain_one_def)
next
  case (Cons c rest)
  obtain ran opened where r: "\<not> lg_failed l" "command_ok P c" "list_all (command_ok P) rest" "taken = ran @ c # rest"
    "writer_ok (lg_writer l) (opened, map (command_value P) ran)" "unat (lw_next_id (lg_writer l)) \<le> 1 + length ran"
    using assms(2) by (auto simp: logger_ok_def Cons)
  have "unat (lw_next_id (lg_writer l)) < 2 ^ 32 - 1" using r(4,6) assms(3) by simp
  from run_command_sound [OF assms(1) r(5) this r(2)] obtain w' opened'
    where w: "run_command D P c (lg_writer l) = (True, w')" "writer_ok w' (opened', map (command_value P) (ran @ [c]))"
      "unat (lw_next_id w') \<le> 1 + length (ran @ [c])"
    using r(6) by fastforce
  then have "logger_ok P (taken, drain_one D P True l)"
    using r by (auto simp: logger_ok_def drain_one_def Cons intro!: exI [of _ "ran @ [c]"])
  then show ?thesis using w(1) r(1) by (simp add: drain_one_def Cons)
qed

lemma submit_ok:
  assumes "logger_ok P (taken, l)" and "command_ok P c"
  shows "logger_ok P (logger_event D P (Submitted c) (taken, l))"
  using assms by (auto simp: logger_ok_def submit_def)

lemma drain_all_ok:
  assumes "sound D" and "logger_ok P (taken, l)" and "length taken < 2 ^ 32 - 2"
  shows "logger_ok P (taken, (drain_one D P True ^^ n) l) \<and> lg_queue ((drain_one D P True ^^ n) l) = drop n (lg_queue l)"
proof (induction n)
  case (Suc n)
  then show ?case using drain_one_ok [OF assms(1) _ assms(3)] by (simp add: drop_Suc tl_drop)
qed (simp add: assms(2))

lemma events_ok:
  assumes "sound D" and "logger_ok P (taken, l)" and "lg_open l" and "list_all (event_ok P) evs"
    and "length taken + length evs < 2 ^ 32 - 2"
    and "fold (logger_event D P) evs (taken, l) = (taken', l')"
  shows "logger_ok P (taken', l') \<and> length taken' + lg_dropped l' = length taken + lg_dropped l + submits evs
    \<and> length taken' \<le> length taken + length evs"
  using assms(2-)
proof (induction evs arbitrary: taken l)
  case (Cons ev evs)
  obtain taken1 l1 where one: "logger_event D P ev (taken, l) = (taken1, l1)" by fastforce
  have short: "length taken < 2 ^ 32 - 2" using Cons.prems(4) by simp
  have "logger_ok P (taken1, l1) \<and> lg_open l1 \<and> length taken1 + lg_dropped l1 = length taken + lg_dropped l + submits [ev]
      \<and> length taken1 \<le> Suc (length taken)"
  proof (cases ev)
    case (Submitted c)
    have "logger_ok P (taken1, l1)" using submit_ok [OF Cons.prems(1), of c D] Cons.prems(3) one by (simp add: Submitted)
    then show ?thesis using one Cons.prems(2) by (auto simp: Submitted submit_def split: if_splits)
  next
    case Drained
    then show ?thesis using drain_one_ok [OF assms(1) Cons.prems(1) short] one Cons.prems(2) by auto
  qed
  moreover from this have "logger_ok P (taken', l') \<and> length taken' + lg_dropped l' = length taken1 + lg_dropped l1 + submits evs
      \<and> length taken' \<le> length taken1 + length evs"
    using Cons.prems(3-5) one by (intro Cons.IH) auto
  moreover have "submits (ev # evs) = submits [ev] + submits evs" by (cases ev) simp_all
  ultimately show ?case by (simp del: submits.simps)
qed simp

lemma logger_opened:
  assumes "sound D" and "logger_with_capacity D queue = Some l"
  shows "logger_ok P ([], l) \<and> lg_open l \<and> lg_dropped l = 0"
proof -
  let ?extra = "str_bytes ''{\"source\":\"tarwyn\"}''"
  let ?out = "WPILOG_MAGIC @ u16_le WPILOG_VERSION @ u32_le (of_nat (length ?extra)) @ ?extra"
  have l: "l = \<lparr> lg_open = True, lg_queue = [], lg_capacity = queue, lg_dropped = 0, lg_failed = False,
      lg_writer = \<lparr> lw_out = ?out, lw_writes = Suc (Suc (Suc (Suc 0))), lw_entries = [], lw_next_id = 1, lw_scratch = [] \<rparr> \<rparr>"
    using assms by (auto simp: sound_def logger_with_capacity_def with_extra_header_def write_all_def)
  have "read_header ?out = Some []" by code_simp
  then have "log_says ?out (Map.empty, [])" by (simp add: log_says_def read_log.simps [of "[]"])
  then have "writer_ok (lg_writer l) (Map.empty, [])" by (simp add: l writer_ok_def agrees_def numbered_to_def)
  then show ?thesis by (auto simp: logger_ok_def l intro!: exI [of _ Map.empty])
qed

text \<open>C25. The data log loses nothing silently.  However submissions and the draining thread interleave,
  on a device that does not fail the closed log reads back, record by record, as exactly the values the
  queue took, in order, each under its channel's name and type with its timestamp and bytes; every
  number was opened before use and closed at the end, and what the queue did not take was counted.\<close>

theorem wpilog_reads_back:
  assumes "sound D" and "logger_with_capacity D queue = Some l0" and "list_all (event_ok P) evs"
    and "length evs < 2 ^ 32 - 2" and "fold (logger_event D P) evs ([], l0) = (taken, l)"
  shows "log_says (lw_out (lg_writer (logger_close D P now l))) (Map.empty, map (command_value P) taken)
    \<and> length taken + lg_dropped l = submits evs"
proof -
  have ok0: "logger_ok P ([], l0)" "lg_open l0" "lg_dropped l0 = 0" using logger_opened [OF assms(1,2)] by blast+
  from events_ok [OF assms(1) ok0(1,2) assms(3) _ assms(5)] assms(4) ok0(3)
  have ok: "logger_ok P (taken, l)" "length taken + lg_dropped l = submits evs" "length taken < 2 ^ 32 - 2" by auto
  have "logger_ok P (taken, shutdown l)" using ok(1) by (simp add: logger_ok_def shutdown_def)
  moreover have "lg_queue (shutdown l) = lg_queue l" by (simp add: shutdown_def)
  ultimately obtain opened where w: "writer_ok (lg_writer ((drain_one D P True ^^ length (lg_queue l)) (shutdown l)))
      (opened, map (command_value P) taken)"
    using drain_all_ok [OF assms(1) _ ok(3), of P "shutdown l" "length (lg_queue l)"] by (auto simp: logger_ok_def)
  let ?w = "lg_writer ((drain_one D P True ^^ length (lg_queue l)) (shutdown l))"
  have "\<exists>w'. finish_each D now (map (\<lambda>(_, entry). le_id entry) (lw_entries ?w)) (?w\<lparr> lw_entries := [] \<rparr>) = (True, w')
      \<and> log_says (lw_out w') (Map.empty, map (command_value P) taken)"
    using w by (intro finish_each_sound [OF assms(1)]) (auto simp: writer_ok_def)
  then show ?thesis using ok(2) by (auto simp: logger_close_def drain_end_def finish_all_def)
qed

theorem wpilog_reads_back_witness:
  "log_says (lw_out (lg_writer (logger_close (\<lambda>_. None) null_prost 9
     (snd (fold (logger_event (\<lambda>_. None) null_prost) [Submitted (CmdValue ''/n'' 5 (KInt64 7)), Drained]
        ([], the (logger_with_capacity (\<lambda>_. None) 8)))))))
     (Map.empty, [(str_bytes ''/n'', str_bytes ''int64'', 5, u64_le 7)])"
proof -
  let ?l0 = "the (logger_with_capacity (\<lambda>_. None) 8)" and ?evs = "[Submitted (CmdValue ''/n'' 5 (KInt64 7)), Drained]"
  have l0: "logger_with_capacity (\<lambda>_. None) 8 = Some ?l0"
    by (simp add: logger_with_capacity_def with_extra_header_def write_all_def)
  then have "lg_open ?l0" "lg_queue ?l0 = []" "lg_capacity ?l0 = 8"
    by (auto simp: logger_with_capacity_def split: prod.splits bool.splits)
  then have taken: "fst (fold (logger_event (\<lambda>_. None) null_prost) ?evs ([], ?l0)) = [CmdValue ''/n'' 5 (KInt64 7)]" by simp
  obtain t l where run: "fold (logger_event (\<lambda>_. None) null_prost) ?evs ([], ?l0) = (t, l)" by fastforce
  then have t: "t = [CmdValue ''/n'' 5 (KInt64 7)]" using taken by simp
  have "list_all (event_ok null_prost) ?evs" by (simp add: small_def)
  from wpilog_reads_back [OF _ l0 this _ run, of 9] show ?thesis
    unfolding run snd_conv by (simp add: t sound_def)
qed

section \<open>A failing device\<close>

text \<open>After a failed write the thread appends nothing but the finish records of its last act, and those
  follow the torn record: a reader takes their bytes for the missing payload.  Here the payload of nine
  \<open>0xAA\<close> is not written, and the log reads as if nine other bytes had been recorded.\<close>

definition torn_device :: device where
  "torn_device n = (if n = 7 then Some 0 else None)"

definition torn_log :: bytes where
  "torn_log = lw_out (lg_writer (logger_close torn_device null_prost 5
     (submit (CmdRaw ''/b'' 5 (replicate 9 0xAA)) (the (logger_with_capacity torn_device 8)))))"

lemma torn_record_misread:
  "map_option snd (Option.bind (Option.bind (read_header torn_log) read_log) (\<lambda>rs. log_steps rs (Map.empty, [])))
   = Some [(str_bytes ''/b'', str_bytes ''raw'', 5, [0, 0, 5, 5, 1, 1, 0, 0, 0])]"
  by code_simp

end
