(* ===== verification/Pacing.thy ===== *)
theory Pacing
  imports Tarwyn_Prelude
begin

text \<open>
  Waking a reader just before its next message is due (\<^verbatim>\<open>core/src/websocket/pacing.rs\<close>).  Instants and
  durations are nanoseconds.  What the socket and the clock do is an argument: the outcome of the wait,
  of the \<open>n\<close>-th poll and the clock after it, and of the blocking read.
\<close>

definition MIN_STREAK :: u32 where "MIN_STREAK = 2"
definition MAX_GAP :: nat where "MAX_GAP = 250000000"
definition MARGIN_FRACTION :: nat where "MARGIN_FRACTION = 4"
definition DEFAULT_MARGIN :: nat where "DEFAULT_MARGIN = 200000"

record tally =
  blind :: u64
  hit :: u64
  early :: u64
  late :: u64

record predictor =
  last_at :: "nat option"
  interval :: "nat option"
  streak :: u32
  base_margin :: nat
  tallied :: tally

definition predictor_new :: "nat \<Rightarrow> predictor" where
  "predictor_new margin = \<lparr> last_at = None, interval = None, streak = 0, base_margin = margin,
     tallied = \<lparr> blind = 0, hit = 0, early = 0, late = 0 \<rparr> \<rparr>"

definition margin :: "predictor \<Rightarrow> nat" where
  "margin p = (case interval p of Some i \<Rightarrow> min (base_margin p) (i div MARGIN_FRACTION) | None \<Rightarrow> base_margin p)"

definition record_arrival :: "nat \<Rightarrow> predictor \<Rightarrow> predictor" where
  "record_arrival now p =
     (let p = (case last_at p of
                 None \<Rightarrow> p
               | Some prev \<Rightarrow>
                   let gap = now - prev;
                       in_step = (case interval p of
                                    None \<Rightarrow> gap \<le> MAX_GAP
                                  | Some i \<Rightarrow> gap \<le> MAX_GAP \<and> gap \<le> i * 4)
                   in if in_step
                      then p\<lparr> interval := Some (case interval p of None \<Rightarrow> gap | Some i \<Rightarrow> i div 4 * 3 + gap div 4),
                              streak := streak p + 1 \<rparr>
                      else p\<lparr> interval := None, streak := 0 \<rparr>)
      in p\<lparr> last_at := Some now \<rparr>)"

definition next_due :: "predictor \<Rightarrow> nat option" where
  "next_due p =
     (if base_margin p = 0 \<or> streak p < MIN_STREAK then None
      else Option.bind (last_at p) (\<lambda>prev. Option.bind (interval p) (\<lambda>i. Some (prev + i))))"

section \<open>Reads\<close>

datatype poll = WouldBlock | Failed | Got nat

record read_env =
  readable_by_wake :: "bool option"
  polled :: "nat \<Rightarrow> poll \<times> nat"
  got_at :: nat
  blocking :: "nat option"
  blocked_until :: nat

datatype spun = Lapsed | SpinFailed | SpinGot nat

text \<open>A spin polls until it gets data, fails, or the clock has passed its end; \<open>None\<close> is a spin that
  never ends.\<close>

partial_function (option) spin :: "(nat \<Rightarrow> poll \<times> nat) \<Rightarrow> nat \<Rightarrow> nat \<Rightarrow> spun option" where
  "spin polls spin_end k =
     (case polls k of
        (Got n, _) \<Rightarrow> Some (SpinGot n)
      | (Failed, _) \<Rightarrow> Some SpinFailed
      | (WouldBlock, now) \<Rightarrow> if now \<ge> spin_end then Some Lapsed else spin polls spin_end (k + 1))"

declare spin.simps [code]

definition bump_blind :: "predictor \<Rightarrow> predictor" where
  "bump_blind p = p\<lparr> tallied := (tallied p)\<lparr> blind := blind (tallied p) + 1 \<rparr> \<rparr>"

definition bump_hit :: "predictor \<Rightarrow> predictor" where
  "bump_hit p = p\<lparr> tallied := (tallied p)\<lparr> hit := hit (tallied p) + 1 \<rparr> \<rparr>"

definition bump_early :: "predictor \<Rightarrow> predictor" where
  "bump_early p = p\<lparr> tallied := (tallied p)\<lparr> early := early (tallied p) + 1 \<rparr> \<rparr>"

definition bump_late :: "predictor \<Rightarrow> predictor" where
  "bump_late p = p\<lparr> tallied := (tallied p)\<lparr> late := late (tallied p) + 1 \<rparr> \<rparr>"

definition blocking_read :: "read_env \<Rightarrow> predictor \<Rightarrow> nat option \<times> predictor" where
  "blocking_read E p =
     (case blocking E of
        None \<Rightarrow> (None, p)
      | Some n \<Rightarrow> (Some n, record_arrival (blocked_until E) p))"

definition wake_of :: "predictor \<Rightarrow> nat \<Rightarrow> nat" where
  "wake_of p due = (if margin p \<le> due then due - margin p else due)"

definition read_predicted :: "read_env \<Rightarrow> predictor \<Rightarrow> (nat option \<times> predictor) option" where
  "read_predicted E p =
     (case next_due p of
        None \<Rightarrow> Some (blocking_read E (bump_blind p))
      | Some due \<Rightarrow>
          (case readable_by_wake E of
             None \<Rightarrow> Some (None, p)
           | Some True \<Rightarrow> Some (blocking_read E (bump_early p))
           | Some False \<Rightarrow>
               map_option (\<lambda>res. case res of
                   SpinGot n \<Rightarrow> (Some n, record_arrival (got_at E) (bump_hit p))
                 | SpinFailed \<Rightarrow> (None, p)
                 | Lapsed \<Rightarrow> blocking_read E (bump_late p))
                 (spin (polled E) (due + margin p) 0)))"

definition read_paced :: "nat \<Rightarrow> (nat \<Rightarrow> poll \<times> nat) \<Rightarrow> nat \<Rightarrow> nat \<Rightarrow> read_env \<Rightarrow> predictor \<Rightarrow> (nat option \<times> predictor) option" where
  "read_paced busy_poll polls started spun_at E p =
     (if busy_poll = 0 then read_predicted E p
      else Option.bind (spin polls (started + busy_poll) 0) (\<lambda>res. case res of
          SpinGot n \<Rightarrow> Some (Some n, record_arrival spun_at p)
        | SpinFailed \<Rightarrow> Some (None, p)
        | Lapsed \<Rightarrow> read_predicted E p))"

section \<open>Spinning ends\<close>

lemma spin_ends:
  assumes "snd (polls k) \<ge> spin_end" and "j \<le> k"
  shows "\<exists>res. spin polls spin_end j = Some res"
  using assms
proof (induction "k - j" arbitrary: j)
  case 0
  then show ?case by (subst spin.simps) (auto split: prod.split poll.split)
next
  case (Suc d)
  then have "\<exists>res. spin polls spin_end (j + 1) = Some res" by (intro Suc.hyps(1)) auto
  then show ?case by (subst spin.simps) (auto split: prod.split poll.split)
qed

section \<open>The predictor\<close>

definition predictor_ok :: "predictor \<Rightarrow> bool" where
  "predictor_ok p \<longleftrightarrow> (\<forall>i. interval p = Some i \<longrightarrow> i \<le> MAX_GAP \<and> last_at p \<noteq> None) \<and>
     (streak p \<noteq> 0 \<longrightarrow> interval p \<noteq> None)"

lemma predictor_new_ok: "predictor_ok (predictor_new m)"
  by (simp add: predictor_ok_def predictor_new_def)

lemma bumps_keep [simp]:
  "predictor_ok (bump_blind p) = predictor_ok p" "predictor_ok (bump_hit p) = predictor_ok p"
  "predictor_ok (bump_early p) = predictor_ok p" "predictor_ok (bump_late p) = predictor_ok p"
  by (simp_all add: predictor_ok_def bump_blind_def bump_hit_def bump_early_def bump_late_def)

lemma averaged_gap: "i \<le> m \<Longrightarrow> g \<le> m \<Longrightarrow> i div 4 * 3 + g div 4 \<le> (m :: nat)"
  by simp

lemma record_arrival_ok: "predictor_ok p \<Longrightarrow> predictor_ok (record_arrival now p)"
  by (auto simp: predictor_ok_def record_arrival_def Let_def averaged_gap split: option.splits if_splits)

text \<open>The window the reader spins in is at most half the period, and starts no earlier than the last arrival.\<close>

lemma spin_window:
  assumes "next_due p = Some due" and "last_at p = Some prev" and "interval p = Some i"
  shows "due = prev + i" and "prev \<le> wake_of p due" and "due + margin p - wake_of p due \<le> i div 2"
proof -
  show d: "due = prev + i" using assms by (auto simp: next_due_def split: if_splits)
  have m: "margin p \<le> i div 4" using assms(3) by (simp add: margin_def MARGIN_FRACTION_def)
  then have "margin p \<le> due" using d by simp
  then show "prev \<le> wake_of p due" "due + margin p - wake_of p due \<le> i div 2"
    using m d by (simp_all add: wake_of_def)
qed

definition arrivals :: "nat \<Rightarrow> nat \<Rightarrow> nat \<Rightarrow> predictor \<Rightarrow> predictor" where
  "arrivals start period n p = fold record_arrival (map (\<lambda>k. start + k * period) [0..<n]) p"

lemma arrivals_Suc: "arrivals start period (Suc n) p = record_arrival (start + n * period) (arrivals start period n p)"
  by (simp add: arrivals_def)

definition steady :: "nat \<Rightarrow> nat" where
  "steady period = 4 * (period div 4)"

lemma periodic_arrivals:
  assumes "4 \<le> period" and "period \<le> MAX_GAP"
  shows "last_at (arrivals start period (n + 3) (predictor_new m)) = Some (start + (n + 2) * period) \<and>
    interval (arrivals start period (n + 3) (predictor_new m)) = Some (steady period) \<and>
    streak (arrivals start period (n + 3) (predictor_new m)) = of_nat (n + 2) \<and>
    base_margin (arrivals start period (n + 3) (predictor_new m)) = m"
proof (induction n)
  case 0
  have two: "[0..<3] = [0, 1, 2 :: nat]" by (simp add: upt_rec)
  have "start + 2 * period - (start + period) = period" by simp
  then show ?case using assms
    by (simp add: arrivals_def two predictor_new_def record_arrival_def Let_def steady_def)
next
  case (Suc n)
  let ?p = "arrivals start period (n + 3) (predictor_new m)"
  have gap: "start + (n + 3) * period - (start + (n + 2) * period) = period" by (simp add: algebra_simps)
  have "period \<le> steady period * 4" using assms(1) by (simp add: steady_def)
  moreover have "steady period div 4 * 3 + period div 4 = steady period" by (simp add: steady_def)
  ultimately have "record_arrival (start + (n + 3) * period) ?p =
      ?p\<lparr> interval := Some (steady period), streak := streak ?p + 1, last_at := Some (start + (n + 3) * period) \<rparr>"
    using Suc assms(2) gap by (simp add: record_arrival_def)
  moreover have "arrivals start period (Suc n + 3) (predictor_new m) = record_arrival (start + (n + 3) * period) ?p"
    using arrivals_Suc [of start period "n + 3"] by simp
  ultimately show ?case using Suc by (simp add: add_mult_distrib)
qed

text \<open>C36. A periodic stream is predicted.  After three or more arrivals a period apart (between 4 ns and
  a quarter second), the next message is expected within 3 ns before the end of the period, and the
  reader spins in a window of at most half the period that starts after the last arrival.\<close>

theorem periodic_stream_predicted:
  assumes "0 < m" and "4 \<le> period" and "period \<le> MAX_GAP" and "3 \<le> n" and "n < 2 ^ 32"
  shows "\<exists>due. next_due (arrivals start period n (predictor_new m)) = Some due
    \<and> due \<le> start + n * period \<and> start + n * period \<le> due + 3
    \<and> start + (n - 1) * period \<le> wake_of (arrivals start period n (predictor_new m)) due
    \<and> due + margin (arrivals start period n (predictor_new m)) - wake_of (arrivals start period n (predictor_new m)) due
        \<le> period div 2"
proof -
  obtain j where n: "n = j + 3" using assms(4) by (metis add.commute le_iff_add)
  let ?p = "arrivals start period n (predictor_new m)"
  have p: "last_at ?p = Some (start + (j + 2) * period)" "interval ?p = Some (steady period)"
    "streak ?p = of_nat (j + 2)" "base_margin ?p = m"
    using periodic_arrivals [OF assms(2,3), of start j m] unfolding n by blast+
  have "unat (of_nat (j + 2) :: u32) = j + 2" using assms(5) n by (intro unat_of_nat_small) simp
  then have "\<not> streak ?p < MIN_STREAK" unfolding p(3) by (simp add: word_less_nat_alt MIN_STREAK_def)
  then have due: "next_due ?p = Some (start + (j + 2) * period + steady period)"
    using assms(1) p by (simp add: next_due_def)
  note win = spin_window [OF due p(1,2)]
  have st: "steady period \<le> period" "period \<le> steady period + 3" by (simp_all add: steady_def)
  have split: "n * period = (j + 2) * period + period" "(n - 1) * period = (j + 2) * period" by (simp_all add: n algebra_simps)
  have half: "steady period div 2 \<le> period div 2" using st(1) by (rule div_le_mono)
  show ?thesis
    by (rule exI [of _ "start + (j + 2) * period + steady period"])
      (use due win(2) order_trans [OF win(3) half] st split in linarith)
qed

theorem periodic_stream_predicted_witness:
  "\<exists>due. next_due (arrivals 0 2000000 3 (predictor_new DEFAULT_MARGIN)) = Some due \<and> due \<le> 6000000 \<and> 6000000 \<le> due + 3"
  using periodic_stream_predicted [of DEFAULT_MARGIN 2000000 3 0] by (auto simp: DEFAULT_MARGIN_def MAX_GAP_def)



end
