(* ===== verification/Rtt_Connection.thy ===== *)
theory Rtt_Connection
  imports Ws_Server_Props
begin

text \<open>
  A connection before it is split, \<open>WebsocketConnection\<close> of \<^verbatim>\<open>core/src/websocket/frame.rs\<close>, and the loop that
  serves one accepted for time exchanges, \<open>serve_rtt\<close> of \<^verbatim>\<open>core/src/websocket/server.rs\<close>.
\<close>

section \<open>The connection\<close>

definition conn_write_batched :: "bytes \<Rightarrow> ws_writer \<Rightarrow> ws_writer" where
  "conn_write_batched frame w = w\<lparr> w_batch := w_batch w @ frame \<rparr>"

definition conn_flush :: "(nat \<Rightarrow> bool) \<Rightarrow> ws_writer \<Rightarrow> (frame_error, unit) result \<times> ws_writer" where
  "conn_flush sock w =
     (if w_batch w = [] then (Ok (), w)
      else and_then (sock_do sock (SendBinary (w_batch w)) Protocol (w\<lparr> w_batch := [] \<rparr>))
             (sock_do sock FlushSock FrameIo))"

definition send_pong :: "(nat \<Rightarrow> bool) \<Rightarrow> ws_writer \<Rightarrow> (frame_error, unit) result \<times> ws_writer" where
  "send_pong sock w = sock_do sock SendPong Protocol w"

text \<open>The messages the socket still yields, and what was written to it; the result is missing while the
  socket has nothing more.  A ping is answered before the next message is read.\<close>

fun conn_recv ::
  "(nat \<Rightarrow> bool) \<Rightarrow> (unit, ws_message) result list \<Rightarrow> ws_writer
   \<Rightarrow> (frame_error, payload) result option \<times> (unit, ws_message) result list \<times> ws_writer" where
  "conn_recv sock [] w = (None, [], w)"
| "conn_recv sock (Inl _ # rest) w = (Some (Err Protocol), rest, w)"
| "conn_recv sock (Inr (MBinary p) # rest) w = (Some (Ok (Binary p)), rest, w)"
| "conn_recv sock (Inr (MText t) # rest) w = (Some (Ok (PText t)), rest, w)"
| "conn_recv sock (Inr (MPing _) # rest) w =
     (case send_pong sock w of
        (Inl e, w) \<Rightarrow> (Some (Err e), rest, w)
      | (Inr _, w) \<Rightarrow> conn_recv sock rest w)"
| "conn_recv sock (Inr (MPong _) # rest) w = conn_recv sock rest w"
| "conn_recv sock (Inr MClose # rest) w = (Some (Err Closed), rest, snd (sock_do sock SendCloseNone Protocol w))"
| "conn_recv sock (Inr MFrame # rest) w = (Some (Err UnexpectedFrame), rest, w)"

lemma conn_recv_shorter: "conn_recv sock incoming w = (Some r, rest, w') \<Longrightarrow> length rest < length incoming"
proof (induction sock incoming w rule: conn_recv.induct)
  case (5 sock p rest' w)
  then show ?case by (auto split: prod.splits sum.splits)
qed force+

section \<open>Answering\<close>

text \<open>The answers to one frame, gathered in the batch: whether there is one, and the clock readings used.\<close>

fun rtt_batch :: "(nat \<Rightarrow> u64) \<Rightarrow> value_message list \<Rightarrow> bool \<Rightarrow> nat \<Rightarrow> ws_writer \<Rightarrow> bool \<times> nat \<times> ws_writer" where
  "rtt_batch now [] answered k w = (answered, k, w)"
| "rtt_batch now (m # ms) answered k w =
     (if vm_topic_id m \<noteq> RTT_TOPIC_ID then rtt_batch now ms answered k w
      else rtt_batch now ms True (k + 1) (conn_write_batched (encode_once (vm_value m) (now k) RTT_TOPIC_ID) w))"

function rtt_loop :: "(nat \<Rightarrow> bool) \<Rightarrow> (nat \<Rightarrow> u64) \<Rightarrow> nat \<Rightarrow> (unit, ws_message) result list \<Rightarrow> ws_writer \<Rightarrow> ws_writer" where
  "rtt_loop sock now k incoming w =
     (case conn_recv sock incoming w of
        (None, rest, w) \<Rightarrow> w
      | (Some (Inl _), rest, w) \<Rightarrow> w
      | (Some (Inr (PText _)), rest, w) \<Rightarrow> rtt_loop sock now k rest w
      | (Some (Inr (Binary bs)), rest, w) \<Rightarrow>
          (case vm_decode_all bs of
             Inl _ \<Rightarrow> rtt_loop sock now k rest w
           | Inr messages \<Rightarrow>
               (case rtt_batch now messages False k w of
                  (answered, k, w) \<Rightarrow>
                    if answered
                    then (case conn_flush sock w of (Inl _, w) \<Rightarrow> w | (Inr _, w) \<Rightarrow> rtt_loop sock now k rest w)
                    else rtt_loop sock now k rest w)))"
  by pat_completeness auto
termination
  by (relation "measure (\<lambda>(_, _, _, incoming, _). length incoming)") (auto dest: conn_recv_shorter [OF sym])

declare rtt_loop.simps [simp del]

section \<open>What is answered\<close>

lemma rtt_batch_result:
  "rtt_batch now ms answered k w =
     (let asked = filter (\<lambda>m. vm_topic_id m = RTT_TOPIC_ID) ms
      in (answered \<or> asked \<noteq> [], k + length asked,
          w\<lparr> w_batch := w_batch w @ concat (map (\<lambda>(j, m). encode_once (vm_value m) (now j) RTT_TOPIC_ID) (enumerate k asked)) \<rparr>))"
  by (induction now ms answered k w rule: rtt_batch.induct) (simp_all add: Let_def conn_write_batched_def)

text \<open>The answers to the frames of a connection, the clock read once for each.\<close>

fun rtt_replies :: "(nat \<Rightarrow> u64) \<Rightarrow> nat \<Rightarrow> ws_message list \<Rightarrow> bytes list" where
  "rtt_replies now k [] = []"
| "rtt_replies now k (MBinary bs # ms) =
     (case serve_rtt (\<lambda>j. now (k + j)) (Binary bs) of
        None \<Rightarrow> rtt_replies now k ms
      | Some answer \<Rightarrow>
          (if answer = [] then [] else [answer]) @ rtt_replies now
            (k + length (filter (\<lambda>m. vm_topic_id m = RTT_TOPIC_ID) (case vm_decode_all bs of Inr messages \<Rightarrow> messages | _ \<Rightarrow> []))) ms)"
| "rtt_replies now k (_ # ms) = rtt_replies now k ms"

definition frames_sent :: "ws_writer \<Rightarrow> bytes list" where
  "frames_sent w = concat (map (\<lambda>op. case op of SendBinary bs \<Rightarrow> [bs] | _ \<Rightarrow> []) (w_done w))"

lemma frames_sent_ops:
  "\<forall>n. sock n \<Longrightarrow> frames_sent (snd (send_pong sock w)) = frames_sent w"
  "\<forall>n. sock n \<Longrightarrow> w_batch (snd (send_pong sock w)) = w_batch w"
  "\<forall>n. sock n \<Longrightarrow> fst (send_pong sock w) = Ok ()"
  by (simp_all add: send_pong_def sock_do_def frames_sent_def)

lemma flush_sent:
  assumes "\<forall>n. sock n"
  shows "fst (conn_flush sock w) = Ok ()"
    "frames_sent (snd (conn_flush sock w)) = frames_sent w @ (if w_batch w = [] then [] else [w_batch w])"
    "w_batch (snd (conn_flush sock w)) = []"
  using assms by (simp_all add: conn_flush_def and_then_def sock_do_def frames_sent_def)

definition open_message :: "ws_message \<Rightarrow> bool" where
  "open_message m \<longleftrightarrow> m \<noteq> MClose \<and> m \<noteq> MFrame"

lemma enumerate_shift: "enumerate k xs = map (\<lambda>(j, x). (k + j, x)) (enumerate 0 xs)"
  by (rule nth_equalityI) (simp_all add: nth_enumerate_eq)

text \<open>Every binary frame with a time request is answered by one frame, which holds the answer to each of its
  requests in order and stamps each with its own reading of the clock; nothing else is sent but pongs.\<close>

lemma rtt_loop_answers:
  assumes up: "\<forall>n. sock n" and "\<forall>m \<in> set ms. open_message m" and "w_batch w = []"
  shows "frames_sent (rtt_loop sock now k (map Inr ms) w) = frames_sent w @ rtt_replies now k ms"
  using assms(2,3)
proof (induction ms arbitrary: k w)
  case Nil
  then show ?case by (simp add: rtt_loop.simps)
next
  case (Cons m ms)
  note IH = Cons.IH
  show ?case
  proof (cases m)
    case (MBinary bs)
    show ?thesis
    proof (cases "vm_decode_all bs")
      case (Inl e)
      then show ?thesis using Cons MBinary by (simp add: rtt_loop.simps [of _ _ _ "_ # _"] serve_rtt_def)
    next
      case (Inr messages)
      let ?asked = "filter (\<lambda>m. vm_topic_id m = RTT_TOPIC_ID) messages"
      let ?answer = "concat (map (\<lambda>(j, m). encode_once (vm_value m) (now j) RTT_TOPIC_ID) (enumerate k ?asked))"
      have shift: "?answer = concat (map (\<lambda>(j, m). encode_once (vm_value m) (now (k + j)) RTT_TOPIC_ID) (enumerate 0 ?asked))"
        by (subst enumerate_shift) (simp add: comp_def split_def)
      show ?thesis
      proof (cases "?asked = []")
        case True
        then show ?thesis using Cons MBinary Inr
          by (simp add: rtt_loop.simps [of _ _ _ "_ # _"] rtt_batch_result serve_rtt_def)
      next
        case False
        note f = flush_sent [OF up, of "w\<lparr> w_batch := ?answer \<rparr>", simplified]
        have "frames_sent (rtt_loop sock now k (map Inr (m # ms)) w)
            = frames_sent (rtt_loop sock now (k + length ?asked) (map Inr ms) (snd (conn_flush sock (w\<lparr> w_batch := ?answer \<rparr>))))"
          using Cons.prems MBinary Inr False f(1)
          by (auto simp: rtt_loop.simps [of _ _ _ "_ # _"] rtt_batch_result Let_def split: prod.splits sum.splits)
        also have "\<dots> = frames_sent w @ (if ?answer = [] then [] else [?answer]) @ rtt_replies now (k + length ?asked) ms"
          using IH [of "snd (conn_flush sock (w\<lparr> w_batch := ?answer \<rparr>))" "k + length ?asked"] Cons.prems f(2,3)
          by (simp add: frames_sent_def)
        finally show ?thesis using MBinary Inr False shift by (simp add: serve_rtt_def Let_def)
      qed
    qed
  next
    case (MPing p)
    let ?w = "snd (send_pong sock w)"
    have "rtt_loop sock now k (map Inr (m # ms)) w = rtt_loop sock now k (map Inr ms) ?w"
    proof -
      have "conn_recv sock (map Inr (m # ms)) w = conn_recv sock (map Inr ms) ?w"
        using MPing frames_sent_ops(3) [OF up, of w] by (cases "send_pong sock w") simp
      then show ?thesis
        unfolding rtt_loop.simps [of sock now k "map Inr (m # ms)" w] rtt_loop.simps [of sock now k "map Inr ms" ?w] by (simp only:)
    qed
    then show ?thesis using IH [of ?w k] Cons.prems MPing frames_sent_ops [OF up] by simp
  next
    case (MPong p)
    then have "rtt_loop sock now k (map Inr (m # ms)) w = rtt_loop sock now k (map Inr ms) w"
      by (simp add: rtt_loop.simps [of _ _ _ "_ # _"] rtt_loop.simps [of _ _ _ "map Inr ms"])
    then show ?thesis using IH [of w k] Cons.prems MPong by simp
  qed (use Cons in \<open>simp_all add: rtt_loop.simps [of _ _ _ "_ # _"] open_message_def\<close>)
qed

end
