(* ===== verification/Server_Lifecycle.thy ===== *)
theory Server_Lifecycle
  imports Telemetry_Relay
begin

text \<open>
  Starting and stopping the server, \<^verbatim>\<open>core/src/server.rs\<close> and \<^verbatim>\<open>core/src/websocket/server.rs\<close>: the flags,
  the accept loop and the two relay threads with the points at which they look at the flags, and a
  caller that starts and stops the server, interleaved in any order.  Also binding the port, and the
  settings kept in atomics.
\<close>

section \<open>Binding\<close>

definition BIND_ATTEMPTS :: nat where "BIND_ATTEMPTS = 5"

text \<open>\<open>listen n\<close>: what the \<open>n\<close>-th attempt to bind gives.\<close>

function bind_loop :: "(nat \<Rightarrow> 'e + 'l) \<Rightarrow> nat \<Rightarrow> 'e + 'l" where
  "bind_loop listen attempt =
     (case listen attempt of
        Inr listener \<Rightarrow> Inr listener
      | Inl e \<Rightarrow> if attempt \<ge> BIND_ATTEMPTS then Inl e else bind_loop listen (attempt + 1))"
  by pat_completeness auto
termination
  by (relation "measure (\<lambda>(_, attempt). BIND_ATTEMPTS - attempt)") auto

declare bind_loop.simps [simp del]

definition bind_with_handler :: "(nat \<Rightarrow> 'e + 'l) \<Rightarrow> 'e + 'l" where
  "bind_with_handler listen = bind_loop listen 1"

lemma bind_loop_result:
  assumes "attempt \<le> BIND_ATTEMPTS"
  shows "bind_loop listen attempt =
     (case find (\<lambda>n. \<exists>l. listen n = Inr l) [attempt..<BIND_ATTEMPTS + 1] of
        Some n \<Rightarrow> listen n | None \<Rightarrow> listen BIND_ATTEMPTS)"
  using assms
proof (induction listen attempt rule: bind_loop.induct)
  case (1 listen attempt)
  have tail: "[attempt..<BIND_ATTEMPTS + 1] = attempt # [attempt + 1..<BIND_ATTEMPTS + 1]"
    using "1.prems" by (simp add: upt_conv_Cons)
  show ?case
  proof (cases "listen attempt")
    case (Inl e)
    show ?thesis
    proof (cases "attempt \<ge> BIND_ATTEMPTS")
      case True
      then have "attempt = BIND_ATTEMPTS" using "1.prems" by simp
      then show ?thesis using Inl by (simp add: bind_loop.simps [of listen BIND_ATTEMPTS])
    next
      case False
      then show ?thesis using "1.IH" [OF Inl False] Inl unfolding tail
        by (simp add: bind_loop.simps [of listen attempt] del: upt_Suc)
    qed
  next
    case (Inr l)
    then show ?thesis unfolding tail by (simp add: bind_loop.simps [of listen attempt] del: upt_Suc)
  qed
qed

text \<open>Binding returns the listener of the first of five attempts that succeeds, and otherwise the error of the fifth.\<close>

lemma bind_result:
  "bind_with_handler listen =
     (case find (\<lambda>n. \<exists>l. listen n = Inr l) [1..<6] of Some n \<Rightarrow> listen n | None \<Rightarrow> listen 5)"
  using bind_loop_result [of 1 listen] unfolding bind_with_handler_def BIND_ATTEMPTS_def by simp

text \<open>The address a bound listener is reached at from its own process.\<close>

definition is_unspecified :: "bytes \<Rightarrow> bool" where
  "is_unspecified ip \<longleftrightarrow> ip = replicate 4 0 \<or> ip = replicate 16 0"

definition loopback_for :: "socket_addr \<Rightarrow> bytes" where
  "loopback_for bound =
     (if is_unspecified (addr_ip bound)
      then if length (addr_ip bound) = 4 then [127, 0, 0, 1] else replicate 15 0 @ [1]
      else addr_ip bound)"

lemma loopback_reaches:
  "length (addr_ip bound) \<in> {4, 16} \<Longrightarrow> length (loopback_for bound) = length (addr_ip bound) \<and> \<not> is_unspecified (loopback_for bound)"
  by (auto simp: loopback_for_def is_unspecified_def numeral_eq_Suc)

section \<open>Settings\<close>

text \<open>A window in nanoseconds, kept as whole microseconds in 64 bits.\<close>

definition stored_micros :: "nat \<Rightarrow> u64" where
  "stored_micros window = (if window div 1000 < 2 ^ 64 then of_nat (window div 1000) else - 1)"

definition loaded_micros :: "u64 \<Rightarrow> nat" where
  "loaded_micros micros = unat micros * 1000"

lemma window_kept:
  "window < 2 ^ 64 * 1000 \<Longrightarrow> loaded_micros (stored_micros window) = window - window mod 1000"
  "2 ^ 64 * 1000 \<le> window \<Longrightarrow> loaded_micros (stored_micros window) = (2 ^ 64 - 1) * 1000"
  by (simp_all add: loaded_micros_def stored_micros_def unat_of_nat minus_mod_eq_div_mult unsigned_minus_1_eq_mask mask_eq_exp_minus_1
      div_less_iff_less_mult mult.commute)

section \<open>The threads\<close>

datatype worker = AcceptLoop | TelemetryRelay | LogRelay

text \<open>Where a thread is: about to look at its flag, in its blocking call, for the accept loop past an
  \<open>accept\<close> and about to look again, or returned.\<close>

datatype worker_pc = AtCheck | Blocked | Woken | Exited

datatype caller_pc = Idle | Start_Flag | Start_Accept | Start_Telemetry | Start_Log
  | Stop_Flag | Stop_Wake | Stop_Persistence | Stop_Relays | Joining

record life =
  li_initialized :: bool
  li_stop :: bool
  li_ws_stop :: bool
  li_pending :: nat
  li_persistence :: bool
  li_threads :: "(worker \<times> worker_pc) list"
  li_caller :: caller_pc

definition life_new :: life where
  "life_new = \<lparr> li_initialized = False, li_stop = False, li_ws_stop = False, li_pending = 0, li_persistence = False,
     li_threads = [], li_caller = Idle \<rparr>"

definition spawn :: "worker \<Rightarrow> life \<Rightarrow> life" where
  "spawn w s = s\<lparr> li_threads := li_threads s @ [(w, AtCheck)] \<rparr>"

text \<open>The head of \<open>start\<close>: whether it goes on.\<close>

definition call_start :: "life \<Rightarrow> life" where
  "call_start s =
     (if \<not> li_initialized s then s\<lparr> li_initialized := True, li_caller := Start_Flag \<rparr>
      else if li_stop s then s\<lparr> li_stop := False, li_caller := Start_Flag \<rparr>
      else s)"

definition call_stop :: "life \<Rightarrow> life" where
  "call_stop s = s\<lparr> li_stop := True, li_caller := Stop_Flag \<rparr>"

text \<open>One step of a call that is under way.  The wake connects to the listener; \<open>wakes\<close> is whether that
  succeeds.  The joins go on when every thread has returned.\<close>

definition caller_step :: "bool \<Rightarrow> life \<Rightarrow> life option" where
  "caller_step wakes s =
     (case li_caller s of
        Idle \<Rightarrow> None
      | Start_Flag \<Rightarrow> Some (s\<lparr> li_ws_stop := False, li_caller := Start_Accept \<rparr>)
      | Start_Accept \<Rightarrow> Some (spawn AcceptLoop (s\<lparr> li_persistence := True, li_caller := Start_Telemetry \<rparr>))
      | Start_Telemetry \<Rightarrow> Some (spawn TelemetryRelay (s\<lparr> li_caller := Start_Log \<rparr>))
      | Start_Log \<Rightarrow> Some (spawn LogRelay (s\<lparr> li_caller := Idle \<rparr>))
      | Stop_Flag \<Rightarrow> Some (s\<lparr> li_ws_stop := True, li_caller := Stop_Wake \<rparr>)
      | Stop_Wake \<Rightarrow> Some (s\<lparr> li_pending := li_pending s + (if wakes then 1 else 0), li_caller := Stop_Persistence \<rparr>)
      | Stop_Persistence \<Rightarrow> Some (s\<lparr> li_persistence := False, li_caller := Stop_Relays \<rparr>)
      | Stop_Relays \<Rightarrow> Some (s\<lparr> li_caller := Joining \<rparr>)
      | Joining \<Rightarrow>
          if list_all (\<lambda>(_, pc). pc = Exited) (li_threads s) then Some (s\<lparr> li_threads := [], li_caller := Idle \<rparr>) else None)"

definition stop_seen :: "worker \<Rightarrow> life \<Rightarrow> bool" where
  "stop_seen w s = (if w = AcceptLoop then li_ws_stop s else li_stop s)"

text \<open>One step of a thread.  A blocked \<open>accept\<close> goes on when a connection waits or it fails; the relays'
  calls have a timeout.\<close>

definition worker_step :: "bool \<Rightarrow> nat \<Rightarrow> life \<Rightarrow> life option" where
  "worker_step fails i s =
     (if i \<ge> length (li_threads s) then None
      else let (w, pc) = li_threads s ! i;
               goes = (\<lambda>pc s. Some (s\<lparr> li_threads := (li_threads s)[i := (w, pc)] \<rparr>))
           in case pc of
                AtCheck \<Rightarrow> goes (if stop_seen w s then Exited else Blocked) s
              | Blocked \<Rightarrow>
                  if w \<noteq> AcceptLoop \<or> fails then goes AtCheck s
                  else if li_pending s = 0 then None
                  else goes Woken (s\<lparr> li_pending := li_pending s - 1 \<rparr>)
              | Woken \<Rightarrow> goes (if li_ws_stop s then Exited else AtCheck) s
              | Exited \<Rightarrow> None)"

datatype life_event = StartCalled | StopCalled | CallerGoes | WorkerGoes bool nat | PeerConnects

definition life_do :: "bool \<Rightarrow> life_event \<Rightarrow> life \<Rightarrow> life option" where
  "life_do wakes e s =
     (case e of
        StartCalled \<Rightarrow> if li_caller s = Idle then Some (call_start s) else None
      | StopCalled \<Rightarrow> if li_caller s = Idle then Some (call_stop s) else None
      | CallerGoes \<Rightarrow> caller_step wakes s
      | WorkerGoes fails i \<Rightarrow> worker_step fails i s
      | PeerConnects \<Rightarrow> Some (s\<lparr> li_pending := li_pending s + 1 \<rparr>))"

fun life_run :: "bool \<Rightarrow> life_event list \<Rightarrow> life \<Rightarrow> life option" where
  "life_run wakes [] s = Some s"
| "life_run wakes (e # es) s = Option.bind (life_do wakes e s) (life_run wakes es)"

lemma life_run_append: "life_run wakes (es @ es') s = Option.bind (life_run wakes es s) (life_run wakes es')"
proof (induction es arbitrary: s)
  case (Cons e es)
  then show ?case by (cases "life_do wakes e s") simp_all
qed simp

section \<open>Started once, stopped together\<close>

abbreviation all_workers :: "worker list" where
  "all_workers \<equiv> [AcceptLoop, TelemetryRelay, LogRelay]"

definition accept_wakes :: "life \<Rightarrow> bool" where
  "accept_wakes s \<longleftrightarrow> (AcceptLoop, Blocked) \<in> set (li_threads s) \<longrightarrow> li_pending s > 0"

definition all_live :: "life \<Rightarrow> bool" where
  "all_live s \<longleftrightarrow> (\<forall>(w, pc) \<in> set (li_threads s). pc \<noteq> Exited)"

definition life_ok :: "bool \<Rightarrow> life \<Rightarrow> bool" where
  "life_ok wakes s \<longleftrightarrow>
     (let ws = map fst (li_threads s);
          settled = (if li_stop s then li_ws_stop s \<and> ws = [] \<and> \<not> li_persistence s
                     else \<not> li_ws_stop s \<and> ws = all_workers \<and> all_live s \<and> li_persistence s);
          stopping = li_stop s \<and> (ws = [] \<or> ws = all_workers);
          starting = \<not> li_stop s \<and> \<not> li_ws_stop s \<and> all_live s
      in li_initialized s \<and>
         (case li_caller s of
            Idle \<Rightarrow> settled
          | Start_Flag \<Rightarrow> \<not> li_stop s \<and> ws = [] \<and> \<not> li_persistence s
          | Start_Accept \<Rightarrow> starting \<and> ws = [] \<and> \<not> li_persistence s
          | Start_Telemetry \<Rightarrow> starting \<and> ws = [AcceptLoop] \<and> li_persistence s
          | Start_Log \<Rightarrow> starting \<and> ws = [AcceptLoop, TelemetryRelay] \<and> li_persistence s
          | Stop_Flag \<Rightarrow> stopping
          | Stop_Wake \<Rightarrow> stopping \<and> li_ws_stop s
          | Stop_Persistence \<Rightarrow> stopping \<and> li_ws_stop s \<and> (wakes \<longrightarrow> accept_wakes s)
          | Stop_Relays \<Rightarrow> stopping \<and> li_ws_stop s \<and> \<not> li_persistence s \<and> (wakes \<longrightarrow> accept_wakes s)
          | Joining \<Rightarrow> stopping \<and> li_ws_stop s \<and> \<not> li_persistence s \<and> (wakes \<longrightarrow> accept_wakes s)))"

lemma life_ok_first: "life_ok wakes (call_start life_new)"
  by (simp add: life_ok_def call_start_def life_new_def)

lemma caller_step_ok: "life_ok wakes s \<Longrightarrow> caller_step wakes s = Some s' \<Longrightarrow> life_ok wakes s'"
  by (cases "li_caller s") (auto simp: life_ok_def caller_step_def spawn_def all_live_def accept_wakes_def Let_def split: if_splits)

lemma calls_ok: "life_ok wakes s \<Longrightarrow> li_caller s = Idle \<Longrightarrow> life_ok wakes (call_start s) \<and> life_ok wakes (call_stop s)"
  by (auto simp: life_ok_def call_start_def call_stop_def Let_def split: if_splits)

text \<open>What a thread's step leaves of the rest.\<close>

lemma worker_step_frame:
  assumes "worker_step fails i s = Some s'"
  obtains w pc pc' where "li_threads s ! i = (w, pc)" "i < length (li_threads s)" "pc \<noteq> Exited"
    and "li_threads s' = (li_threads s)[i := (w, pc')]" "map fst (li_threads s') = map fst (li_threads s)"
    and "li_stop s' = li_stop s" "li_ws_stop s' = li_ws_stop s" "li_initialized s' = li_initialized s"
      "li_persistence s' = li_persistence s" "li_caller s' = li_caller s"
    and "pc' = Exited \<longleftrightarrow> pc \<in> {AtCheck, Woken} \<and> (if pc = Woken then li_ws_stop s else stop_seen w s)"
    and "pc' = Blocked \<longrightarrow> \<not> stop_seen w s" "li_pending s' \<noteq> li_pending s \<longrightarrow> w = AcceptLoop \<and> pc = Blocked"
proof -
  obtain w pc where t: "li_threads s ! i = (w, pc)" by fastforce
  have i: "i < length (li_threads s)" using assms by (auto simp: worker_step_def split: if_splits)
  have "map fst ((li_threads s)[i := (w, pc')]) = map fst (li_threads s)" for pc'
    using t i by (simp add: map_update list_update_id [of "map fst (li_threads s)" i, simplified] nth_map)
      (metis fst_conv list_update_id map_update nth_map)
  then show thesis
    using assms t i by (cases pc) (auto simp: worker_step_def Let_def split: if_splits intro!: that)
qed

lemma worker_step_live:
  assumes "worker_step fails i s = Some s'" and "all_live s" and "\<not> li_stop s" "\<not> li_ws_stop s"
  shows "all_live s'"
  using assms(1)
proof (rule worker_step_frame)
  fix w pc pc'
  assume f: "li_threads s' = (li_threads s)[i := (w, pc')]"
    and e: "pc' = Exited \<longleftrightarrow> pc \<in> {AtCheck, Woken} \<and> (if pc = Woken then li_ws_stop s else stop_seen w s)"
  have "pc' \<noteq> Exited" using assms(3,4) e by (auto simp: stop_seen_def split: if_splits)
  then show "all_live s'" using assms(2) f by (auto simp: all_live_def dest!: set_update_subset_insert [THEN subsetD])
qed

lemma accept_wakes_others:
  assumes "map fst (li_threads s) \<in> {[], all_workers}" and "worker_step fails i s = Some s'" and "accept_wakes s" and "li_ws_stop s"
  shows "accept_wakes s'"
  using assms(2)
proof (rule worker_step_frame)
  fix w pc pc'
  assume f: "li_threads s' = (li_threads s)[i := (w, pc')]" and t: "li_threads s ! i = (w, pc)" "i < length (li_threads s)"
    and b: "pc' = Blocked \<longrightarrow> \<not> stop_seen w s" and p: "li_pending s' \<noteq> li_pending s \<longrightarrow> w = AcceptLoop \<and> pc = Blocked"
  have d: "distinct (map fst (li_threads s))" using assms(1) by auto
  show "accept_wakes s'"
  proof (cases "w = AcceptLoop")
    case True
    then have "pc' \<noteq> Blocked" using b assms(4) by (auto simp: stop_seen_def)
    moreover have "(AcceptLoop, Blocked) \<in> set ((li_threads s)[i := (w, pc')]) \<Longrightarrow> pc' = Blocked"
    proof -
      assume "(AcceptLoop, Blocked) \<in> set ((li_threads s)[i := (w, pc')])"
      then obtain j where j: "j < length (li_threads s)" "(li_threads s)[i := (w, pc')] ! j = (AcceptLoop, Blocked)"
        by (auto simp: in_set_conv_nth)
      have "j = i"
      proof (rule ccontr)
        assume "j \<noteq> i"
        with j have "li_threads s ! j = (AcceptLoop, Blocked)" by simp
        then have "map fst (li_threads s) ! j = map fst (li_threads s) ! i" using j(1) t True by simp
        with nth_eq_iff_index_eq [OF d, of j i] j(1) t(2) \<open>j \<noteq> i\<close> show False by simp
      qed
      with j show "pc' = Blocked" by simp
    qed
    ultimately show ?thesis by (auto simp: accept_wakes_def f)
  next
    case False
    then have "li_pending s' = li_pending s" using p by auto
    then show ?thesis using assms(3) False by (auto simp: accept_wakes_def f dest!: set_update_subset_insert [THEN subsetD])
  qed
qed

lemma worker_step_ok: "life_ok wakes s \<Longrightarrow> worker_step fails i s = Some s' \<Longrightarrow> life_ok wakes s'"
proof -
  assume ok: "life_ok wakes s" and step: "worker_step fails i s = Some s'"
  note live = worker_step_live [OF step] and wake = accept_wakes_others [OF _ step]
  show "life_ok wakes s'"
    using step
    by (rule worker_step_frame)
      (insert ok live wake, cases "li_caller s"; auto simp: life_ok_def Let_def split: if_splits)
qed

lemma life_do_ok: "life_ok wakes s \<Longrightarrow> life_do wakes e s = Some s' \<Longrightarrow> life_ok wakes s'"
  by (cases e)
    (auto simp: life_do_def calls_ok split: if_splits intro: caller_step_ok worker_step_ok,
     auto simp: life_ok_def all_live_def accept_wakes_def Let_def split: caller_pc.splits)

lemma life_run_ok: "life_ok wakes s \<Longrightarrow> life_run wakes es s = Some s' \<Longrightarrow> life_ok wakes s'"
  by (induction es arbitrary: s) (auto simp: bind_eq_Some_conv dest: life_do_ok)

text \<open>C16. A server whose first call is \<open>start\<close>.  Whatever is called on it afterwards, and however its threads
  run: between two calls, a started server has one accept loop and one of each relay, none of which has
  returned, and the saver; a stopped one has none of them left.\<close>

theorem serving_threads_once:
  assumes "life_run wakes es (call_start life_new) = Some s" and "li_caller s = Idle"
  shows "if li_stop s then li_threads s = [] \<and> \<not> li_persistence s \<and> li_ws_stop s
         else map fst (li_threads s) = [AcceptLoop, TelemetryRelay, LogRelay] \<and> li_persistence s
              \<and> (\<forall>t \<in> set (li_threads s). snd t \<noteq> Exited)"
  using life_run_ok [OF life_ok_first assms(1)] assms(2)
  by (auto simp: life_ok_def all_live_def Let_def)

theorem serving_threads_once_witness:
  "\<exists>s. life_run True (replicate 4 CallerGoes) (call_start life_new) = Some s
     \<and> map fst (li_threads s) = [AcceptLoop, TelemetryRelay, LogRelay]"
proof -
  obtain s where s: "life_run True (replicate 4 CallerGoes) (call_start life_new) = Some s" "li_caller s = Idle" "\<not> li_stop s"
    by (auto simp: numeral_eq_Suc life_do_def caller_step_def spawn_def call_start_def life_new_def)
  then show ?thesis using serving_threads_once [OF s(1,2)] by auto
qed

section \<open>Stopping returns\<close>

primrec pc_left :: "worker_pc \<Rightarrow> nat" where
  "pc_left Exited = 0"
| "pc_left AtCheck = 1"
| "pc_left Woken = 1"
| "pc_left Blocked = 2"

definition life_left :: "life \<Rightarrow> nat" where
  "life_left s = sum_list (map (\<lambda>(_, pc). pc_left pc) (li_threads s))"

lemma sum_list_update_less:
  fixes f :: "'a \<Rightarrow> nat"
  assumes "i < length xs" and "f y < f (xs ! i)"
  shows "sum_list (map f (xs[i := y])) < sum_list (map f xs)"
  using assms by (induction xs arbitrary: i) (auto split: nat.split)

lemma worker_step_left:
  assumes "worker_step fails i s = Some s'" and "li_stop s" "li_ws_stop s"
  shows "life_left s' < life_left s"
proof -
  obtain w pc where t: "li_threads s ! i = (w, pc)" by fastforce
  have i: "i < length (li_threads s)" using assms(1) by (auto simp: worker_step_def split: if_splits)
  obtain pc' where pc': "li_threads s' = (li_threads s)[i := (w, pc')]" "pc_left pc' < pc_left pc"
    using assms t i by (cases pc) (auto simp: worker_step_def stop_seen_def Let_def split: if_splits)
  then show ?thesis using sum_list_update_less [OF i, of "\<lambda>(_, pc). pc_left pc" "(w, pc')"] t by (simp add: life_left_def)
qed

lemma pc_left_bound: "pc_left pc \<le> 2"
  by (cases pc) simp_all

lemma life_left_bound: "life_left s \<le> 2 * length (li_threads s)"
proof -
  have "sum_list (map (\<lambda>(_, pc). pc_left pc) ts) \<le> 2 * length ts" for ts :: "(worker \<times> worker_pc) list"
    by (induction ts) (auto intro: add_mono [OF pc_left_bound, simplified])
  then show ?thesis by (simp add: life_left_def)
qed

lemma worker_can_step:
  assumes "i < length (li_threads s)" and "snd (li_threads s ! i) \<noteq> Exited" and "accept_wakes s"
  shows "\<exists>s'. worker_step False i s = Some s'"
proof -
  obtain w pc where t: "li_threads s ! i = (w, pc)" by fastforce
  then have "(w, pc) \<in> set (li_threads s)" using assms(1) nth_mem by metis
  then show ?thesis using assms t by (cases pc) (auto simp: worker_step_def accept_wakes_def Let_def)
qed

text \<open>C17. Stopping ends.  Once \<open>stop\<close> waits for its threads, and the connection it wakes the accept loop with
  gets through: no order of the threads' steps is longer than six, and as long as a thread has not
  returned one of them can take a step; when all have, the call returns, the server stopped.  (The
  server's first call was \<open>start\<close>.)\<close>

theorem stop_returns:
  assumes "life_run True es (call_start life_new) = Some s" and "li_caller s = Joining"
  shows "(\<forall>moves s'. life_run True (map (\<lambda>(fails, i). WorkerGoes fails i) moves) s = Some s' \<longrightarrow>
            length moves \<le> 6 \<and> li_caller s' = Joining
            \<and> (if \<forall>t \<in> set (li_threads s'). snd t = Exited
               then life_do True CallerGoes s' = Some (s'\<lparr> li_threads := [], li_caller := Idle \<rparr>) \<and> li_stop s'
               else \<exists>i s''. life_do True (WorkerGoes False i) s' = Some s''))"
proof (intro allI impI)
  fix moves s'
  let ?go = "map (\<lambda>(fails, i). WorkerGoes fails i)"
  assume run: "life_run True (?go moves) s = Some s'"
  have ok: "life_ok True s" using life_run_ok [OF life_ok_first assms(1)] .
  then have len: "length (li_threads s) \<le> 3" and stop: "li_stop s" "li_ws_stop s"
    using assms(2) by (auto simp: life_ok_def Let_def dest: arg_cong [where f = length])
  have left: "life_left s' + length moves \<le> life_left s \<and> li_caller s' = li_caller s \<and> li_stop s' \<and> li_ws_stop s'"
    using run stop
  proof (induction moves arbitrary: s)
    case (Cons m moves)
    obtain fails i where m: "m = (fails, i)" by fastforce
    then obtain s1 where s1: "worker_step fails i s = Some s1" "life_run True (?go moves) s1 = Some s'"
      using Cons.prems(1) by (auto simp: life_do_def bind_eq_Some_conv)
    have f: "li_stop s1" "li_ws_stop s1" "li_caller s1 = li_caller s"
      using s1(1) Cons.prems(2,3) by (auto elim: worker_step_frame)
    show ?case using Cons.IH [OF s1(2) f(1,2)] worker_step_left [OF s1(1)] Cons.prems(2,3) f(3) by simp
  qed simp
  have ok': "life_ok True s'" using life_run_ok [OF ok run] .
  have "accept_wakes s'" using ok' left assms(2) by (auto simp: life_ok_def Let_def)
  then have "\<exists>i s''. life_do True (WorkerGoes False i) s' = Some s''" if "\<not> (\<forall>t \<in> set (li_threads s'). snd t = Exited)"
  proof -
    from that obtain i where "i < length (li_threads s')" "snd (li_threads s' ! i) \<noteq> Exited" by (auto simp: in_set_conv_nth)
    then show ?thesis using worker_can_step \<open>accept_wakes s'\<close> unfolding life_do_def by fastforce
  qed
  then show "length moves \<le> 6 \<and> li_caller s' = Joining
      \<and> (if \<forall>t \<in> set (li_threads s'). snd t = Exited
         then life_do True CallerGoes s' = Some (s'\<lparr> li_threads := [], li_caller := Idle \<rparr>) \<and> li_stop s'
         else \<exists>i s''. life_do True (WorkerGoes False i) s' = Some s'')"
    using left life_left_bound [of s] len assms(2)
    by (simp add: life_do_def caller_step_def list_all_iff case_prod_beta)
qed

lemmas life_steps = life_do_def caller_step_def spawn_def call_start_def call_stop_def life_new_def worker_step_def stop_seen_def

definition start_then_stop :: "life_event list" where
  "start_then_stop = [CallerGoes, CallerGoes, CallerGoes, CallerGoes, WorkerGoes False 0, StopCalled,
     CallerGoes, CallerGoes, CallerGoes, CallerGoes]"

theorem stop_returns_witness:
  "\<exists>s s'. life_run True start_then_stop (call_start life_new) = Some s \<and> li_threads s = [(AcceptLoop, Blocked), (TelemetryRelay, AtCheck), (LogRelay, AtCheck)]
     \<and> life_run True [WorkerGoes False 1, WorkerGoes False 0, WorkerGoes False 2, WorkerGoes False 0] s = Some s'
     \<and> life_do True CallerGoes s' = Some (s'\<lparr> li_threads := [], li_caller := Idle \<rparr>)"
proof -
  let ?moves = "[(False, 1), (False, 0), (False, 2), (False, 0)]"
  obtain s where s: "life_run True start_then_stop (call_start life_new) = Some s" "li_caller s = Joining"
    "li_threads s = [(AcceptLoop, Blocked), (TelemetryRelay, AtCheck), (LogRelay, AtCheck)]" "li_stop s" "li_ws_stop s" "li_pending s = 1"
    by (simp add: start_then_stop_def life_steps)
  obtain s' where s': "life_run True (map (\<lambda>(fails, i). WorkerGoes fails i) ?moves) s = Some s'"
    "\<forall>t \<in> set (li_threads s'). snd t = Exited"
    by (simp add: life_do_def worker_step_def stop_seen_def s(3-6) Let_def)
  have "life_do True CallerGoes s' = Some (s'\<lparr> li_threads := [], li_caller := Idle \<rparr>)"
    using stop_returns [OF s(1,2), THEN spec, THEN spec, THEN mp, OF s'(1)] s'(2) by (simp only: if_True)
  then show ?thesis using s(1,3) s'(1) by auto
qed

section \<open>Stopped before it was started\<close>

text \<open>\<open>stop\<close> sets the flag that only a second \<open>start\<close> clears.  Called on a server that was never started, it
  leaves the first \<open>start\<close> with relays that return at once, beside an accept loop that serves.\<close>

definition stopped_first :: "life_event list" where
  "stopped_first = [StopCalled, CallerGoes, CallerGoes, CallerGoes, CallerGoes, CallerGoes,
     StartCalled, CallerGoes, CallerGoes, CallerGoes, CallerGoes, WorkerGoes False 1, WorkerGoes False 2, WorkerGoes False 0]"

definition relays_gone :: life where
  "relays_gone = \<lparr> li_initialized = True, li_stop = True, li_ws_stop = False, li_pending = 1, li_persistence = True,
     li_threads = [(AcceptLoop, Blocked), (TelemetryRelay, Exited), (LogRelay, Exited)], li_caller = Idle \<rparr>"

lemma stopped_first_relays_gone: "life_run True stopped_first life_new = Some relays_gone"
  by (simp add: stopped_first_def life_steps relays_gone_def)

text \<open>A second \<open>start\<close>, which finds the flag set, runs a second accept loop beside the first, and the one
  connection \<open>stop\<close> wakes them with ends only one of them: the call waits until somebody connects.\<close>

definition started_twice :: "life_event list" where
  "started_twice = [StartCalled, CallerGoes, CallerGoes, CallerGoes, CallerGoes,
     WorkerGoes False 0, WorkerGoes False 0, WorkerGoes False 0, WorkerGoes False 3,
     StopCalled, CallerGoes, CallerGoes, CallerGoes, CallerGoes,
     WorkerGoes False 0, WorkerGoes False 0, WorkerGoes False 4, WorkerGoes False 5]"

lemma second_accept_loop_hangs_stop:
  "\<exists>s. life_run True (stopped_first @ started_twice) life_new = Some s \<and> li_caller s = Joining
     \<and> (AcceptLoop, Blocked) \<in> set (li_threads s) \<and> life_do True CallerGoes s = None
     \<and> (\<forall>i. life_do True (WorkerGoes False i) s = None)"
proof -
  have "\<exists>s. life_run True started_twice relays_gone = Some s \<and> li_caller s = Joining
      \<and> li_threads s = [(AcceptLoop, Exited), (TelemetryRelay, Exited), (LogRelay, Exited), (AcceptLoop, Blocked), (TelemetryRelay, Exited), (LogRelay, Exited)]
      \<and> li_pending s = 0"
    by (simp add: started_twice_def relays_gone_def life_steps)
  then obtain s where s: "life_run True started_twice relays_gone = Some s" "li_caller s = Joining" "li_pending s = 0"
    "li_threads s = [(AcceptLoop, Exited), (TelemetryRelay, Exited), (LogRelay, Exited), (AcceptLoop, Blocked), (TelemetryRelay, Exited), (LogRelay, Exited)]"
    by blast
  have "worker_step False i s = None" for i
    by (cases "i < 6") (auto simp: worker_step_def s less_Suc_eq numeral_eq_Suc Let_def)
  then show ?thesis
    using s by (auto simp: life_run_append stopped_first_relays_gone life_do_def caller_step_def)
qed

end
