(* ===== verification/Client.thy ===== *)
theory Client
  imports Control_Plane Wpilog
begin

text \<open>
  The client crate (\<^verbatim>\<open>client/src\<close>): what it keeps, how it publishes, asks and subscribes
  (\<^verbatim>\<open>client.rs\<close>, \<^verbatim>\<open>typed.rs\<close>), the frames it writes or queues (\<^verbatim>\<open>connection.rs\<close>), and what its
  reader does with a new connection and with the frames that arrive (\<^verbatim>\<open>reader.rs\<close>).  A callback is a
  number; what it was run on is kept.  Sends that fail, the clock, prost and the JSON text are
  arguments.
\<close>

definition CLIENT_SUBPROTOCOL :: string where "CLIENT_SUBPROTOCOL = ''v4.1.networktables.first.wpi.edu''"
definition TABLE_PATH :: string where "TABLE_PATH = ''/nt/test''"
definition SERVER_TIME :: u64 where "SERVER_TIME = 0"

record client_codec =
  cc_prost :: prost
  request_encode :: "request \<Rightarrow> bytes"
  reply_decode :: "bytes \<Rightarrow> reply option"
  double_list_decode :: "bytes \<Rightarrow> f64 list option"
  string_list_decode :: "bytes \<Rightarrow> string list option"
  float_list_decode :: "bytes \<Rightarrow> f32 list option"
  integer_list_decode :: "bytes \<Rightarrow> u32 list option"
  long_list_decode :: "bytes \<Rightarrow> u64 list option"
  bool_list_decode :: "bytes \<Rightarrow> bool list option"
  bezier_curve_decode :: "bytes \<Rightarrow> bezier_curve option"
  bezier_curves_list_decode :: "bytes \<Rightarrow> bezier_curves list option"
  cc_print :: "json \<Rightarrow> string"
  cc_parse :: "string \<Rightarrow> json option"

record known_topic =
  kt_name :: string
  kt_data_type :: u32

record client =
  c_data_listeners :: "(string, nat list) hm"
  c_log_listeners :: "nat list"
  c_next_key :: nat
  c_outbound :: "bytes list"
  c_high_water :: nat
  c_writer :: bool
  c_wire :: "bytes list"
  c_pongs :: "bytes list"
  c_sends :: nat
  c_pending :: "u64 option"
  c_reply :: "bytes option"
  c_topic_names :: "(u32, known_topic) hm"
  c_pubuids :: "(string, u32) hm"
  c_session :: "(string, bytes) hm"
  c_next_pubuid :: u32
  c_next_subuid :: u32
  c_next_request :: u64
  c_dropped :: nat
  c_stop :: bool
  c_initialized :: bool
  c_reading :: bool
  c_logger :: "wpi_logger option"
  c_heard :: "(nat \<times> nt_value) list"
  c_logged :: "(nat \<times> string) list"

definition client_new :: "int \<Rightarrow> client" where
  "client_new high_water = \<lparr> c_data_listeners = [], c_log_listeners = [], c_next_key = 0, c_outbound = [],
     c_high_water = nat (max high_water 1), c_writer = False, c_wire = [], c_pongs = [], c_sends = 0, c_pending = None, c_reply = None,
     c_topic_names = [], c_pubuids = [], c_session = [], c_next_pubuid = 0, c_next_subuid = 0, c_next_request = 0,
     c_dropped = 0, c_stop = False, c_initialized = False, c_reading = False, c_logger = None, c_heard = [], c_logged = [] \<rparr>"

definition url_host :: "string \<Rightarrow> string" where
  "url_host host = (if CHR '':'' \<in> set host \<and> \<not> starts_with host ''['' then ''['' @ host @ '']'' else host)"

section \<open>Frames out\<close>

text \<open>\<open>ensure_reader\<close> starts the reader with a fresh queue; without a reader nothing takes the frames.\<close>

definition ensure_reader :: "client \<Rightarrow> client" where
  "ensure_reader c = (if c_stop c \<or> c_reading c then c else c\<lparr> c_reading := True, c_outbound := [] \<rparr>)"

definition write_frame :: "(nat \<Rightarrow> bool) \<Rightarrow> bytes \<Rightarrow> client \<Rightarrow> bytes option \<times> client" where
  "write_frame sock frame c =
     (if \<not> c_writer c then (Some frame, c)
      else if sock (c_sends c) then (None, c\<lparr> c_wire := c_wire c @ [frame], c_sends := c_sends c + 1 \<rparr>)
      else (None, c\<lparr> c_writer := False, c_sends := c_sends c + 1 \<rparr>))"

definition try_send :: "bytes \<Rightarrow> client \<Rightarrow> bool \<times> client" where
  "try_send frame c =
     (if c_reading c \<and> length (c_outbound c) < c_high_water c
      then (True, c\<lparr> c_outbound := c_outbound c @ [frame] \<rparr>) else (False, c))"

definition dispatch_frame :: "(nat \<Rightarrow> bool) \<Rightarrow> bytes \<Rightarrow> client \<Rightarrow> bool \<times> client" where
  "dispatch_frame sock frame c =
     (case write_frame sock frame c of
        (None, c) \<Rightarrow> (True, c)
      | (Some frame, c) \<Rightarrow> try_send frame c)"

definition client_drop :: "client \<Rightarrow> client" where
  "client_drop c = c\<lparr> c_dropped := c_dropped c + 1 \<rparr>"

definition client_dropped_publishes :: "client \<Rightarrow> nat" where
  "client_dropped_publishes c = c_dropped c"

definition remember :: "string \<Rightarrow> bytes \<Rightarrow> client \<Rightarrow> client" where
  "remember key frame c = c\<lparr> c_session := hm_insert (c_session c) key frame \<rparr>"

section \<open>Publishing\<close>

definition publish_key :: "string \<Rightarrow> string" where
  "publish_key channel = ''publish:'' @ channel"

definition publish_frame :: "client_codec \<Rightarrow> string \<Rightarrow> u32 \<Rightarrow> string \<Rightarrow> jmap \<Rightarrow> bytes" where
  "publish_frame K channel pubuid data_type properties =
     str_bytes (to_json (cc_print K) (Publish channel pubuid data_type properties))"

definition declared_or_own :: "string option \<Rightarrow> nt_value \<Rightarrow> string" where
  "declared_or_own declared_type v =
     (case declared_type of
        Some name \<Rightarrow> name
      | None \<Rightarrow> (case type_string (xt_data_type v) of Some name \<Rightarrow> name | None \<Rightarrow> ''bin''))"

definition ensure_pubuid_typed ::
  "client_codec \<Rightarrow> (nat \<Rightarrow> bool) \<Rightarrow> string \<Rightarrow> nt_value \<Rightarrow> string option \<Rightarrow> jmap \<Rightarrow> client \<Rightarrow> u32 \<times> client" where
  "ensure_pubuid_typed K sock channel v declared_type properties c =
     (case hm_get (c_pubuids c) channel of
        Some pubuid \<Rightarrow> (pubuid, c)
      | None \<Rightarrow>
          let pubuid = c_next_pubuid c;
              c = c\<lparr> c_next_pubuid := pubuid + 1, c_pubuids := hm_insert (c_pubuids c) channel pubuid \<rparr>;
              frame = publish_frame K channel pubuid (declared_or_own declared_type v) properties;
              c = remember (publish_key channel) frame c
          in (pubuid, snd (dispatch_frame sock frame c)))"

definition record_value :: "client_codec \<Rightarrow> u64 \<Rightarrow> string \<Rightarrow> nt_value \<Rightarrow> client \<Rightarrow> client" where
  "record_value K now channel v c =
     c\<lparr> c_logger := map_option (submit (CmdValue channel now (kind_of_value (cc_prost K) v))) (c_logger c) \<rparr>"

definition send_message :: "client_codec \<Rightarrow> (nat \<Rightarrow> bool) \<Rightarrow> u64 \<Rightarrow> string \<Rightarrow> nt_value \<Rightarrow> client \<Rightarrow> client" where
  "send_message K sock now channel v c =
     (let c = ensure_reader (record_value K now channel v c);
          (pubuid, c) = ensure_pubuid_typed K sock channel v None [] c;
          (sent, c) = dispatch_frame sock (encode_once v SERVER_TIME pubuid) c
      in if sent then c else client_drop c)"

definition publish_typed ::
  "client_codec \<Rightarrow> (nat \<Rightarrow> bool) \<Rightarrow> string \<Rightarrow> kind \<Rightarrow> string option \<Rightarrow> jmap \<Rightarrow> client \<Rightarrow> bytes \<times> client" where
  "publish_typed K sock channel k declared_type properties c =
     (let v = value_of_kind (cc_prost K) k;
          (pubuid, c) = ensure_pubuid_typed K sock channel v declared_type properties (ensure_reader c);
          frame = encode_once v SERVER_TIME pubuid
      in (frame, snd (dispatch_frame sock frame c)))"

definition send_schema :: "client_codec \<Rightarrow> (nat \<Rightarrow> bool) \<Rightarrow> string \<times> string \<Rightarrow> client \<Rightarrow> client" where
  "send_schema K sock schema c =
     (let schema_channel = ''/.schema/'' @ fst schema in
      if hm_has (c_pubuids c) schema_channel then c
      else let (frame, c) = publish_typed K sock schema_channel (KBytes (str_bytes (snd schema))) (Some ''structschema'')
                              [(''retained'', JBool True)] c
           in remember (''schema:'' @ schema_channel) frame c)"

definition send_struct ::
  "client_codec \<Rightarrow> (nat \<Rightarrow> bool) \<Rightarrow> string \<Rightarrow> string \<Rightarrow> (string \<times> string) list \<Rightarrow> bytes \<Rightarrow> client \<Rightarrow> client" where
  "send_struct K sock channel type_name schemas packed c =
     snd (publish_typed K sock channel (KBytes packed) (Some type_name) [] (fold (send_schema K sock) schemas c))"

definition pack_le_doubles :: "f64 list \<Rightarrow> bytes" where
  "pack_le_doubles xs = concat (map (\<lambda>x. u64_le x) xs)"

definition POSE2D_SCHEMAS :: "(string \<times> string) list" where
  "POSE2D_SCHEMAS = [(''struct:Translation2d'', ''double x;double y''), (''struct:Rotation2d'', ''double value''),
     (''struct:Pose2d'', ''Translation2d translation;Rotation2d rotation'')]"

definition POSE3D_SCHEMAS :: "(string \<times> string) list" where
  "POSE3D_SCHEMAS = [(''struct:Translation3d'', ''double x;double y;double z''),
     (''struct:Quaternion'', ''double w;double x;double y;double z''), (''struct:Rotation3d'', ''Quaternion q''),
     (''struct:Pose3d'', ''Translation3d translation;Rotation3d rotation'')]"

definition send_pose2d_struct :: "client_codec \<Rightarrow> (nat \<Rightarrow> bool) \<Rightarrow> string \<Rightarrow> f64 \<Rightarrow> f64 \<Rightarrow> f64 \<Rightarrow> client \<Rightarrow> client" where
  "send_pose2d_struct K sock channel x y rotation =
     send_struct K sock channel ''struct:Pose2d'' POSE2D_SCHEMAS (pack_le_doubles [x, y, rotation])"

definition send_pose3d_struct ::
  "client_codec \<Rightarrow> (nat \<Rightarrow> bool) \<Rightarrow> string \<Rightarrow> f64 list \<Rightarrow> f64 list \<Rightarrow> client \<Rightarrow> client" where
  "send_pose3d_struct K sock channel xyz quaternion =
     send_struct K sock channel ''struct:Pose3d'' POSE3D_SCHEMAS (pack_le_doubles (xyz @ quaternion))"

definition decode_tarwyn_type :: "client_codec \<Rightarrow> int \<Rightarrow> bytes \<Rightarrow> kind option" where
  "decode_tarwyn_type K tag data =
     (if tag = 1 then map_option KString (from_utf8 data)
      else if tag = 2 then (if length data < 8 then None else Some (KDouble (of_nat (be_nat (take 8 data)))))
      else if tag = 3 then (if length data < 4 then None else Some (KInt32 (of_nat (be_nat (take 4 data)))))
      else if tag = 5 then (if length data < 8 then None else Some (KInt64 (of_nat (be_nat (take 8 data)))))
      else if tag = 6 then Some (KBool (data \<noteq> [] \<and> hd data \<noteq> 0))
      else if tag = 10 then map_option KDoubleList (double_list_decode K data)
      else if tag = 11 then map_option KStringList (string_list_decode K data)
      else if tag = 12 then map_option KFloatList (float_list_decode K data)
      else if tag = 13 then map_option KIntegerList (integer_list_decode K data)
      else if tag = 14 then map_option KLongList (long_list_decode K data)
      else if tag = 15 then map_option KBoolList (bool_list_decode K data)
      else if tag = 16 then map_option KBytesList (bytes_list_decode (cc_prost K) data)
      else if tag = 20 then map_option KCoordinateList (coordinate_list_decode (cc_prost K) data)
      else if tag = 21 then map_option KBezierCurves (bezier_curves_decode (cc_prost K) data)
      else if tag = 22 then map_option KBezierCurve (bezier_curve_decode K data)
      else if tag = 23 then map_option KBezierCurvesList (bezier_curves_list_decode K data)
      else Some (KBytes data))"

definition send_typed_bytes ::
  "client_codec \<Rightarrow> (nat \<Rightarrow> bool) \<Rightarrow> u64 \<Rightarrow> string \<Rightarrow> int \<Rightarrow> bytes \<Rightarrow> client \<Rightarrow> bool \<times> client" where
  "send_typed_bytes K sock now channel tag data c =
     (case decode_tarwyn_type K tag data of
        None \<Rightarrow> (False, c)
      | Some k \<Rightarrow> (True, send_message K sock now channel (value_of_kind (cc_prost K) k) c))"

section \<open>Frames in\<close>

definition fan_out_value :: "value_message \<Rightarrow> client \<Rightarrow> client" where
  "fan_out_value vm c =
     (case hm_get (c_topic_names c) (vm_topic_id vm) of
        None \<Rightarrow> c
      | Some t \<Rightarrow>
          let v = conformed (vm_value vm) (kt_data_type t) in
          if kt_name t = LOG_TOPIC
          then (case v of
                  VStringArray lines \<Rightarrow>
                    c\<lparr> c_logged := c_logged c @ concat (map (\<lambda>line. map (\<lambda>k. (k, line)) (c_log_listeners c)) lines) \<rparr>
                | _ \<Rightarrow> c)
          else c\<lparr> c_heard := c_heard c @ map (\<lambda>k. (k, widened v)) (list_of (c_data_listeners c) (kt_name t)) \<rparr>)"

definition handle_binary :: "client_codec \<Rightarrow> bytes \<Rightarrow> client \<Rightarrow> client" where
  "handle_binary K payload c =
     (case vm_decode_all payload of
        Inr messages \<Rightarrow> fold fan_out_value messages c
      | Inl _ \<Rightarrow>
          (case reply_decode K payload of
             None \<Rightarrow> c
           | Some reply \<Rightarrow>
               (case c_pending c of
                  Some waiting \<Rightarrow>
                    if rep_id reply = 0 \<or> rep_id reply = waiting then c\<lparr> c_pending := None, c_reply := Some payload \<rparr> else c
                | None \<Rightarrow> c)))"

definition handle_text :: "client_codec \<Rightarrow> string \<Rightarrow> client \<Rightarrow> client" where
  "handle_text K text c =
     (case from_json (cc_parse K) text of
        Inr (Announce name i data_type properties pubuid) \<Rightarrow>
          c\<lparr> c_topic_names := hm_insert (c_topic_names c) i \<lparr> kt_name = name, kt_data_type = data_type_from_string data_type \<rparr> \<rparr>
      | _ \<Rightarrow> c)"

section \<open>The connection\<close>

text \<open>Sending through the reader's own half; whether every frame went out.\<close>

fun send_each :: "(nat \<Rightarrow> bool) \<Rightarrow> bytes list \<Rightarrow> client \<Rightarrow> bool \<times> client" where
  "send_each sock [] c = (True, c)"
| "send_each sock (frame # frames) c =
     (if sock (c_sends c)
      then send_each sock frames (c\<lparr> c_wire := c_wire c @ [frame], c_sends := c_sends c + 1 \<rparr>)
      else (False, c\<lparr> c_sends := c_sends c + 1 \<rparr>))"

definition replay_session :: "(nat \<Rightarrow> bool) \<Rightarrow> client \<Rightarrow> bool \<times> client" where
  "replay_session sock c = send_each sock (map snd (c_session c)) c"

text \<open>A frame leaves the queue before it is sent, so that the one whose send fails is lost.\<close>

fun drain_frames :: "(nat \<Rightarrow> bool) \<Rightarrow> bytes list \<Rightarrow> client \<Rightarrow> bool \<times> client" where
  "drain_frames sock [] c = (True, c\<lparr> c_outbound := [] \<rparr>)"
| "drain_frames sock (frame # frames) c =
     (if sock (c_sends c)
      then drain_frames sock frames (c\<lparr> c_wire := c_wire c @ [frame], c_sends := c_sends c + 1 \<rparr>)
      else (False, c\<lparr> c_sends := c_sends c + 1, c_outbound := frames \<rparr>))"

definition drain_outbound :: "(nat \<Rightarrow> bool) \<Rightarrow> client \<Rightarrow> bool \<times> client" where
  "drain_outbound sock c = drain_frames sock (c_outbound c) c"

definition drain_outbound_dropped :: "client \<Rightarrow> client" where
  "drain_outbound_dropped c = c\<lparr> c_dropped := c_dropped c + length (c_outbound c), c_outbound := [] \<rparr>"

text \<open>A round of the reader's outer loop: no connection, or one on which the session is replayed and the
  queue drained.  Only then, and in a step of its own, does it hand the connection to the publishers;
  \<open>spare\<close>: the socket could be duplicated.\<close>

definition connect_failed :: "client \<Rightarrow> client" where
  "connect_failed c = drain_outbound_dropped (c\<lparr> c_writer := False \<rparr>)"

definition reconnect :: "(nat \<Rightarrow> bool) \<Rightarrow> client \<Rightarrow> bool \<times> client" where
  "reconnect sock c =
     (let c = c\<lparr> c_writer := False, c_wire := [], c_topic_names := [] \<rparr> in
      case replay_session sock c of
        (False, c) \<Rightarrow> (False, c)
      | (True, c) \<Rightarrow> drain_outbound sock c)"

definition hand_over :: "bool \<Rightarrow> client \<Rightarrow> client" where
  "hand_over spare c = c\<lparr> c_writer := spare \<rparr>"

datatype incoming = InBinary bytes | InText string | InPing bytes | InPong | InClose | InFrame | InTimeout | InError

definition answer_ping :: "(nat \<Rightarrow> bool) \<Rightarrow> bytes \<Rightarrow> client \<Rightarrow> client" where
  "answer_ping sock payload c =
     (if sock (c_sends c) then c\<lparr> c_pongs := c_pongs c @ [payload], c_sends := c_sends c + 1 \<rparr>
      else c\<lparr> c_sends := c_sends c + 1 \<rparr>)"

text \<open>A round of the inner loop: the queue, then one message; whether the connection goes on.\<close>

definition read_round :: "client_codec \<Rightarrow> (nat \<Rightarrow> bool) \<Rightarrow> incoming \<Rightarrow> client \<Rightarrow> bool \<times> client" where
  "read_round K sock m c =
     (case drain_outbound sock c of
        (False, c) \<Rightarrow> (False, c)
      | (True, c) \<Rightarrow>
          (case m of
             InBinary payload \<Rightarrow> (True, handle_binary K payload c)
           | InText text \<Rightarrow> (True, handle_text K text c)
           | InPing payload \<Rightarrow> (True, answer_ping sock payload c)
           | InClose \<Rightarrow> (False, c)
           | InError \<Rightarrow> (False, c)
           | _ \<Rightarrow> (True, c)))"

section \<open>Requests\<close>

definition request_begin :: "client_codec \<Rightarrow> (nat \<Rightarrow> bool) \<Rightarrow> request_payload \<Rightarrow> client \<Rightarrow> u64 option \<times> client" where
  "request_begin K sock p c =
     (let c = ensure_reader c;
          i = c_next_request c + 1;
          c = c\<lparr> c_next_request := i, c_pending := Some i, c_reply := None \<rparr>;
          (sent, c) = dispatch_frame sock (request_encode K \<lparr> req_id = i, req_payload = Some p \<rparr>) c
      in if sent then (Some i, c) else (None, (client_drop c)\<lparr> c_pending := None \<rparr>))"

definition request_end :: "client_codec \<Rightarrow> client \<Rightarrow> reply_payload option \<times> client" where
  "request_end K c =
     (case c_reply c of
        Some payload \<Rightarrow> (Option.bind (reply_decode K payload) rep_payload, c)
      | None \<Rightarrow> (None, c\<lparr> c_pending := None \<rparr>))"

text \<open>A request, with the binary frames the reader handles while it waits.\<close>

definition request_wait ::
  "client_codec \<Rightarrow> (nat \<Rightarrow> bool) \<Rightarrow> request_payload \<Rightarrow> bytes list \<Rightarrow> client \<Rightarrow> reply_payload option \<times> client" where
  "request_wait K sock p frames c =
     (case request_begin K sock p c of
        (None, c) \<Rightarrow> (None, c)
      | (Some _, c) \<Rightarrow> request_end K (fold (handle_binary K) frames c))"

definition client_get :: "client_codec \<Rightarrow> (nat \<Rightarrow> bool) \<Rightarrow> string \<Rightarrow> bytes list \<Rightarrow> client \<Rightarrow> nt_value option \<times> client" where
  "client_get K sock channel frames c =
     (case request_wait K sock (ReqData channel) frames c of
        (Some (RepData (Some (Some kind))), c) \<Rightarrow>
          (if kind = KString NO_DATA_SENTINEL then None else Some (value_of_kind (cc_prost K) kind), c)
      | (_, c) \<Rightarrow> (None, c))"

definition client_delete :: "client_codec \<Rightarrow> (nat \<Rightarrow> bool) \<Rightarrow> string \<Rightarrow> bytes list \<Rightarrow> client \<Rightarrow> u32 \<times> client" where
  "client_delete K sock channel frames c =
     (case request_wait K sock (ReqDelete channel) frames c of
        (Some (RepDelete deleted), c) \<Rightarrow> (deleted, c)
      | (_, c) \<Rightarrow> (0, c))"

definition client_tables :: "client_codec \<Rightarrow> (nat \<Rightarrow> bool) \<Rightarrow> string \<Rightarrow> bytes list \<Rightarrow> client \<Rightarrow> string list \<times> client" where
  "client_tables K sock pre frames c =
     (case request_wait K sock (ReqTables pre) frames c of
        (Some (RepTables channels), c) \<Rightarrow> (channels, c)
      | (_, c) \<Rightarrow> ([], c))"

definition client_ping :: "client_codec \<Rightarrow> (nat \<Rightarrow> bool) \<Rightarrow> u64 \<Rightarrow> u64 \<Rightarrow> bytes list \<Rightarrow> client \<Rightarrow> nat option \<times> client" where
  "client_ping K sock sent now frames c =
     (case request_wait K sock (ReqPing sent) frames c of
        (Some (RepPing sent_nanos _), c) \<Rightarrow> (Some (unat now - unat sent_nanos), c)
      | (_, c) \<Rightarrow> (None, c))"

definition client_statistics :: "client_codec \<Rightarrow> (nat \<Rightarrow> bool) \<Rightarrow> bytes list \<Rightarrow> client \<Rightarrow> statistics option \<times> client" where
  "client_statistics K sock frames c =
     (case request_wait K sock ReqStatistics frames c of
        (Some (RepStatistics stats), c) \<Rightarrow> (Some stats, c)
      | (_, c) \<Rightarrow> (None, c))"

definition raw_json :: "client_codec \<Rightarrow> (nat \<Rightarrow> bool) \<Rightarrow> string \<Rightarrow> bytes list \<Rightarrow> client \<Rightarrow> string \<times> client" where
  "raw_json K sock pre frames c =
     (case request_wait K sock (ReqJson pre) frames c of
        (Some (RepJson json), c) \<Rightarrow> (json, c)
      | (_, c) \<Rightarrow> (''{}'', c))"

definition swap_command :: "client_codec \<Rightarrow> string \<Rightarrow> nt_value option \<Rightarrow> nt_value \<Rightarrow> compare_and_set_command" where
  "swap_command K channel expected v =
     \<lparr> cas_channel = channel, cas_expected = map_option (\<lambda>v. Some (kind_of_value (cc_prost K) v)) expected,
       cas_value = Some (Some (kind_of_value (cc_prost K) v)), cas_expect_absent = (expected = None) \<rparr>"

definition client_compare_and_set ::
  "client_codec \<Rightarrow> (nat \<Rightarrow> bool) \<Rightarrow> string \<Rightarrow> nt_value option \<Rightarrow> nt_value \<Rightarrow> bytes list \<Rightarrow> client \<Rightarrow> bool \<times> client" where
  "client_compare_and_set K sock channel expected v frames c =
     (case request_wait K sock (ReqCompareAndSet (swap_command K channel expected v)) frames c of
        (Some (RepCompareAndSet swapped _), c) \<Rightarrow> (swapped, c)
      | (_, c) \<Rightarrow> (False, c))"

definition client_logs :: "client_codec \<Rightarrow> (nat \<Rightarrow> bool) \<Rightarrow> bytes list \<Rightarrow> client \<Rightarrow> string list \<times> client" where
  "client_logs K sock frames c =
     (case request_wait K sock ReqLogs frames c of
        (Some (RepLogs logs), c) \<Rightarrow> (logs, c)
      | (_, c) \<Rightarrow> ([], c))"

section \<open>Subscribing\<close>

definition subscribe_frame :: "client_codec \<Rightarrow> string \<Rightarrow> u32 \<Rightarrow> bytes" where
  "subscribe_frame K channel subuid = str_bytes (to_json (cc_print K) (Subscribe [channel] subuid []))"

definition session_key :: "u32 \<Rightarrow> string" where
  "session_key subuid = ''subscribe:'' @ show_nat (unat subuid)"

definition subscribe_request :: "client_codec \<Rightarrow> (nat \<Rightarrow> bool) \<Rightarrow> string \<Rightarrow> client \<Rightarrow> u32 \<times> client" where
  "subscribe_request K sock channel c =
     (let c = ensure_reader c;
          subuid = c_next_subuid c;
          c = c\<lparr> c_next_subuid := subuid + 1 \<rparr>;
          frame = subscribe_frame K channel subuid;
          c = remember (session_key subuid) frame c
      in (subuid, snd (dispatch_frame sock frame c)))"

definition add_listener :: "string \<Rightarrow> client \<Rightarrow> nat \<times> client" where
  "add_listener channel c =
     (let k = c_next_key c in
      (k, c\<lparr> c_next_key := k + 1,
             c_data_listeners := hm_insert (c_data_listeners c) channel (list_of (c_data_listeners c) channel @ [k]) \<rparr>))"

definition add_log_listener :: "client \<Rightarrow> nat \<times> client" where
  "add_log_listener c =
     (let k = c_next_key c in (k, c\<lparr> c_next_key := k + 1, c_log_listeners := c_log_listeners c @ [k] \<rparr>))"

text \<open>A subscription, with the binary frames that arrive while its read waits: its number, its listener,
  and what the callback has been run on when the call returns, the snapshot first.\<close>

definition heard_by :: "nat \<Rightarrow> (nat \<times> 'a) list \<Rightarrow> 'a list" where
  "heard_by k calls = map snd (filter (\<lambda>(k', _). k' = k) calls)"

definition client_subscribe ::
  "client_codec \<Rightarrow> (nat \<Rightarrow> bool) \<Rightarrow> string \<Rightarrow> bytes list \<Rightarrow> client \<Rightarrow> (u32 \<times> nat \<times> nt_value list) \<times> client" where
  "client_subscribe K sock channel frames c =
     (let (subuid, c) = subscribe_request K sock channel c;
          (k, c1) = add_listener channel c;
          (initial_value, c2) = client_get K sock channel frames c1;
          buffered = heard_by k (drop (length (c_heard c1)) (c_heard c2))
      in ((subuid, k, (case initial_value of Some v \<Rightarrow> [v] | None \<Rightarrow> []) @ buffered), c2))"

text \<open>For the log the listener is added after the fetch.\<close>

definition client_subscribe_to_logs ::
  "client_codec \<Rightarrow> (nat \<Rightarrow> bool) \<Rightarrow> bytes list \<Rightarrow> client \<Rightarrow> (u32 \<times> nat \<times> string list) \<times> client" where
  "client_subscribe_to_logs K sock frames c =
     (let (subuid, c) = subscribe_request K sock LOG_TOPIC c;
          (initial_value, c) = client_logs K sock frames c;
          (k, c) = add_log_listener c
      in ((subuid, k, initial_value), c))"

text \<open>The closure that ends a subscription, run while the reader it was made under still runs.\<close>

definition unsubscriber :: "client_codec \<Rightarrow> (nat \<Rightarrow> bool) \<Rightarrow> u32 \<Rightarrow> client \<Rightarrow> client" where
  "unsubscriber K sock subuid c =
     (let c = c\<lparr> c_session := hm_remove (c_session c) (session_key subuid) \<rparr>;
          frame = str_bytes (to_json (cc_print K) (Unsubscribe subuid))
      in case write_frame sock frame c of
           (None, c) \<Rightarrow> c
         | (Some frame, c) \<Rightarrow> snd (try_send frame c))"

definition remove_listener :: "string \<Rightarrow> nat \<Rightarrow> client \<Rightarrow> client" where
  "remove_listener channel k c =
     (case hm_get (c_data_listeners c) channel of
        None \<Rightarrow> c
      | Some ks \<Rightarrow>
          let ks = filter (\<lambda>k'. k' \<noteq> k) ks in
          c\<lparr> c_data_listeners := (if ks = [] then hm_remove (c_data_listeners c) channel
                                 else hm_insert (c_data_listeners c) channel ks) \<rparr>)"

definition unsubscribe :: "client_codec \<Rightarrow> (nat \<Rightarrow> bool) \<Rightarrow> string \<Rightarrow> u32 \<Rightarrow> nat \<Rightarrow> client \<Rightarrow> client" where
  "unsubscribe K sock channel subuid k c = remove_listener channel k (unsubscriber K sock subuid c)"

definition unsubscribe_logs :: "client_codec \<Rightarrow> (nat \<Rightarrow> bool) \<Rightarrow> u32 \<Rightarrow> nat \<Rightarrow> client \<Rightarrow> client" where
  "unsubscribe_logs K sock subuid k c =
     (let c = unsubscriber K sock subuid c in c\<lparr> c_log_listeners := filter (\<lambda>k'. k' \<noteq> k) (c_log_listeners c) \<rparr>)"

section \<open>The data log\<close>

datatype log_error = AlreadyExists | OpenFailed

definition refuse_second_log :: "client \<Rightarrow> log_error + unit" where
  "refuse_second_log c = (case c_logger c of Some _ \<Rightarrow> Inl AlreadyExists | None \<Rightarrow> Inr ())"

text \<open>\<open>opened\<close>: what opening the file gave.\<close>

definition log_to :: "wpi_logger option \<Rightarrow> client \<Rightarrow> (log_error + unit) \<times> client" where
  "log_to opened c =
     (case refuse_second_log c of
        Inl e \<Rightarrow> (Inl e, c)
      | Inr _ \<Rightarrow>
          (case opened of
             None \<Rightarrow> (Inl OpenFailed, c)
           | Some logger \<Rightarrow> (Inr (), c\<lparr> c_logger := Some logger \<rparr>)))"

text \<open>\<open>opened\<close>: what opening it on a drive gave, and the path it has there.\<close>

definition log_to_drive :: "'e option + wpi_logger \<times> string \<Rightarrow> client \<Rightarrow> (log_error + string) \<times> client" where
  "log_to_drive opened c =
     (case refuse_second_log c of
        Inl e \<Rightarrow> (Inl e, c)
      | Inr _ \<Rightarrow>
          (case opened of
             Inl _ \<Rightarrow> (Inl OpenFailed, c)
           | Inr (logger, path) \<Rightarrow> (Inr path, c\<lparr> c_logger := Some logger \<rparr>)))"

definition log_dropped :: "client \<Rightarrow> nat" where
  "log_dropped c = (case c_logger c of Some logger \<Rightarrow> lg_dropped logger | None \<Rightarrow> 0)"

definition logging_healthy :: "client \<Rightarrow> bool" where
  "logging_healthy c = (case c_logger c of Some logger \<Rightarrow> \<not> lg_failed logger | None \<Rightarrow> True)"

section \<open>Running and stopping\<close>

definition client_start :: "client \<Rightarrow> client" where
  "client_start c =
     (if c_initialized c \<and> \<not> c_stop c then c else ensure_reader (c\<lparr> c_initialized := True, c_stop := False \<rparr>))"

definition client_stop :: "client \<Rightarrow> client" where
  "client_stop c = c\<lparr> c_stop := True, c_reading := False, c_writer := False, c_outbound := [] \<rparr>"

end
