(* ===== verification/Client_Listeners.thy ===== *)
theory Client_Listeners
  imports Tarwyn_Value Ring_Buffer
begin

text \<open>
  The subscriptions of the client crate: the buffered listener of \<^verbatim>\<open>client/src/listeners.rs\<close>, which
  holds values back until the snapshot has been delivered, run by the reader's thread and the
  subscribing thread at once, and the bounded queue of \<^verbatim>\<open>client/src/subscriber.rs\<close>.
\<close>

section \<open>The buffered listener\<close>

text \<open>The fields, and beside them the values the callback was run on.\<close>

record buffered_listener =
  bl_pending :: "nt_value list option"
  bl_open :: bool
  bl_called :: "nt_value list"

definition buffered_new :: buffered_listener where
  "buffered_new = \<lparr> bl_pending = Some [], bl_open = False, bl_called = [] \<rparr>"

definition bl_call :: "nt_value \<Rightarrow> buffered_listener \<Rightarrow> buffered_listener" where
  "bl_call v b = b\<lparr> bl_called := bl_called b @ [v] \<rparr>"

text \<open>\<open>deliver\<close> in two parts: the load of the flag, and what follows when the gate looked closed.\<close>

definition buffer_value :: "nt_value \<Rightarrow> buffered_listener \<Rightarrow> buffered_listener option" where
  "buffer_value v b = map_option (\<lambda>buffered. b\<lparr> bl_pending := Some (buffered @ [v]) \<rparr>) (bl_pending b)"

text \<open>\<open>open\<close> takes a batch under the lock and replays it outside, until there is none.\<close>

datatype gate = GateDone | GateBatch "nt_value list"

definition take_batch :: "buffered_listener \<Rightarrow> gate \<times> buffered_listener" where
  "take_batch b =
     (case bl_pending b of
        None \<Rightarrow> (GateDone, b)
      | Some [] \<Rightarrow> (GateDone, b\<lparr> bl_pending := None, bl_open := True \<rparr>)
      | Some buffered \<Rightarrow> (GateBatch buffered, b\<lparr> bl_pending := Some [] \<rparr>))"

datatype deliverer = Resting | SawClosed nt_value | Calling nt_value
datatype opener = Fetching | Opening | Replaying "nt_value list" | Opened

record listening =
  li_listener :: buffered_listener
  li_reader :: deliverer
  li_opener :: opener
  li_snapshot :: "nt_value list"
  li_given :: "nt_value list"

definition listening_new :: listening where
  "listening_new = \<lparr> li_listener = buffered_new, li_reader = Resting, li_opener = Fetching, li_snapshot = [], li_given = [] \<rparr>"

text \<open>The reader's thread delivers one value after another; the subscribing thread runs the callback on
  what it fetched, if anything, and opens the gate.  Each step is one atomic access.\<close>

inductive listen_step :: "listening \<Rightarrow> listening \<Rightarrow> bool" where
  see_closed: "li_reader s = Resting \<Longrightarrow> \<not> bl_open (li_listener s) \<Longrightarrow>
    listen_step s (s\<lparr> li_reader := SawClosed v, li_given := li_given s @ [v] \<rparr>)"
| see_open: "li_reader s = Resting \<Longrightarrow> bl_open (li_listener s) \<Longrightarrow>
    listen_step s (s\<lparr> li_reader := Calling v, li_given := li_given s @ [v] \<rparr>)"
| buffer: "li_reader s = SawClosed v \<Longrightarrow> buffer_value v (li_listener s) = Some b \<Longrightarrow>
    listen_step s (s\<lparr> li_reader := Resting, li_listener := b \<rparr>)"
| too_late: "li_reader s = SawClosed v \<Longrightarrow> buffer_value v (li_listener s) = None \<Longrightarrow>
    listen_step s (s\<lparr> li_reader := Calling v \<rparr>)"
| run: "li_reader s = Calling v \<Longrightarrow>
    listen_step s (s\<lparr> li_reader := Resting, li_listener := bl_call v (li_listener s) \<rparr>)"
| fetched: "li_opener s = Fetching \<Longrightarrow>
    listen_step s (s\<lparr> li_opener := Opening, li_snapshot := [v], li_listener := bl_call v (li_listener s) \<rparr>)"
| nothing: "li_opener s = Fetching \<Longrightarrow> listen_step s (s\<lparr> li_opener := Opening \<rparr>)"
| batch: "li_opener s = Opening \<Longrightarrow> take_batch (li_listener s) = (GateBatch vs, b) \<Longrightarrow>
    listen_step s (s\<lparr> li_opener := Replaying vs, li_listener := b \<rparr>)"
| opened: "li_opener s = Opening \<Longrightarrow> take_batch (li_listener s) = (GateDone, b) \<Longrightarrow>
    listen_step s (s\<lparr> li_opener := Opened, li_listener := b \<rparr>)"
| replay: "li_opener s = Replaying (v # vs) \<Longrightarrow>
    listen_step s (s\<lparr> li_opener := Replaying vs, li_listener := bl_call v (li_listener s) \<rparr>)"
| again: "li_opener s = Replaying [] \<Longrightarrow> listen_step s (s\<lparr> li_opener := Opening \<rparr>)"

inductive_cases listen_stepE: "listen_step s s'"

inductive listen_reachable :: "listening \<Rightarrow> bool" where
  start: "listen_reachable listening_new"
| step: "listen_reachable s \<Longrightarrow> listen_step s s' \<Longrightarrow> listen_reachable s'"

section \<open>The cached subscriber\<close>

record cached_subscriber =
  cs_values :: "nt_value list"
  cs_depth :: nat

definition cached_new :: "nat \<Rightarrow> cached_subscriber" where
  "cached_new depth = \<lparr> cs_values = [], cs_depth = max depth 1 \<rparr>"

definition cached_push :: "nt_value \<Rightarrow> cached_subscriber \<Rightarrow> cached_subscriber" where
  "cached_push v q =
     (let buffered = (if length (cs_values q) = cs_depth q then tl (cs_values q) else cs_values q)
      in q\<lparr> cs_values := buffered @ [v] \<rparr>)"

definition read_all :: "cached_subscriber \<Rightarrow> nt_value list \<times> cached_subscriber" where
  "read_all q = (cs_values q, q\<lparr> cs_values := [] \<rparr>)"

definition latest :: "cached_subscriber \<Rightarrow> nt_value option" where
  "latest q = (if cs_values q = [] then None else Some (last (cs_values q)))"

definition cached_len :: "cached_subscriber \<Rightarrow> nat" where
  "cached_len q = length (cs_values q)"

definition cached_ok :: "cached_subscriber \<Rightarrow> bool" where
  "cached_ok q \<longleftrightarrow> 0 < cs_depth q \<and> cached_len q \<le> cs_depth q"

interpretation cached: window cs_values cs_depth cached_push cached_ok
proof unfold_locales
  fix q x assume ok: "cached_ok q"
  then show "length (cs_values q) \<le> cs_depth q" by (simp add: cached_ok_def cached_len_def)
  show items: "cs_values (cached_push x q) = newest (cs_depth q) (cs_values q @ [x])"
    using ok by (cases "cs_values q") (auto simp: cached_push_def cached_ok_def cached_len_def newest_def Let_def)
  show depth: "cs_depth (cached_push x q) = cs_depth q" by (simp add: cached_push_def Let_def)
  show "cached_ok (cached_push x q)" using ok items depth by (simp add: cached_ok_def cached_len_def)
qed

section \<open>Nothing is lost or reordered\<close>

fun in_flight :: "deliverer \<Rightarrow> nt_value list" where
  "in_flight Resting = []"
| "in_flight (SawClosed v) = [v]"
| "in_flight (Calling v) = [v]"

fun in_replay :: "opener \<Rightarrow> nt_value list" where
  "in_replay (Replaying vs) = vs"
| "in_replay _ = []"

definition in_buffer :: "buffered_listener \<Rightarrow> nt_value list" where
  "in_buffer b = (case bl_pending b of None \<Rightarrow> [] | Some vs \<Rightarrow> vs)"

definition listen_ok :: "listening \<Rightarrow> bool" where
  "listen_ok s \<longleftrightarrow>
     bl_called (li_listener s) @ in_replay (li_opener s) @ in_buffer (li_listener s) @ in_flight (li_reader s)
       = li_snapshot s @ li_given s \<and>
     (li_opener s = Opened \<longleftrightarrow> bl_pending (li_listener s) = None) \<and>
     (bl_open (li_listener s) \<longleftrightarrow> li_opener s = Opened) \<and>
     (\<forall>v. li_reader s = Calling v \<longrightarrow> li_opener s = Opened) \<and>
     (li_opener s = Fetching \<longrightarrow> bl_called (li_listener s) = [] \<and> li_snapshot s = [])"

lemma listen_step_ok: "listen_step s s' \<Longrightarrow> listen_ok s \<Longrightarrow> listen_ok s'"
proof (induction rule: listen_step.induct)
  case (buffer s v b)
  then show ?case by (cases "bl_pending (li_listener s)") (auto simp: listen_ok_def buffer_value_def in_buffer_def)
next
  case (too_late s v)
  then show ?case by (auto simp: listen_ok_def buffer_value_def in_buffer_def)
next
  case (batch s vs b)
  then show ?case
    by (cases "bl_pending (li_listener s)") (auto simp: listen_ok_def take_batch_def in_buffer_def split: list.splits)
next
  case (opened s b)
  then show ?case
    by (cases "bl_pending (li_listener s)") (auto simp: listen_ok_def take_batch_def in_buffer_def split: list.splits)
qed (auto simp: listen_ok_def bl_call_def in_buffer_def)

lemma listen_reachable_ok: "listen_reachable s \<Longrightarrow> listen_ok s"
proof (induction rule: listen_reachable.induct)
  case start
  then show ?case by (simp add: listen_ok_def listening_new_def buffered_new_def in_buffer_def)
qed (rule listen_step_ok)

lemma cached_new_ok: "cached_ok (cached_new depth)"
  by (simp add: cached_ok_def cached_new_def cached_len_def)

text \<open>C15. A subscription misses nothing and keeps the order.  However the reader's thread and the
  subscribing thread interleave, the callback has run on a prefix of the snapshot followed by the values
  that arrived, and on all of them once the gate is open and the reader rests; a cached subscriber then
  holds the newest of them, up to its depth, the last being the latest.\<close>

theorem subscription_in_order:
  assumes "listen_reachable s"
  shows "\<exists>rest. li_snapshot s @ li_given s = bl_called (li_listener s) @ rest
    \<and> (li_opener s = Opened \<and> li_reader s = Resting \<longrightarrow> rest = []
       \<and> cs_values (fold cached_push (bl_called (li_listener s)) (cached_new depth))
           = newest (max depth 1) (li_snapshot s @ li_given s)
       \<and> (li_given s \<noteq> [] \<longrightarrow> latest (fold cached_push (bl_called (li_listener s)) (cached_new depth)) = Some (last (li_given s))))"
proof -
  let ?called = "bl_called (li_listener s)" and ?all = "li_snapshot s @ li_given s"
  let ?rest = "in_replay (li_opener s) @ in_buffer (li_listener s) @ in_flight (li_reader s)"
  have ok: "listen_ok s" using assms by (rule listen_reachable_ok)
  have all: "?all = ?called @ ?rest" using ok by (simp add: listen_ok_def)
  have queue: "cs_values (fold cached_push ?called (cached_new depth)) = newest (max depth 1) ?called"
    using cached.items_adds [OF cached_new_ok, of ?called depth] by (simp add: cached_new_def)
  have lst: "last (newest (max depth 1) xs) = last xs" "newest (max depth 1) xs \<noteq> []" if "xs \<noteq> []" for xs :: "nt_value list"
  proof -
    have "0 < min (max depth 1) (length xs)" using that by simp
    then show "newest (max depth 1) xs \<noteq> []" by (metis length_newest length_greater_0_conv)
    then show "last (newest (max depth 1) xs) = last xs" using newest_suffix [of xs "max depth 1"] by (metis last_append)
  qed
  have fin: "?rest = []" if "li_opener s = Opened \<and> li_reader s = Resting"
    using ok that by (simp add: listen_ok_def in_buffer_def)
  show ?thesis
  proof (intro exI [of _ ?rest] conjI impI)
    show "?all = ?called @ ?rest" by (rule all)
  next
    assume "li_opener s = Opened \<and> li_reader s = Resting"
    then show rest: "?rest = []" by (rule fin)
    have called: "?called = ?all" using all unfolding rest by simp
    then show q: "cs_values (fold cached_push ?called (cached_new depth)) = newest (max depth 1) ?all"
      using queue by (simp only:)
    assume "li_given s \<noteq> []"
    then show "latest (fold cached_push ?called (cached_new depth)) = Some (last (li_given s))"
      using lst [of ?all] unfolding latest_def q by simp
  qed
qed

theorem subscription_in_order_witness:
  "\<exists>s. listen_reachable s \<and> bl_called (li_listener s) = [VBool True, VBool False]
     \<and> cs_values (fold cached_push (bl_called (li_listener s)) (cached_new 1)) = [VBool False]"
proof -
  let ?s1 = "listening_new\<lparr> li_reader := SawClosed (VBool False), li_given := [VBool False] \<rparr>"
  let ?b2 = "buffered_new\<lparr> bl_pending := Some [VBool False] \<rparr>"
  let ?s2 = "?s1\<lparr> li_reader := Resting, li_listener := ?b2 \<rparr>"
  let ?s3 = "?s2\<lparr> li_opener := Opening, li_snapshot := [VBool True], li_listener := bl_call (VBool True) ?b2 \<rparr>"
  let ?b4 = "(bl_call (VBool True) ?b2)\<lparr> bl_pending := Some [] \<rparr>"
  let ?s4 = "?s3\<lparr> li_opener := Replaying [VBool False], li_listener := ?b4 \<rparr>"
  let ?s5 = "?s4\<lparr> li_opener := Replaying [], li_listener := bl_call (VBool False) ?b4 \<rparr>"
  let ?s6 = "?s5\<lparr> li_opener := Opening \<rparr>"
  let ?s7 = "?s6\<lparr> li_opener := Opened, li_listener := (bl_call (VBool False) ?b4)\<lparr> bl_pending := None, bl_open := True \<rparr> \<rparr>"
  have "listen_step listening_new ?s1" using see_closed [of listening_new "VBool False"] by (simp add: listening_new_def buffered_new_def)
  moreover have "listen_step ?s1 ?s2"
    using buffer [of ?s1 "VBool False" ?b2] by (simp add: listening_new_def buffered_new_def buffer_value_def)
  moreover have "listen_step ?s2 ?s3" using fetched [of ?s2 "VBool True"] by (simp add: listening_new_def)
  moreover have "listen_step ?s3 ?s4"
    using batch [of ?s3 "[VBool False]" ?b4] by (simp add: take_batch_def bl_call_def buffered_new_def)
  moreover have "listen_step ?s4 ?s5" using replay [of ?s4 "VBool False" "[]"] by simp
  moreover have "listen_step ?s5 ?s6" using again [of ?s5] by simp
  moreover have "listen_step ?s6 ?s7"
    using opened [of ?s6] by (simp add: take_batch_def bl_call_def buffered_new_def)
  ultimately have "listen_reachable ?s7" by (meson listen_reachable.intros)
  with subscription_in_order [OF this, of 1] show ?thesis
    by (intro exI [of _ ?s7]) (simp add: bl_call_def buffered_new_def listening_new_def newest_def)
qed

end
