(* ===== verification/Client_Props.thy ===== *)
theory Client_Props
  imports Client Control_Plane_Props Client_Listeners
begin

text \<open>
  The client against the server: a value the server sends is heard by the listeners of its channel, a
  read returns what the server's cache holds, a request is answered by its own reply only, and a new
  connection hears every publish and subscription of the session before any value that was queued.
\<close>

section \<open>A value as it is heard\<close>

definition heard :: "nt_value \<Rightarrow> nt_value" where
  "heard v = widened (conformed (wire_form v) (xt_data_type v))"

lemma sint_narrow:
  assumes "- (2 ^ (LENGTH('b) - 1)) \<le> sint (x :: 'a::len word)" and "sint x < 2 ^ (LENGTH('b) - 1)"
    and "LENGTH('b::len) \<le> LENGTH('a)"
  shows "sint (ucast x :: 'b word) = sint x"
proof -
  have "sint (ucast x :: 'b word) = signed_take_bit (LENGTH('b) - Suc 0) (uint x)"
    by (simp add: signed_ucast_eq)
  also have "\<dots> = signed_take_bit (LENGTH('b) - Suc 0) (signed_take_bit (LENGTH('a) - Suc 0) (uint x))"
    using assms(3) by (simp add: min_def)
  also have "signed_take_bit (LENGTH('a) - Suc 0) (uint x) = sint x" by (simp add: sint_uint)
  also have "signed_take_bit (LENGTH('b) - Suc 0) (sint x) = sint x"
    using assms(1,2) by (intro signed_take_bit_int_eq_self) simp_all
  finally show ?thesis .
qed

lemma uint_nonneg: "0 \<le> sint (x :: u64) \<Longrightarrow> uint x = sint x"
  using sint_nonneg_iff [of x] sint_uint_iff [of x] by simp

lemma int_wire_number: "ints_of (widened (int_wire x)) = Some [sint x]" "xt_data_type (int_wire x) = 2"
proof -
  consider "0 \<le> sint x \<and> sint x \<le> 127" | "\<not> (0 \<le> sint x \<and> sint x \<le> 127)" "- 128 \<le> sint x \<and> sint x \<le> 127"
    | "\<not> (- 128 \<le> sint x \<and> sint x \<le> 127)" "- 32768 \<le> sint x \<and> sint x \<le> 32767"
    | "\<not> (- 32768 \<le> sint x \<and> sint x \<le> 32767)" "- 2147483648 \<le> sint x \<and> sint x \<le> 2147483647"
    | "\<not> (- 2147483648 \<le> sint x \<and> sint x \<le> 2147483647)" by argo
  then show "ints_of (widened (int_wire x)) = Some [sint x]"
  proof cases
    case 1
    then have "int_wire x = VUint8 (ucast x)" by (simp add: int_wire_def)
    moreover have "uint (ucast x :: u8) = sint x" using 1 by (simp add: uint_ucast_u8)
    ultimately show ?thesis by (simp add: ucast_widen)
  next
    case 2
    then have "int_wire x = VInt8 (ucast x)" by (simp add: int_wire_def)
    moreover have "sint (ucast x :: 8 word) = sint x" using 2 by (intro sint_narrow) simp_all
    ultimately show ?thesis by (simp add: scast_widen)
  next
    case 3
    then have "int_wire x = VInt16 (ucast x)" by (auto simp: int_wire_def)
    moreover have "sint (ucast x :: 16 word) = sint x" using 3 by (intro sint_narrow) simp_all
    ultimately show ?thesis by (simp add: scast_widen)
  next
    case 4
    then have "int_wire x = VInt32 (ucast x)" by (auto simp: int_wire_def)
    moreover have "sint (ucast x :: 32 word) = sint x" using 4 by (intro sint_narrow) simp_all
    ultimately show ?thesis by simp
  next
    case 5
    then have "int_wire x = VInt64 x" by (auto simp: int_wire_def)
    then show ?thesis by simp
  qed
  show "xt_data_type (int_wire x) = 2" by (simp add: int_wire_def)
qed

lemma uint_wire_number: "ints_of (widened (uint_wire x)) = Some [uint x]" "xt_data_type (uint_wire x) = 2"
proof -
  have "sint x = uint x" if "unat x < 2 ^ 63" using that by (simp add: sint_uint_iff)
  then show "ints_of (widened (uint_wire x)) = Some [uint x]"
    by (cases "unat x < 2 ^ 63") (simp_all add: uint_wire_def int_wire_number del: One_nat_def)
  show "xt_data_type (uint_wire x) = 2" by (simp add: uint_wire_def int_wire_number)
qed

lemma uints_wire_numbers:
  "ints_of (widened (uints_wire xs)) = Some (map uint xs)" "xt_data_type (uints_wire xs) = 18"
proof -
  have "map sint xs = map uint xs" if "\<not> list_ex (\<lambda>x. unat x \<ge> 2 ^ 63) xs"
    using that by (auto simp: list_ex_iff sint_uint_iff)
  then show "ints_of (widened (uints_wire xs)) = Some (map uint xs)" by (simp add: uints_wire_def)
  show "xt_data_type (uints_wire xs) = 18" by (simp add: uints_wire_def)
qed

lemma list_wire_heard:
  assumes "xt_data_type (f xs) = d" and "d \<in> {16, 18, 19, 20}" and "conformed (VDoubleArray []) d = e"
  shows "conformed (list_wire f xs) d = (if xs = [] then e else f xs)"
  using assms by (simp add: list_wire_def conformed_id)

lemma empty_conforms:
  "conformed (VDoubleArray []) 16 = VBoolArray []" "conformed (VDoubleArray []) 18 = VInt64Array []"
  "conformed (VDoubleArray []) 19 = VFloatArray []" "conformed (VDoubleArray []) 20 = VStringArray []"
  by (simp_all add: conformed_def)

text \<open>What is heard has the type and the content that was published: the same value, its numbers in
  another width, or the bytes of a structured value.\<close>

lemma heard_content:
  "xt_data_type (heard v) = xt_data_type v \<and>
   (case ints_of v of Some ns \<Rightarrow> ints_of (heard v) = Some ns
    | None \<Rightarrow> if is_message v then heard v = VBytes (case v of VBytesList b \<Rightarrow> b | VCoordinate b \<Rightarrow> b | VBezier b \<Rightarrow> b | _ \<Rightarrow> [])
             else heard v = v)"
proof -
  have ints: "conformed (int_wire x) 2 = int_wire x" "conformed (uint_wire x) 2 = uint_wire x" for x
    by (simp_all add: conformed_id int_wire_number uint_wire_number)
  note wires = list_wire_heard [OF _ _ empty_conforms(1)] list_wire_heard [OF _ _ empty_conforms(2)]
    list_wire_heard [OF _ _ empty_conforms(3)] list_wire_heard [OF _ _ empty_conforms(4)]
  show ?thesis
    by (cases v) (auto simp: heard_def ints wires conformed_id widened_type int_wire_number uint_wire_number
        uints_wire_numbers scast_widen ucast_widen comp_def)
qed

section \<open>From the server to a listener\<close>

lemma encode_once_decodes_all:
  assumes "encode_value v = Ok b" and "wire_ok v"
  shows "vm_decode_all (encode_once v ts i) =
    Ok [\<lparr> vm_topic_id = i, vm_timestamp_micros = ts, vm_data_type = xt_data_type v, vm_value = wire_form v \<rparr>]"
proof -
  let ?m = "\<lparr> vm_topic_id = i, vm_timestamp_micros = ts, vm_data_type = xt_data_type v, vm_value = v \<rparr>"
  obtain bs where bs: "vm_encode ?m = Ok bs" 
    using assms(1) by (simp add: vm_encode_def encode_value_message_def encode_array_header_def)
  then have "encode_once v ts i = bs" by (simp add: encode_once_def vm_encode_def)
  moreover have "vm_decode_one bs = Ok (?m\<lparr> vm_value := wire_form v \<rparr>, length bs)"
    using vm_decode_one_encode [OF bs, of "[]"] assms(2) by simp
  moreover from this have "bs \<noteq> []" using vm_decode_one_bounds [of bs] by fastforce
  ultimately show ?thesis by (simp add: vm_decode_all_def vm_decode_loop.simps)
qed

lemma handle_text_announce:
  assumes "hm_get (topics r) i = Some t"
    and "cc_parse K (to_string E (JArray [to_value (Announce (t_name t) (of_nat i) (t_type_str t) (t_properties t) pubuid)]))
      = Some (JArray [to_value (Announce (t_name t) (of_nat i) (t_type_str t) (t_properties t) pubuid)])"
  shows "handle_text K (announce_json E i pubuid r) c =
    c\<lparr> c_topic_names := hm_insert (c_topic_names c) (of_nat i)
         \<lparr> kt_name = t_name t, kt_data_type = data_type_from_string (t_type_str t) \<rparr> \<rparr>"
proof -
  have "from_json (cc_parse K) (announce_json E i pubuid r)
      = Ok (Announce (t_name t) (of_nat i) (t_type_str t) (t_properties t) pubuid)"
    using assms by (simp add: announce_json_def from_json_def from_json_batch_def to_json_def from_value_to_value)
  then show ?thesis by (simp add: handle_text_def)
qed

lemma announced_frame_heard:
  assumes "hm_get (topics r) i = Some t" and "t_name t \<noteq> LOG_TOPIC"
    and "cc_parse K (to_string E (JArray [to_value (Announce (t_name t) (of_nat i) (t_type_str t) (t_properties t) pubuid)]))
      = Some (JArray [to_value (Announce (t_name t) (of_nat i) (t_type_str t) (t_properties t) pubuid)])"
    and "encode_value v = Ok b" and "wire_ok v" and "xt_data_type v = data_type_from_string (t_type_str t)"
    and "c' = handle_text K (announce_json E i pubuid r) c"
  shows "handle_binary K (encode_once v ts (of_nat i)) c'
    = c'\<lparr> c_heard := c_heard c @ map (\<lambda>k. (k, heard v)) (list_of (c_data_listeners c) (t_name t)) \<rparr>"
proof -
  have c': "c' = c\<lparr> c_topic_names := hm_insert (c_topic_names c) (of_nat i)
      \<lparr> kt_name = t_name t, kt_data_type = data_type_from_string (t_type_str t) \<rparr> \<rparr>"
    unfolding assms(7) by (rule handle_text_announce [OF assms(1,3)])
  have "handle_binary K (encode_once v ts (of_nat i)) c' = fan_out_value \<lparr> vm_topic_id = of_nat i, vm_timestamp_micros = ts,
      vm_data_type = xt_data_type v, vm_value = wire_form v \<rparr> c'"
    by (simp add: handle_binary_def encode_once_decodes_all [OF assms(4,5)])
  also have "\<dots> = c'\<lparr> c_heard := c_heard c @ map (\<lambda>k. (k, heard v)) (list_of (c_data_listeners c) (t_name t)) \<rparr>"
    using assms(2,6) by (simp add: fan_out_value_def c' heard_def)
  finally show ?thesis .
qed

text \<open>C14. From the server's fan-out to a listener.  A client that was told of a topic by the server's own
  announcement runs every listener of the topic's channel, once and in order, on each frame the server
  fans out for the topic: what they hear has the published data type and content, its integers as the
  same numbers, and nothing else about the client changes.\<close>

theorem announced_value_heard:
  assumes "registry_ok r" and "hm_get (topics r) i = Some t" and "t_name t \<noteq> LOG_TOPIC"
    and "cc_parse K (to_string E (JArray [to_value (Announce (t_name t) (of_nat i) (t_type_str t) (t_properties t) pubuid)]))
      = Some (JArray [to_value (Announce (t_name t) (of_nat i) (t_type_str t) (t_properties t) pubuid)])"
    and "encode_value v = Ok b" and "wire_ok v" and "(d, ValueFrame frame) \<in> set (fst (handle_topic_value i v ts r))"
    and "c' = handle_text K (announce_json E i pubuid r) c"
  shows "handle_binary K frame c' = c'\<lparr> c_heard := c_heard c @ map (\<lambda>k. (k, heard v)) (list_of (c_data_listeners c) (t_name t)) \<rparr>
    \<and> xt_data_type (heard v) = t_data_type t \<and> (\<forall>ns. ints_of v = Some ns \<longrightarrow> ints_of (heard v) = Some ns)
    \<and> (ints_of v = None \<and> \<not> is_message v \<longrightarrow> heard v = v)"
proof -
  have t: "t_data_type t = data_type_from_string (t_type_str t)"
    using assms(1,2) by (auto simp: registry_ok_def topics_ok_def topic_ok_def)
  have routed: "xt_data_type v = t_data_type t" "frame = encode_once v ts (of_nat i)"
    using assms(2,7) by (auto simp: handle_topic_value_def Let_def split: if_splits)
  show ?thesis
    using announced_frame_heard [OF assms(2-6) _ assms(8)] routed t heard_content [of v] by (auto split: option.splits)
qed

definition announcing_codec :: client_codec where
  "announcing_codec = \<lparr> cc_prost = null_prost, request_encode = (\<lambda>_. []), reply_decode = (\<lambda>_. None),
     double_list_decode = (\<lambda>_. None), string_list_decode = (\<lambda>_. None), float_list_decode = (\<lambda>_. None),
     integer_list_decode = (\<lambda>_. None), long_list_decode = (\<lambda>_. None), bool_list_decode = (\<lambda>_. None),
     bezier_curve_decode = (\<lambda>_. None), bezier_curves_list_decode = (\<lambda>_. None), cc_print = (\<lambda>_. []),
     cc_parse = (\<lambda>_. Some (JArray [to_value (Announce ''a'' 0 ''boolean'' [] None)])) \<rparr>"

theorem announced_value_heard_witness:
  "c_heard (handle_binary announcing_codec (encode_once (VBool True) 5 0)
     (handle_text announcing_codec (announce_json \<lparr> to_string = (\<lambda>_. []), clock = (\<lambda>_. 0) \<rparr> 0 None overlapping)
        (snd (add_listener ''a'' (client_new 5))))) = [(0, VBool True)]"
proof -
  let ?E = "\<lparr> to_string = (\<lambda>_. []), clock = (\<lambda>_. 0) \<rparr>" and ?c = "snd (add_listener ''a'' (client_new 5))"
  have t: "hm_get (topics overlapping) 0 = Some sample_topic" by (simp add: overlapping_def sample_registry_def)
  have parse: "cc_parse announcing_codec x = Some (JArray [to_value (Announce (t_name sample_topic) (of_nat 0)
      (t_type_str sample_topic) (t_properties sample_topic) None)])" for x
    by (simp add: announcing_codec_def sample_topic_def)
  have route: "(2, ValueFrame (encode_once (VBool True) 5 0)) \<in> set (fst (handle_topic_value 0 (VBool True) 5 overlapping))"
    by (simp add: handle_topic_value_def overlapping_def sample_registry_def sample_topic_def list_of_def)
  have name: "t_name sample_topic \<noteq> LOG_TOPIC" by (simp add: sample_topic_def LOG_TOPIC_def)
  have "encode_value (VBool True) = Ok [0xc3]" "wire_ok (VBool True)" by simp_all
  from announced_value_heard [OF overlapping_ok t name parse this route refl, where c = ?c]
  have "c_heard (handle_binary announcing_codec (encode_once (VBool True) 5 0)
      (handle_text announcing_codec (announce_json ?E 0 None overlapping) ?c))
    = c_heard ?c @ map (\<lambda>k. (k, heard (VBool True))) (list_of (c_data_listeners ?c) (t_name sample_topic))" by simp
  then show ?thesis
    by (simp add: add_listener_def client_new_def sample_topic_def list_of_def heard_def conformed_def)
qed

section \<open>Requests and replies\<close>

definition answers_request :: "client_codec \<Rightarrow> u64 \<Rightarrow> bytes \<Rightarrow> bool" where
  "answers_request K i frame \<longleftrightarrow> (\<exists>e. vm_decode_all frame = Inl e) \<and>
     (\<exists>reply. reply_decode K frame = Some reply \<and> (rep_id reply = 0 \<or> rep_id reply = i))"

lemma fan_out_value_request:
  "c_pending (fan_out_value vm c) = c_pending c" "c_reply (fan_out_value vm c) = c_reply c"
  by (auto simp: fan_out_value_def Let_def split: option.split nt_value.split)

lemma fan_out_values_request:
  "c_pending (fold fan_out_value vms c) = c_pending c" "c_reply (fold fan_out_value vms c) = c_reply c"
  by (induction vms arbitrary: c) (simp_all add: fan_out_value_request)

lemma handle_binary_other:
  assumes "\<not> answers_request K i frame" and "c_pending c = Some i"
  shows "c_pending (handle_binary K frame c) = Some i" "c_reply (handle_binary K frame c) = c_reply c"
  using assms by (auto simp: handle_binary_def answers_request_def fan_out_values_request split: sum.split option.split)

lemma handle_binary_answer:
  assumes "answers_request K i frame" and "c_pending c = Some i"
  shows "c_pending (handle_binary K frame c) = None" "c_reply (handle_binary K frame c) = Some frame"
  using assms by (auto simp: handle_binary_def answers_request_def)

lemma handle_binary_idle:
  assumes "c_pending c = None"
  shows "c_pending (handle_binary K frame c) = None" "c_reply (handle_binary K frame c) = c_reply c"
  using assms by (auto simp: handle_binary_def fan_out_values_request split: sum.split option.split)

lemma frames_idle:
  assumes "c_pending c = None"
  shows "c_reply (fold (handle_binary K) frames c) = c_reply c"
  using assms by (induction frames arbitrary: c) (simp_all add: handle_binary_idle)

text \<open>The first frame that answers the request decides it.\<close>

lemma frames_decide:
  assumes "c_pending c = Some i" and "c_reply c = None"
  shows "c_reply (fold (handle_binary K) frames c) = find (answers_request K i) frames"
  using assms
proof (induction frames arbitrary: c)
  case (Cons f frames)
  then show ?case
    by (cases "answers_request K i f") (simp_all add: handle_binary_answer handle_binary_other frames_idle)
qed simp

lemma dispatch_frame_request [simp]:
  "c_pending (snd (dispatch_frame sock f c)) = c_pending c" "c_reply (snd (dispatch_frame sock f c)) = c_reply c"
  "c_next_request (snd (dispatch_frame sock f c)) = c_next_request c"
  by (simp_all add: dispatch_frame_def write_frame_def try_send_def)

lemma ensure_reader_request [simp]: "c_next_request (ensure_reader c) = c_next_request c"
  by (simp add: ensure_reader_def)

lemma request_begin_sent:
  assumes "request_begin K sock p c = (Some i, c1)"
  shows "i = c_next_request c + 1" "c_pending c1 = Some i" "c_reply c1 = None"
proof -
  let ?i = "c_next_request c + 1" and ?c = "ensure_reader c"
  let ?d = "dispatch_frame sock (request_encode K \<lparr> req_id = ?i, req_payload = Some p \<rparr>)
      (?c\<lparr> c_next_request := ?i, c_pending := Some ?i, c_reply := None \<rparr>)"
  have "(Some i, c1) = (if fst ?d then (Some ?i, snd ?d) else (None, (client_drop (snd ?d))\<lparr> c_pending := None \<rparr>))"
    using assms unfolding request_begin_def Let_def case_prod_beta ensure_reader_request by (rule sym)
  then have "i = ?i" "c1 = snd ?d" by (auto split: if_splits)
  then show "i = c_next_request c + 1" "c_pending c1 = Some i" "c_reply c1 = None" by simp_all
qed

lemma request_wait_result:
  "fst (request_wait K sock p frames c) =
     (case request_begin K sock p c of
        (None, _) \<Rightarrow> None
      | (Some i, _) \<Rightarrow> Option.bind (find (answers_request K i) frames) (\<lambda>f. Option.bind (reply_decode K f) rep_payload))"
proof (cases "request_begin K sock p c")
  case (Pair res c1)
  show ?thesis
  proof (cases res)
    case (Some i)
    note b = request_begin_sent [OF Pair [unfolded Some]]
    show ?thesis
      using frames_decide [OF b(2,3), of K frames]
      by (auto simp: request_wait_def Pair Some request_end_def split: option.split)
  qed (simp add: request_wait_def Pair)
qed

lemma find_skip: "find P xs = None \<Longrightarrow> find P (xs @ ys) = find P ys"
  by (induction xs) (simp_all split: if_splits)

lemma not_value_frame: "\<exists>e. vm_decode_all (8 # bs) = Inl e"
proof -
  have "decode_array (8 # bs) = Err NotAnArray"
    by (simp add: decode_array_def decode_array_at.simps split_first_def MAX_DEPTH_def)
  then show ?thesis by (simp add: vm_decode_all_def vm_decode_loop.simps vm_decode_one_def)
qed

lemma serve_request_id: "rep_id (fst (serve_request C i p s)) = i"
  by (cases p) (auto simp: serve_request_def data_reply_def reply_with_def Let_def split: prod.split)

lemma request_routed:
  assumes "request_decode (ctl_prost C) query = Some \<lparr> req_id = i, req_payload = Some p \<rparr>" and "hd query = 8" "query \<noteq> []"
  shows "route_binary (tarwyn_host C parse) d query s
    = (ControlReply (reply_encode (ctl_prost C) (fst (serve_request C i p s))), count_request (snd (serve_request C i p s)))"
proof -
  have "\<exists>e. vm_decode_all query = Inl e" using not_value_frame [of "tl query"] assms(2,3) by (cases query) auto
  then show ?thesis
    using assms(1) by (auto simp: route_binary_def tarwyn_host_def control_handler_def case_prod_beta)
qed

lemma request_returned:
  assumes "request_begin K sock p c = (Some i, c1)" and "reply_decode K answer = Some reply" and "rep_id reply = i"
    and "hd answer = 8" "answer \<noteq> []" and "\<forall>f \<in> set before. \<not> answers_request K i f"
  shows "fst (request_wait K sock p (before @ answer # after) c) = rep_payload reply"
proof -
  have "\<exists>e. vm_decode_all answer = Inl e" using not_value_frame [of "tl answer"] assms(4,5) by (cases answer) auto
  then have "answers_request K i answer" using assms(2,3) by (simp add: answers_request_def)
  moreover have "find (answers_request K i) before = None" using assms(6) by (simp add: find_None_iff)
  ultimately show ?thesis
    using assms(2) by (simp add: request_wait_result assms(1) find_skip split: option.split)
qed

text \<open>C22. A request is served and answered.  When the frame a request sent reaches the server, which
  reads back what the client wrote, the server serves it once and answers it; the client, whatever
  other frames arrive first (values, or replies to requests it gave up on), returns the payload of
  that answer.\<close>

theorem client_request_served:
  assumes "request_begin K sock p c = (Some i, c1)"
    and "query = request_encode K \<lparr> req_id = i, req_payload = Some p \<rparr>"
    and "request_decode (ctl_prost C) query = Some \<lparr> req_id = i, req_payload = Some p \<rparr>" and "hd query = 8" "query \<noteq> []"
    and "answer = reply_encode (ctl_prost C) (fst (serve_request C i p s))"
    and "reply_decode K answer = Some (fst (serve_request C i p s))" and "hd answer = 8" "answer \<noteq> []"
    and "\<forall>f \<in> set before. \<not> answers_request K i f"
  shows "route_binary (tarwyn_host C parse) d query s = (ControlReply answer, count_request (snd (serve_request C i p s)))
    \<and> fst (request_wait K sock p (before @ answer # after) c) = rep_payload (fst (serve_request C i p s))"
  using request_routed [OF assms(3-5)] request_returned [OF assms(1,7) serve_request_id assms(8-10)] assms(6) by simp

definition sample_codec :: client_codec where
  "sample_codec = \<lparr> cc_prost = null_prost, request_encode = (\<lambda>_. [8, 1]),
     reply_decode = (\<lambda>bs. if bs = [8, 2] then Some \<lparr> rep_id = 1, rep_payload = Some (RepTables []) \<rparr>
                          else Some \<lparr> rep_id = 9, rep_payload = None \<rparr>),
     double_list_decode = (\<lambda>_. None), string_list_decode = (\<lambda>_. None), float_list_decode = (\<lambda>_. None),
     integer_list_decode = (\<lambda>_. None), long_list_decode = (\<lambda>_. None), bool_list_decode = (\<lambda>_. None),
     bezier_curve_decode = (\<lambda>_. None), bezier_curves_list_decode = (\<lambda>_. None), cc_print = (\<lambda>_. []), cc_parse = (\<lambda>_. None) \<rparr>"

definition tables_control :: control_env where
  "tables_control = sample_control\<lparr> ctl_prost := null_prost\<lparr>
     request_decode := (\<lambda>_. Some \<lparr> req_id = 1, req_payload = Some (ReqTables ''a'') \<rparr>), reply_encode := (\<lambda>_. [8, 2]) \<rparr> \<rparr>"

theorem client_request_served_witness:
  "fst (request_wait sample_codec (\<lambda>_. True) (ReqTables ''a'') [[8, 3], [8, 2]] (client_new 5)) = Some (RepTables [])"
proof -
  let ?s = "ws_server_new plane_new"
  have rep: "fst (serve_request tables_control 1 (ReqTables ''a'') ?s) = \<lparr> rep_id = 1, rep_payload = Some (RepTables []) \<rparr>"
    by (simp add: serve_request_def reply_with_def ws_server_new_def plane_new_def list_tables_def)
  obtain c1 where begun: "request_begin sample_codec (\<lambda>_. True) (ReqTables ''a'') (client_new 5) = (Some 1, c1)"
    by (simp add: request_begin_def ensure_reader_def client_new_def dispatch_frame_def write_frame_def try_send_def)
  have stale: "\<not> answers_request sample_codec 1 [8, 3]" by (simp add: answers_request_def sample_codec_def)
  have codec: "request_encode sample_codec r = [8, 1]"
    "reply_decode sample_codec [8, 2] = Some \<lparr> rep_id = 1, rep_payload = Some (RepTables []) \<rparr>"
    "request_decode (ctl_prost tables_control) bs = Some \<lparr> req_id = 1, req_payload = Some (ReqTables ''a'') \<rparr>"
    "reply_encode (ctl_prost tables_control) x = [8, 2]" for r bs x
    by (simp_all add: sample_codec_def tables_control_def)
  have "route_binary (tarwyn_host tables_control (\<lambda>_. None)) 0 [8, 1] ?s
      = (ControlReply [8, 2], count_request (snd (serve_request tables_control 1 (ReqTables ''a'') ?s)))
    \<and> fst (request_wait sample_codec (\<lambda>_. True) (ReqTables ''a'') ([[8, 3]] @ [8, 2] # []) (client_new 5))
      = rep_payload (fst (serve_request tables_control 1 (ReqTables ''a'') ?s))"
    by (rule client_request_served [OF begun]) (simp_all only: codec rep list.sel list.distinct not_False_eq_True list.set
        ball_simps stale insert_iff empty_iff simp_thms)
  then show ?thesis by (simp add: rep)
qed

section \<open>The session\<close>

datatype client_op =
    OpSend u64 string nt_value | OpTyped u64 string int bytes | OpStruct string string "(string \<times> string) list" bytes
  | OpRequest request_payload | OpRequestEnd | OpSubscribe string | OpListen string | OpLogListen
  | OpUnsubscribe string u32 nat | OpUnsubscribeLogs u32 nat | OpRead incoming | OpConnect | OpHandOver bool | OpConnectFail | OpLog "wpi_logger option" | OpStart | OpStop

fun client_run :: "client_codec \<Rightarrow> (nat \<Rightarrow> bool) \<Rightarrow> client_op \<Rightarrow> client \<Rightarrow> client" where
  "client_run K sock (OpSend now channel v) c = send_message K sock now channel v c"
| "client_run K sock (OpTyped now channel tag data) c = snd (send_typed_bytes K sock now channel tag data c)"
| "client_run K sock (OpStruct channel type_name schemas packed) c = send_struct K sock channel type_name schemas packed c"
| "client_run K sock (OpRequest p) c = snd (request_begin K sock p c)"
| "client_run K sock OpRequestEnd c = snd (request_end K c)"
| "client_run K sock (OpSubscribe channel) c = snd (subscribe_request K sock channel c)"
| "client_run K sock (OpListen channel) c = snd (add_listener channel c)"
| "client_run K sock OpLogListen c = snd (add_log_listener c)"
| "client_run K sock (OpUnsubscribe channel subuid k) c = unsubscribe K sock channel subuid k c"
| "client_run K sock (OpUnsubscribeLogs subuid k) c = unsubscribe_logs K sock subuid k c"
| "client_run K sock (OpRead m) c = snd (read_round K sock m c)"
| "client_run K sock OpConnect c = snd (reconnect sock c)"
| "client_run K sock (OpHandOver spare) c = hand_over spare c"
| "client_run K sock OpConnectFail c = connect_failed c"
| "client_run K sock (OpLog opened) c = snd (log_to opened c)"
| "client_run K sock OpStart c = client_start c"
| "client_run K sock OpStop c = client_stop c"

inductive client_reachable :: "client_codec \<Rightarrow> (nat \<Rightarrow> bool) \<Rightarrow> client \<Rightarrow> bool" for K sock where
  start: "client_reachable K sock (client_new high_water)"
| op: "client_reachable K sock c \<Longrightarrow> client_reachable K sock (client_run K sock op c)"

text \<open>Every operation leaves the publishers alone or goes through \<open>ensure_pubuid_typed\<close>.\<close>

definition publishes_kept :: "client \<Rightarrow> client \<Rightarrow> bool" where
  "publishes_kept c c' \<longleftrightarrow> c_pubuids c' = c_pubuids c \<and> c_next_pubuid c' = c_next_pubuid c \<and>
     (\<forall>channel. hm_get (c_session c') (publish_key channel) = hm_get (c_session c) (publish_key channel))"

lemma publishes_kept_refl [simp]: "publishes_kept c c"
  by (simp add: publishes_kept_def)

lemma publishes_kept_trans: "publishes_kept a b \<Longrightarrow> publishes_kept b c \<Longrightarrow> publishes_kept a c"
  by (simp add: publishes_kept_def)

lemma publishes_kept_fields:
  "c_pubuids c' = c_pubuids c \<Longrightarrow> c_next_pubuid c' = c_next_pubuid c \<Longrightarrow> c_session c' = c_session c \<Longrightarrow> publishes_kept c c'"
  by (simp add: publishes_kept_def)

lemma dispatch_frame_publishes [simp]:
  "c_pubuids (snd (dispatch_frame sock f c)) = c_pubuids c" "c_next_pubuid (snd (dispatch_frame sock f c)) = c_next_pubuid c"
  "c_session (snd (dispatch_frame sock f c)) = c_session c"
  by (simp_all add: dispatch_frame_def write_frame_def try_send_def)

lemma ensure_reader_publishes [simp]:
  "c_pubuids (ensure_reader c) = c_pubuids c" "c_next_pubuid (ensure_reader c) = c_next_pubuid c"
  "c_session (ensure_reader c) = c_session c"
  by (simp_all add: ensure_reader_def)

lemma drain_frames_publishes:
  "c_pubuids (snd (drain_frames sock fs c)) = c_pubuids c" "c_next_pubuid (snd (drain_frames sock fs c)) = c_next_pubuid c"
  "c_session (snd (drain_frames sock fs c)) = c_session c"
  by (induction fs arbitrary: c) simp_all

lemma send_each_publishes:
  "c_pubuids (snd (send_each sock fs c)) = c_pubuids c" "c_next_pubuid (snd (send_each sock fs c)) = c_next_pubuid c"
  "c_session (snd (send_each sock fs c)) = c_session c" "c_outbound (snd (send_each sock fs c)) = c_outbound c"
  by (induction fs arbitrary: c) simp_all

lemma fan_out_value_publishes:
  "c_pubuids (fan_out_value vm c) = c_pubuids c" "c_next_pubuid (fan_out_value vm c) = c_next_pubuid c"
  "c_session (fan_out_value vm c) = c_session c"
  by (auto simp: fan_out_value_def Let_def split: option.split nt_value.split)

lemma handle_binary_publishes:
  "c_pubuids (handle_binary K f c) = c_pubuids c" "c_next_pubuid (handle_binary K f c) = c_next_pubuid c"
  "c_session (handle_binary K f c) = c_session c"
proof -
  have "c_pubuids (fold fan_out_value vms c) = c_pubuids c \<and> c_next_pubuid (fold fan_out_value vms c) = c_next_pubuid c
      \<and> c_session (fold fan_out_value vms c) = c_session c" for vms c
    by (induction vms arbitrary: c) (simp_all add: fan_out_value_publishes)
  then show "c_pubuids (handle_binary K f c) = c_pubuids c" "c_next_pubuid (handle_binary K f c) = c_next_pubuid c"
    "c_session (handle_binary K f c) = c_session c"
    by (auto simp: handle_binary_def split: sum.split option.split)
qed

lemma handle_text_publishes:
  "c_pubuids (handle_text K t c) = c_pubuids c" "c_next_pubuid (handle_text K t c) = c_next_pubuid c"
  "c_session (handle_text K t c) = c_session c"
  by (auto simp: handle_text_def split: sum.split control_message.split)

lemma answer_ping_publishes:
  "c_pubuids (answer_ping sock payload c) = c_pubuids c" "c_next_pubuid (answer_ping sock payload c) = c_next_pubuid c"
  "c_session (answer_ping sock payload c) = c_session c"
  by (simp_all add: answer_ping_def)

lemmas keeps_publishes = answer_ping_publishes drain_frames_publishes send_each_publishes handle_binary_publishes handle_text_publishes

lemma remember_other: "(\<And>channel. key \<noteq> publish_key channel) \<Longrightarrow> publishes_kept c (remember key f c)"
  unfolding publishes_kept_def remember_def by (simp add: eq_commute [of key])

lemma session_key_other: "session_key subuid \<noteq> publish_key channel" "''schema:'' @ x \<noteq> publish_key channel"
  by (simp_all add: session_key_def publish_key_def)

lemma publish_key_inj [simp]: "publish_key a = publish_key b \<longleftrightarrow> a = b"
  by (simp add: publish_key_def)

lemma unsubscriber_publishes: "publishes_kept c (unsubscriber K sock subuid c)"
  using session_key_other(1) [of subuid, symmetric]
  by (auto simp: publishes_kept_def unsubscriber_def Let_def write_frame_def try_send_def)

definition session_ok :: "client_codec \<Rightarrow> client \<Rightarrow> bool" where
  "session_ok K c \<longleftrightarrow> hm_ok (c_pubuids c) \<and> hm_ok (c_session c) \<and>
     c_next_pubuid c = of_nat (length (c_pubuids c)) \<and>
     (\<forall>channel pubuid. hm_get (c_pubuids c) channel = Some pubuid \<longrightarrow>
        (\<exists>data_type properties. hm_get (c_session c) (publish_key channel)
           = Some (publish_frame K channel pubuid data_type properties))) \<and>
     (length (c_pubuids c) \<le> 2 ^ 32 \<longrightarrow>
        (\<forall>channel pubuid. hm_get (c_pubuids c) channel = Some pubuid \<longrightarrow> unat pubuid < length (c_pubuids c)) \<and>
        (\<forall>a b pubuid. hm_get (c_pubuids c) a = Some pubuid \<and> hm_get (c_pubuids c) b = Some pubuid \<longrightarrow> a = b))"

lemma session_ok_kept: "publishes_kept c c' \<Longrightarrow> hm_ok (c_session c') \<Longrightarrow> session_ok K c \<Longrightarrow> session_ok K c'"
  unfolding session_ok_def publishes_kept_def by (elim conjE) (simp only: simp_thms)

lemma session_ok_fields:
  "c_pubuids c' = c_pubuids c \<Longrightarrow> c_next_pubuid c' = c_next_pubuid c \<Longrightarrow> c_session c' = c_session c \<Longrightarrow> session_ok K c' = session_ok K c"
  unfolding session_ok_def by (simp only:)

lemma session_okD:
  "session_ok K c \<Longrightarrow> hm_ok (c_pubuids c) \<and> hm_ok (c_session c) \<and> c_next_pubuid c = of_nat (length (c_pubuids c))"
  unfolding session_ok_def by (elim conjE) (intro conjI)

lemma ensure_pubuid_ok:
  assumes "session_ok K c"
  shows "session_ok K (snd (ensure_pubuid_typed K sock channel v declared properties c))"
proof (cases "hm_get (c_pubuids c) channel")
  case None
  let ?p = "c_next_pubuid c" and ?f = "publish_frame K channel (c_next_pubuid c) (declared_or_own declared v) properties"
  let ?c = "snd (ensure_pubuid_typed K sock channel v declared properties c)"
  have new: "c_pubuids ?c = hm_insert (c_pubuids c) channel ?p" "c_next_pubuid ?c = ?p + 1"
    "c_session ?c = hm_insert (c_session c) (publish_key channel) ?f"
    by (simp_all add: ensure_pubuid_typed_def None Let_def remember_def)
  have len: "length (c_pubuids ?c) = Suc (length (c_pubuids c))"
    using None unfolding new(1) by (simp add: length_hm_insert)
  have ok: "hm_ok (c_pubuids c)" "hm_ok (c_session c)" "?p = of_nat (length (c_pubuids c))"
    using assms by (auto dest: session_okD)
  have frames: "\<exists>dt ps. hm_get (c_session ?c) (publish_key ch) = Some (publish_frame K ch p dt ps)"
    if "hm_get (c_pubuids ?c) ch = Some p" for ch p
  proof (cases "ch = channel")
    case True
    with that show ?thesis unfolding new by auto
  next
    case False
    with that have "hm_get (c_pubuids c) ch = Some p" unfolding new by simp
    then obtain dt ps where "hm_get (c_session c) (publish_key ch) = Some (publish_frame K ch p dt ps)"
      using assms unfolding session_ok_def by blast
    then show ?thesis unfolding new using False by auto
  qed
  have small: "unat ?p = length (c_pubuids c)" if "length (c_pubuids ?c) \<le> 2 ^ 32"
    unfolding ok(3) by (rule unat_of_nat_small) (use that len in simp)
  have bound: "unat p < length (c_pubuids ?c)" if "length (c_pubuids ?c) \<le> 2 ^ 32" "hm_get (c_pubuids ?c) ch = Some p" for ch p
  proof (cases "ch = channel")
    case True
    with that(2) have "p = ?p" unfolding new by simp
    with small [OF that(1)] show ?thesis by (simp only: len lessI)
  next
    case False
    with that have "hm_get (c_pubuids c) ch = Some p" unfolding new by simp
    with that(1) assms have "unat p < length (c_pubuids c)" unfolding len session_ok_def by (meson Suc_leD)
    then show ?thesis by (simp add: len)
  qed
  have inj: "a = b" if l: "length (c_pubuids ?c) \<le> 2 ^ 32" and a: "hm_get (c_pubuids ?c) a = Some p" and b: "hm_get (c_pubuids ?c) b = Some p" for a b p
  proof -
    have l': "length (c_pubuids c) \<le> 2 ^ 32" using l len by simp
    have old: "unat q < length (c_pubuids c)" if "hm_get (c_pubuids c) ch = Some q" for ch q
      using that l' assms unfolding session_ok_def by blast
    have "x = channel \<longleftrightarrow> p = ?p" if "hm_get (c_pubuids ?c) x = Some p" for x
      using that old [of x p] small [OF l] unfolding new by (auto split: if_splits)
    then have ab: "a = channel \<longleftrightarrow> b = channel" using a b by blast
    show ?thesis
    proof (cases "a = channel")
      case False
      then have "hm_get (c_pubuids c) a = Some p" "hm_get (c_pubuids c) b = Some p" using a b ab unfolding new by simp_all
      then show ?thesis using l' assms unfolding session_ok_def by blast
    qed (use ab in simp)
  qed
  have nextp: "c_next_pubuid ?c = of_nat (length (c_pubuids ?c))" unfolding len new(2) ok(3) by simp
  have maps: "hm_ok (c_pubuids ?c)" "hm_ok (c_session ?c)" unfolding new(1,3) using ok(1,2) by (simp_all del: hm_get_insert)
  show ?thesis
    unfolding session_ok_def
    by (intro conjI allI impI maps nextp; (elim conjE)?; (rule frames | rule bound | rule inj); assumption)
qed (use assms in \<open>simp add: ensure_pubuid_typed_def\<close>)

lemma publish_typed_ok: "session_ok K c \<Longrightarrow> session_ok K (snd (publish_typed K sock channel k declared properties c))"
proof -
  assume "session_ok K c"
  then have "session_ok K (ensure_reader c)" using session_ok_fields [OF ensure_reader_publishes] by blast
  from ensure_pubuid_ok [OF this, of sock channel "value_of_kind (cc_prost K) k" declared properties] show ?thesis
    unfolding publish_typed_def Let_def case_prod_beta snd_conv
    by (rule iffD2 [OF session_ok_fields [OF dispatch_frame_publishes]])
qed

lemma record_value_publishes:
  "c_pubuids (record_value K now channel v c) = c_pubuids c" "c_next_pubuid (record_value K now channel v c) = c_next_pubuid c"
  "c_session (record_value K now channel v c) = c_session c"
  by (simp_all add: record_value_def)

lemma client_drop_publishes:
  "c_pubuids (client_drop c) = c_pubuids c" "c_next_pubuid (client_drop c) = c_next_pubuid c"
  "c_session (client_drop c) = c_session c"
  by (simp_all add: client_drop_def)

lemma send_message_ok: "session_ok K c \<Longrightarrow> session_ok K (send_message K sock now channel v c)"
proof -
  assume "session_ok K c"
  then have "session_ok K (ensure_reader (record_value K now channel v c))"
    using session_ok_fields [OF ensure_reader_publishes] session_ok_fields [OF record_value_publishes] by blast
  from ensure_pubuid_ok [OF this, of sock channel v None "[]"] show ?thesis
    unfolding send_message_def Let_def case_prod_beta
    using session_ok_fields [OF client_drop_publishes] session_ok_fields [OF dispatch_frame_publishes] by (simp only: split: if_split) simp
qed

lemma remember_ok: "(\<And>channel. key \<noteq> publish_key channel) \<Longrightarrow> session_ok K c \<Longrightarrow> session_ok K (remember key f c)"
  using session_okD by (intro session_ok_kept [OF remember_other]) (simp_all add: remember_def)

lemma send_schema_ok: "session_ok K c \<Longrightarrow> session_ok K (send_schema K sock schema c)"
  unfolding send_schema_def Let_def case_prod_beta
  by (cases "hm_has (c_pubuids c) (''/.schema/'' @ fst schema)")
    (simp_all only: if_True if_False remember_ok publish_typed_ok session_key_other not_False_eq_True)

lemma send_struct_ok: "session_ok K c \<Longrightarrow> session_ok K (send_struct K sock channel type_name schemas packed c)"
proof -
  have "session_ok K c \<Longrightarrow> session_ok K (fold (send_schema K sock) schemas c)" for schemas c
    by (induction schemas arbitrary: c) (simp_all add: send_schema_ok)
  then show "session_ok K c \<Longrightarrow> ?thesis" by (simp add: send_struct_def publish_typed_ok)
qed

lemma drain_outbound_ok: "session_ok K (snd (drain_outbound sock c)) = session_ok K c"
  unfolding drain_outbound_def by (rule session_ok_fields [OF drain_frames_publishes])

lemma read_round_ok: "session_ok K (snd (read_round K' sock m c)) = session_ok K c"
  using drain_outbound_ok [of K sock c] session_ok_fields [OF handle_binary_publishes] session_ok_fields [OF handle_text_publishes]
    session_ok_fields [OF answer_ping_publishes]
  unfolding read_round_def case_prod_beta
  by (cases "fst (drain_outbound sock c)"; cases m) simp_all

lemma reconnect_ok: "session_ok K (snd (reconnect sock c)) = session_ok K c"
proof -
  let ?c = "c\<lparr> c_writer := False, c_wire := [], c_topic_names := [] \<rparr>"
  have "session_ok K ?c = session_ok K c" by (rule session_ok_fields) simp_all
  moreover have "session_ok K (snd (replay_session sock ?c)) = session_ok K ?c"
    unfolding replay_session_def by (rule session_ok_fields [OF send_each_publishes(1-3)])
  ultimately show ?thesis
    using drain_outbound_ok [of K sock "snd (replay_session sock ?c)"] unfolding reconnect_def Let_def case_prod_beta
    by (cases "fst (replay_session sock ?c)") simp_all
qed

lemma unsubscriber_ok: "session_ok K c \<Longrightarrow> session_ok K (unsubscriber K' sock subuid c)"
proof (rule session_ok_kept [OF unsubscriber_publishes])
  assume "session_ok K c"
  then have "hm_ok (hm_remove (c_session c) (session_key subuid))" by (simp add: session_okD)
  then show "hm_ok (c_session (unsubscriber K' sock subuid c))"
    by (simp add: unsubscriber_def Let_def write_frame_def try_send_def)
qed

lemma request_begin_ok: "session_ok K (snd (request_begin K' sock p c)) = session_ok K c"
  by (rule session_ok_fields) (simp_all add: request_begin_def Let_def case_prod_beta client_drop_def)

lemma request_end_ok: "session_ok K (snd (request_end K' c)) = session_ok K c"
  by (rule session_ok_fields; cases "c_reply c") (simp_all add: request_end_def)

lemma subscribe_request_ok: "session_ok K c \<Longrightarrow> session_ok K (snd (subscribe_request K' sock channel c))"
proof -
  assume "session_ok K c"
  then have "session_ok K ((ensure_reader c)\<lparr> c_next_subuid := c_next_subuid (ensure_reader c) + 1 \<rparr>)"
    by (subst session_ok_fields [of _ c]) simp_all
  then show ?thesis
    unfolding subscribe_request_def Let_def snd_conv
    by (intro iffD2 [OF session_ok_fields [OF dispatch_frame_publishes]] remember_ok session_key_other)
qed

lemma listeners_ok:
  "session_ok K (snd (add_listener channel c)) = session_ok K c" "session_ok K (snd (add_log_listener c)) = session_ok K c"
  "session_ok K (remove_listener channel k c) = session_ok K c"
  "session_ok K (c\<lparr> c_log_listeners := ks \<rparr>) = session_ok K c"
  by (rule session_ok_fields; simp add: add_listener_def add_log_listener_def remove_listener_def Let_def split: option.split)+

lemma running_ok:
  "session_ok K (client_start c) = session_ok K c" "session_ok K (client_stop c) = session_ok K c"
  "session_ok K (connect_failed c) = session_ok K c" "session_ok K (hand_over spare c) = session_ok K c"
  "session_ok K (snd (log_to opened c)) = session_ok K c"
  by (rule session_ok_fields; simp split: sum.split option.split add: log_to_def hand_over_def client_start_def client_stop_def connect_failed_def drain_outbound_dropped_def)+

lemma client_run_ok: "session_ok K c \<Longrightarrow> session_ok K (client_run K sock op c)"
proof (cases op)
  case (OpTyped now channel tag data)
  then show "session_ok K c \<Longrightarrow> ?thesis"
    by (cases "decode_tarwyn_type K tag data") (simp_all add: send_typed_bytes_def send_message_ok)
qed (simp_all add: send_message_ok send_struct_ok request_begin_ok request_end_ok subscribe_request_ok listeners_ok
  unsubscribe_def unsubscribe_logs_def Let_def unsubscriber_ok read_round_ok reconnect_ok running_ok)

lemma client_new_ok: "session_ok K (client_new high_water)"
  by (simp add: session_ok_def client_new_def)

lemma client_reachable_ok: "client_reachable K sock c \<Longrightarrow> session_ok K c"
  by (induction rule: client_reachable.induct) (simp_all add: client_new_ok client_run_ok)

text \<open>A subscription stays in the session until it is ended, or its number is used again.\<close>

lemma session_key_inj [simp]: "session_key a = session_key b \<longleftrightarrow> a = b"
  by (simp add: session_key_def word_unat_eq_iff)

definition ends_subscription :: "u32 \<Rightarrow> client_op \<Rightarrow> bool" where
  "ends_subscription subuid op \<longleftrightarrow> (\<exists>channel k. op = OpUnsubscribe channel subuid k) \<or> (\<exists>k. op = OpUnsubscribeLogs subuid k)"

lemma ensure_pubuid_subscription:
  "hm_get (c_session (snd (ensure_pubuid_typed K sock channel v declared properties c))) (session_key subuid)
     = hm_get (c_session c) (session_key subuid)"
  using session_key_other(1) [of subuid channel]
  by (simp add: ensure_pubuid_typed_def Let_def remember_def split: option.split)

lemma publish_typed_subscription:
  "hm_get (c_session (snd (publish_typed K sock channel k declared properties c))) (session_key subuid)
     = hm_get (c_session c) (session_key subuid)"
  by (simp add: publish_typed_def Let_def case_prod_beta ensure_pubuid_subscription)

lemma schema_key_other: "session_key subuid \<noteq> ''schema:'' @ x"
  by (simp add: session_key_def)

lemma send_schema_subscription:
  "hm_get (c_session (send_schema K sock schema c)) (session_key subuid) = hm_get (c_session c) (session_key subuid)"
  unfolding send_schema_def Let_def case_prod_beta remember_def
  by (cases "hm_has (c_pubuids c) (''/.schema/'' @ fst schema)")
    (simp_all add: publish_typed_subscription schema_key_other del: append_Cons)

lemma send_struct_subscription:
  "hm_get (c_session (send_struct K sock channel type_name schemas packed c)) (session_key subuid)
     = hm_get (c_session c) (session_key subuid)"
proof -
  have "hm_get (c_session (fold (send_schema K sock) schemas c)) (session_key subuid)
      = hm_get (c_session c) (session_key subuid)" for schemas c
    by (induction schemas arbitrary: c) (simp_all add: send_schema_subscription)
  then show ?thesis by (simp add: send_struct_def publish_typed_subscription)
qed

lemma send_message_subscription:
  "hm_get (c_session (send_message K sock now channel v c)) (session_key subuid) = hm_get (c_session c) (session_key subuid)"
  by (simp add: send_message_def Let_def case_prod_beta client_drop_def ensure_pubuid_subscription record_value_publishes)

lemma drain_outbound_session: "c_session (snd (drain_outbound sock c)) = c_session c"
  by (simp add: drain_outbound_def drain_frames_publishes)

lemma read_round_session: "c_session (snd (read_round K sock m c)) = c_session c"
  using drain_outbound_session [of sock c] unfolding read_round_def case_prod_beta
  by (cases "fst (drain_outbound sock c)"; cases m) (simp_all add: keeps_publishes)

lemma reconnect_session: "c_session (snd (reconnect sock c)) = c_session c"
  by (simp add: reconnect_def replay_session_def Let_def case_prod_beta drain_outbound_session send_each_publishes split: bool.split)

lemma unsubscriber_session: "c_session (unsubscriber K sock subuid c) = hm_remove (c_session c) (session_key subuid)"
  by (simp add: unsubscriber_def Let_def write_frame_def try_send_def)

lemma subscribe_request_session:
  "c_session (snd (subscribe_request K sock channel c))
     = hm_insert (c_session c) (session_key (c_next_subuid c)) (subscribe_frame K channel (c_next_subuid c))"
  by (simp add: subscribe_request_def Let_def remember_def ensure_reader_def)

lemma other_sessions:
  "c_session (snd (request_begin K sock p c)) = c_session c" "c_session (snd (request_end K c)) = c_session c"
  "c_session (snd (add_listener channel c)) = c_session c" "c_session (snd (add_log_listener c)) = c_session c"
  "c_session (remove_listener channel k c) = c_session c" "c_session (connect_failed c) = c_session c"
  "c_session (hand_over spare c) = c_session c" "c_session (snd (log_to opened c)) = c_session c"
  "c_session (client_start c) = c_session c" "c_session (client_stop c) = c_session c"
  by (simp_all add: hand_over_def request_begin_def request_end_def Let_def case_prod_beta client_drop_def add_listener_def add_log_listener_def
      remove_listener_def connect_failed_def drain_outbound_dropped_def client_start_def client_stop_def log_to_def split: option.split sum.split)

lemma subscription_kept:
  assumes "hm_get (c_session c) (session_key subuid) = Some f" and "\<not> ends_subscription subuid op" and "c_next_subuid c \<noteq> subuid"
  shows "hm_get (c_session (client_run K sock op c)) (session_key subuid) = Some f"
  using assms
proof (cases op)
  case (OpTyped now channel tag data)
  then show ?thesis using assms(1)
    by (cases "decode_tarwyn_type K tag data") (simp_all add: send_typed_bytes_def send_message_subscription)
qed (auto simp: send_message_subscription send_struct_subscription read_round_session reconnect_session
  subscribe_request_session other_sessions unsubscribe_def unsubscribe_logs_def Let_def unsubscriber_session ends_subscription_def)

lemma send_each_sent:
  "send_each sock frames c = (True, c') \<Longrightarrow> c' = c\<lparr> c_wire := c_wire c @ frames, c_sends := c_sends c + length frames \<rparr>"
proof (induction frames arbitrary: c)
  case (Cons a frames)
  then have "send_each sock frames (c\<lparr> c_wire := c_wire c @ [a], c_sends := c_sends c + 1 \<rparr>) = (True, c')"
    by (simp split: if_splits)
  from Cons.IH [OF this] show ?case by simp
qed simp

lemma drain_frames_sent:
  "drain_frames sock frames c = (True, c') \<Longrightarrow>
     c' = c\<lparr> c_wire := c_wire c @ frames, c_sends := c_sends c + length frames, c_outbound := [] \<rparr>"
proof (induction frames arbitrary: c)
  case (Cons a frames)
  then have "drain_frames sock frames (c\<lparr> c_wire := c_wire c @ [a], c_sends := c_sends c + 1 \<rparr>) = (True, c')"
    by (simp split: if_splits)
  from Cons.IH [OF this] show ?case by simp
qed simp

lemma all_sent:
  "(\<And>n. sock n) \<Longrightarrow> fst (send_each sock frames c)" "(\<And>n. sock n) \<Longrightarrow> fst (drain_frames sock frames c)"
  by (induction frames arbitrary: c) simp_all

lemma reconnect_all_sent: "(\<And>n. sock n) \<Longrightarrow> fst (reconnect sock c)"
  by (simp add: reconnect_def replay_session_def drain_outbound_def Let_def case_prod_beta all_sent)

lemma reconnect_sent:
  assumes "reconnect sock c = (True, c')"
  shows "c' = c\<lparr> c_writer := False, c_wire := map snd (c_session c) @ c_outbound c, c_topic_names := [],
    c_sends := c_sends c + length (c_session c) + length (c_outbound c), c_outbound := [] \<rparr>"
proof -
  let ?c = "c\<lparr> c_writer := False, c_wire := [], c_topic_names := [] \<rparr>"
  obtain c1 where r: "send_each sock (map snd (c_session c)) ?c = (True, c1)"
    and d: "drain_frames sock (c_outbound c1) c1 = (True, c')"
    using assms by (auto simp: reconnect_def replay_session_def drain_outbound_def Let_def split: prod.splits bool.splits)
  show ?thesis using send_each_sent [OF r] drain_frames_sent [OF d] by simp
qed

text \<open>C13. A new connection hears the session first.  Whatever a client did before (publishing, asking,
  subscribing, losing connections), once a connection is up what has gone out on it is the session, then
  the queue: the publish of every channel the client publishes, under the number its values carry and
  that no other channel has while there are at most 2 to the 32 of them, and the queued frames in the
  order they were queued behind all of them; nothing stays queued.\<close>

theorem session_replayed:
  assumes "client_reachable K sock c" and "reconnect sock c = (True, c')"
  shows "c_wire c' = map snd (c_session c) @ c_outbound c \<and> c_outbound c' = [] \<and> c_pubuids c' = c_pubuids c
    \<and> (\<forall>channel pubuid. hm_get (c_pubuids c) channel = Some pubuid \<longrightarrow>
         (\<exists>data_type properties. publish_frame K channel pubuid data_type properties \<in> set (map snd (c_session c)))
         \<and> (length (c_pubuids c) \<le> 2 ^ 32 \<longrightarrow> (\<forall>other. hm_get (c_pubuids c) other = Some pubuid \<longrightarrow> other = channel)))"
proof -
  have ok: "session_ok K c" using assms(1) by (rule client_reachable_ok)
  have published: "\<exists>data_type properties. publish_frame K channel pubuid data_type properties \<in> set (map snd (c_session c))"
    if p: "hm_get (c_pubuids c) channel = Some pubuid" for channel pubuid
  proof -
    obtain dt ps where "hm_get (c_session c) (publish_key channel) = Some (publish_frame K channel pubuid dt ps)"
      using ok p unfolding session_ok_def by blast
    then have "(publish_key channel, publish_frame K channel pubuid dt ps) \<in> set (c_session c)" by (rule map_of_SomeD)
    then have "publish_frame K channel pubuid dt ps \<in> set (map snd (c_session c))" by force
    then show ?thesis by blast
  qed
  moreover have "other = channel"
    if "hm_get (c_pubuids c) channel = Some pubuid" "length (c_pubuids c) \<le> 2 ^ 32" "hm_get (c_pubuids c) other = Some pubuid"
    for channel pubuid other
    using ok that unfolding session_ok_def by blast
  ultimately show ?thesis unfolding reconnect_sent [OF assms(2)] by simp
qed

definition two_published :: client where
  "two_published = client_run sample_codec (\<lambda>_. True) (OpSend 0 ''b'' (VBool True))
     (client_run sample_codec (\<lambda>_. True) (OpSend 0 ''a'' (VBool False)) (client_new 5))"

theorem session_replayed_witness:
  "c_wire (snd (reconnect (\<lambda>_. True) two_published))
     = map snd (c_session two_published) @ c_outbound two_published \<and> map fst (c_pubuids two_published) = [''a'', ''b'']"
proof -
  have "client_reachable sample_codec (\<lambda>_. True) two_published"
    unfolding two_published_def by (intro client_reachable.intros)
  moreover have "reconnect (\<lambda>_. True) two_published = (True, snd (reconnect (\<lambda>_. True) two_published))"
    using reconnect_all_sent [of "\<lambda>_. True" two_published] by (simp add: prod_eq_iff)
  ultimately have "c_wire (snd (reconnect (\<lambda>_. True) two_published))
     = map snd (c_session two_published) @ c_outbound two_published" by (rule session_replayed [THEN conjunct1])
  moreover have "map fst (c_pubuids two_published) = [''a'', ''b'']"
    by (simp add: two_published_def send_message_def Let_def case_prod_beta client_drop_def record_value_publishes
        ensure_pubuid_typed_def client_new_def remember_def hm_insert_def)
  ultimately show ?thesis by blast
qed

section \<open>Two ways a publish misses the server\<close>

lemmas client_steps = client_start_def ensure_reader_def reconnect_def hand_over_def replay_session_def drain_outbound_def
  send_message_def record_value_def ensure_pubuid_typed_def remember_def dispatch_frame_def write_frame_def try_send_def
  client_drop_def declared_or_own_def read_round_def client_new_def hm_insert_def

text \<open>A frame queued between the drain and the hand-over is overtaken by the next frame, which is written
  directly: here the second value of a channel goes out before the channel's publish and first value.\<close>

lemma handover_overtakes:
  fixes K :: client_codec
  defines "run \<equiv> fold (client_run K (\<lambda>_. True))"
  shows "c_wire (run [OpStart, OpConnect, OpSend 0 ''a'' (VBool True), OpHandOver True, OpSend 0 ''a'' (VBool False), OpRead InTimeout]
      (client_new 5)) = [encode_once (VBool False) 0 0, publish_frame K ''a'' 0 ''boolean'' [], encode_once (VBool True) 0 0]"
  unfolding run_def by (simp add: client_steps SERVER_TIME_def type_string_def split_def Let_def)

text \<open>Without a duplicated socket every frame is queued; a publish that finds the queue full is dropped and
  not counted, and the values that follow carry a number the server was never told.\<close>

lemma publish_lost_uncounted:
  fixes K :: client_codec
  defines "run \<equiv> fold (client_run K (\<lambda>_. True))"
  defines "c \<equiv> run [OpStart, OpConnect, OpHandOver False, OpSend 0 ''a'' (VBool True), OpSend 0 ''b'' (VBool True), OpRead InTimeout,
      OpSend 0 ''b'' (VBool True), OpRead InTimeout] (client_new 1)"
  shows "c_wire c = [publish_frame K ''a'' 0 ''boolean'' [], encode_once (VBool True) 0 1] \<and> c_dropped c = 2"
  unfolding c_def run_def by (simp add: client_steps SERVER_TIME_def type_string_def split_def Let_def)

end
