(* ===== verification/Publish_Path.thy ===== *)
theory Publish_Path
  imports Client_Props
begin

text \<open>
  The way of a value from one client to another through the server: the frames \<open>send_message\<close> writes,
  what the server's registry and read cache hold after routing them, and what a read of the channel
  returns.
\<close>

section \<open>What a publish leaves in the registry\<close>

text \<open>A topic, the publishers' numbers and the name index, as every meta update leaves them.\<close>

definition keeps_topic :: "nat \<Rightarrow> nt_registry \<Rightarrow> nt_registry \<Rightarrow> bool" where
  "keeps_topic i r r' \<longleftrightarrow> hm_get (topics r') i = hm_get (topics r) i
     \<and> (\<forall>c pubuid. topic_id_for_pubuid c pubuid r' = topic_id_for_pubuid c pubuid r)"

lemma keeps_topic_refl [simp]: "keeps_topic i r r"
  by (simp add: keeps_topic_def)

lemma keeps_topic_trans: "keeps_topic i r s \<Longrightarrow> keeps_topic i s t \<Longrightarrow> keeps_topic i r t"
  by (simp add: keeps_topic_def)

lemma announce_to_matching_keeps:
  assumes "hm_get (topics r) j = Some t" and "t_name t = name"
  shows "keeps_topic i r (snd (announce_to_matching E j name r))"
proof -
  let ?r = "r\<lparr> clients := hm_map (\<lambda>st. st\<lparr> subs := hm_map (note_match j name) (subs st) \<rparr>) (clients r) \<rparr>"
  have "clients (snd (announce_to_matching E j name r)) = clients ?r"
    using announce_each_frame [of E j "match_targets name (clients r)" ?r] by (simp add: announce_to_matching_def)
  then have "topic_id_for_pubuid c pubuid (snd (announce_to_matching E j name r)) = topic_id_for_pubuid c pubuid r" for c pubuid
    by (cases "hm_get (clients r) c") (simp_all add: topic_id_for_pubuid_def)
  then show ?thesis using announce_to_matching_steps(2) [OF assms, of E] by (simp add: keeps_topic_def)
qed

lemma insert_topic_keeps:
  assumes "registry_ok r" and "insert_topic t r = (j, r1)" and "hm_has (topics r) i"
  shows "keeps_topic i r r1"
  using insert_topic_new [OF assms(1,2)] assms(3) by (auto simp: keeps_topic_def topic_id_for_pubuid_def)

lemma handle_topic_value_keeps: "i \<noteq> j \<Longrightarrow> keeps_topic i r (snd (handle_topic_value j v ts r))"
  by (auto simp: keeps_topic_def topic_id_for_pubuid_def handle_topic_value_frame(1))
    (auto simp: handle_topic_value_def Let_def split: option.split)

lemma publish_meta_keeps:
  assumes ok: "registry_ok r" and t: "hm_get (topics r) i = Some t" and "t_name t \<noteq> name"
  shows "keeps_topic i r (snd (publish_meta E name maps r))"
proof -
  obtain j routes r1 where m: "ensure_meta_topic E name r = (j, routes, r1)" by (metis prod_cases3)
  have "keeps_topic i r r1 \<and> i \<noteq> j"
  proof (cases "hm_get (by_name r) name")
    case (Some k)
    moreover from this have "k \<noteq> i" using ok t assms(3) by (auto simp: registry_ok_def names_ok_def)
    ultimately show ?thesis using m by (simp add: ensure_meta_topic_def)
  next
    case None
    let ?t = "\<lparr> t_name = name, t_data_type = 5, t_type_str = ''msgpack'', t_properties = [],
       t_current = None, t_publishers = 0, t_retained = True, t_cached = True, t_persistent = False \<rparr>"
    obtain k r0 where ins: "insert_topic ?t r = (k, r0)" by fastforce
    note new = insert_topic_new [OF ok ins]
    have "j = k" "r1 = snd (announce_to_matching E k name r0)" using m None ins by (auto simp: ensure_meta_topic_def)
    moreover have "i \<noteq> k" using t new(8) by auto
    ultimately show ?thesis
      using keeps_topic_trans [OF insert_topic_keeps [OF ok ins] announce_to_matching_keeps [OF new(1)]] t by simp
  qed
  moreover have "keeps_topic i r1 (r1\<lparr> clock_reads := n \<rparr>)" for n by (simp add: keeps_topic_def topic_id_for_pubuid_def)
  ultimately have "keeps_topic i r r1" "keeps_topic i r (snd (handle_topic_value j v ts (r1\<lparr> clock_reads := n \<rparr>)))" for v ts n
    using handle_topic_value_keeps [of i j "r1\<lparr> clock_reads := n \<rparr>" v ts] by (blast intro: keeps_topic_trans)+
  then show ?thesis by (simp add: publish_meta_def m now_micros_def split: sum.split)
qed

lemma update_meta_keeps:
  assumes "registry_ok r" and "hm_get (topics r) i = Some t" and "\<not> is_meta_topic (t_name t)"
  shows "keeps_topic i r (snd (update_meta_clientpub E c r))" "keeps_topic i r (snd (update_meta_pub E name r))"
proof -
  have "t_name t \<noteq> ''$clientpub$'' @ x" "t_name t \<noteq> ''$pub$'' @ x" for x
    using assms(3) by (auto simp: is_meta_topic_def starts_with_def)
  then have "keeps_topic i r (snd (publish_meta E (''$clientpub$'' @ x) maps r))"
    "keeps_topic i r (snd (publish_meta E (''$pub$'' @ x) maps r))" for x maps
    by (blast intro: publish_meta_keeps [OF assms(1,2)])+
  then show "keeps_topic i r (snd (update_meta_clientpub E c r))" "keeps_topic i r (snd (update_meta_pub E name r))"
    unfolding update_meta_clientpub_def update_meta_pub_def by (auto split: option.split simp del: append_Cons)
qed

text \<open>The topic a publish of a new name creates.\<close>

definition created_topic :: "string \<Rightarrow> string \<Rightarrow> jmap \<Rightarrow> topic_state" where
  "created_topic name type_str properties = sync_properties
     \<lparr> t_name = name, t_data_type = data_type_from_string type_str, t_type_str = type_str, t_properties = properties,
       t_current = None, t_publishers = 1, t_retained = False, t_cached = True, t_persistent = False \<rparr>"

lemma publish_registers:
  assumes ok: "registry_ok r" and new: "hm_get (by_name r) name = None" "length (topics r) < MAX_TOPICS"
    and cap: "\<not> at_cap (pubs (client_of c r)) pubuid" and fresh: "topic_id_for_pubuid c pubuid r = None" and meta: "\<not> is_meta_topic name"
  obtains i where "hm_get (topics (snd (handle_publish E c name pubuid type_str properties r))) i = Some (created_topic name type_str properties)"
    and "topic_id_for_pubuid c pubuid (snd (handle_publish E c name pubuid type_str properties r)) = Some i"
    and "\<And>d cs u sub. hm_get (clients r) d = Some cs \<Longrightarrow> hm_get (subs cs) u = Some sub \<Longrightarrow> sub_visible_to sub name \<Longrightarrow>
        sub_matches sub name \<Longrightarrow> \<not> s_topics_only sub \<Longrightarrow> d \<noteq> c \<Longrightarrow>
        (d, Text (announce_json E i None (snd (handle_publish E c name pubuid type_str properties r))))
            \<in> set (fst (handle_publish E c name pubuid type_str properties r))
        \<and> d \<in> set (list_of (topic_subscribers (snd (handle_publish E c name pubuid type_str properties r))) i)"
proof -
  let ?r0 = "ensure_client c r" and ?h = "handle_publish E c name pubuid type_str properties r"
  have ok0: "registry_ok ?r0" using registry_ok_step [OF reg_step.client ok] .
  have r0: "hm_get (by_name ?r0) name = None" "\<not> at_cap (pubs (client_of c ?r0)) pubuid" "hm_has (clients ?r0) c"
    "hm_get (pubs (client_of c ?r0)) pubuid = None" "length (topics ?r0) < MAX_TOPICS"
    using new cap fresh
    by (auto simp: ensure_client_def client_of_def topic_id_for_pubuid_def client_default_def split: option.splits)
  have room: "\<not> (hm_get (by_name ?r0) name = None \<and> length (topics ?r0) \<ge> MAX_TOPICS)" using r0(5) by simp
  obtain is_new i r1 prev r3 r4 p5 p6 where
    entry: "(case hm_get (by_name ?r0) name of Some i \<Rightarrow> (False, i, ?r0)
        | None \<Rightarrow> (True, publish_topic name type_str properties ?r0)) = (is_new, i, r1)"
    and prev: "prev = hm_get (pubs (client_of c r1)) pubuid"
    and r3: "r3 = (let s = update_client c (\<lambda>cs. cs\<lparr> pubs := hm_insert (pubs cs) pubuid i \<rparr>) r1 in
           if prev \<noteq> Some i
           then s\<lparr> topics := hm_modify (topics s) i (\<lambda>t. t\<lparr> t_publishers := t_publishers t + 1 \<rparr>) \<rparr> else s)"
    and r4: "r4 = snd (add_announced c i r3)"
    and p5: "p5 = (let p = ([(c, Text (announce_json E i (Some pubuid) r4))], r4)
               in if is_new then Nt_Registry.extend p (announce_to_matching E i name) else p)"
    and p6: "p6 = (case prev of Some old \<Rightarrow> if old \<noteq> i then Nt_Registry.extend p5 (release_publisher E old) else p5
               | None \<Rightarrow> p5)"
    and h: "?h = Nt_Registry.extend (Nt_Registry.extend p6 (update_meta_clientpub E c)) (update_meta_pub E name)"
    and steps: "reg_steps r r4"
    by (rule handle_publish_shape [OF ok r0(2) room])
  have pt: "publish_topic name type_str properties ?r0 = (i, r1)" and is_new: is_new using entry r0(1) by auto
  let ?t = "created_topic name type_str properties"
  have t1: "hm_get (topics r1) i = Some (?t\<lparr> t_publishers := 0 \<rparr>)" "clients r1 = clients ?r0"
    using pt insert_topic_new [OF ok0] by (auto simp: publish_topic_def created_topic_def sync_properties_def Let_def split: prod.splits)
  have none: "prev = None" using r0(4) by (simp add: prev client_of_cong [OF t1(2)])
  have t4: "hm_get (topics r4) i = Some ?t" "topic_id_for_pubuid c pubuid r4 = Some i"
    using t1 none r0(3) by (auto simp: r4 r3 add_announced_def update_client_def topic_id_for_pubuid_def created_topic_def
        sync_properties_def Let_def)
  have named: "t_name ?t = name" by (simp add: created_topic_def sync_properties_def)
  have p6': "snd p6 = snd (announce_to_matching E i name r4)" using is_new none by (simp add: p6 p5 Let_def)
  have ok4: "registry_ok r4" using reg_steps_ok [OF steps ok] .
  have k6: "keeps_topic i r4 (snd p6)" and ok6: "registry_ok (snd p6)"
    unfolding p6' using announce_to_matching_keeps [OF t4(1) named] reg_steps_ok [OF announce_to_matching_steps(1) [OF t4(1) named] ok4]
    by blast+
  let ?r7 = "snd (update_meta_clientpub E c (snd p6))"
  have t6: "hm_get (topics (snd p6)) i = Some ?t" using k6 t4(1) by (simp add: keeps_topic_def)
  have k7: "keeps_topic i (snd p6) ?r7" using update_meta_keeps(1) [OF ok6 t6] named meta by simp
  have ok7: "registry_ok ?r7" using reg_steps_ok [OF update_meta_steps(2) [OF ok6] ok6] .
  have t7: "hm_get (topics ?r7) i = Some ?t" using k7 t6 by (simp add: keeps_topic_def)
  have "keeps_topic i ?r7 (snd ?h)" using update_meta_keeps(2) [OF ok7 t7] named meta by (simp add: h)
  with k6 k7 have kept: "keeps_topic i r4 (snd ?h)" by (blast intro: keeps_topic_trans)
  have fan: "list_of (topic_subscribers (snd ?h)) i = list_of (topic_subscribers (snd p6)) i"
    using update_meta_fan_out(1) [OF ok6, of i E c] update_meta_fan_out(3) [OF ok7, of i E name] t6 t7
    by (simp add: keeps_fan_out_def h)
  have json: "announce_json E i None (snd ?h) = announce_json E i None r4"
    using kept by (simp add: announce_json_def keeps_topic_def)
  have announced: "list_of (topic_announced r4) i = [c]"
    using publish_topic_new(3) [OF ok0 pt] by (auto simp: r4 r3 add_announced_def update_client_def Let_def list_of_def)
  have "clients r4 = hm_modify (clients ?r0) c (\<lambda>cs. cs\<lparr> pubs := hm_insert (pubs cs) pubuid i \<rparr>)"
    using t1(2) by (auto simp: r4 r3 add_announced_def update_client_def Let_def)
  then have others: "hm_get (clients r4) d = Some cs" if "hm_get (clients r) d = Some cs" "d \<noteq> c" for d cs
    using that by (simp add: ensure_client_def)
  have routes: "set (fst (announce_to_matching E i name r4)) \<subseteq> set (fst ?h)" using is_new none by (auto simp: h p6 p5 Let_def)
  show thesis
  proof (rule that)
    show "hm_get (topics (snd ?h)) i = Some ?t" "topic_id_for_pubuid c pubuid (snd ?h) = Some i"
      using t4 kept by (simp_all add: keeps_topic_def)
    fix d cs u sub
    assume "hm_get (clients r) d = Some cs" "hm_get (subs cs) u = Some sub" "sub_visible_to sub name" "sub_matches sub name"
      "\<not> s_topics_only sub" "d \<noteq> c"
    with announce_to_matching_reaches [OF t4(1), where d = d and cs = cs and E = E and name = name] announced others routes
    show "(d, Text (announce_json E i None (snd ?h))) \<in> set (fst ?h) \<and> d \<in> set (list_of (topic_subscribers (snd ?h)) i)"
      by (fastforce simp: fan p6' json)
  qed
qed

section \<open>Routing what a client writes\<close>

lemma bracket_not_value: "\<exists>e. vm_decode_all (0x5b # bs) = Inl e"
proof -
  have "decode_array (0x5b # bs) = Err NotAnArray"
    by (simp add: decode_array_def decode_array_at.simps split_first_def MAX_DEPTH_def)
  then show ?thesis by (simp add: vm_decode_all_def vm_decode_loop.simps vm_decode_one_def)
qed

lemma text_routed:
  assumes "is_str doc" and "doc \<noteq> []" "hd doc = CHR ''[''" and "request_decode (ctl_prost C) (str_bytes doc) = None"
  shows "route_binary (tarwyn_host C parse) d (str_bytes doc) s
    = (let (out, r) = route_text (tarwyn_host C parse) d doc (ws_registry s) in (out, s\<lparr> ws_registry := r \<rparr>))"
proof -
  obtain rest where "doc = CHR ''['' # rest" using assms(2,3) by (cases doc) auto
  then have "\<exists>e. vm_decode_all (str_bytes doc) = Inl e" using bracket_not_value [of "str_bytes rest"] by (simp add: str_bytes_def)
  then show ?thesis
    using assms(1,4) by (auto simp: route_binary_def tarwyn_host_def control_handler_def from_utf8_str_bytes)
qed

lemma message_routed:
  assumes "doc = pr (JArray [to_value m])"
    and "is_str doc" "doc \<noteq> []" "hd doc = CHR ''[''" and "request_decode (ctl_prost C) (str_bytes doc) = None"
    and "parse doc = Some (JArray [to_value m])"
    and "\<And>r. route_control (ctl_env C) d m r = map_prod Dispatch id (h r)"
  shows "route_binary (tarwyn_host C parse) d (str_bytes (to_json pr m)) s
    = (Dispatch (fst (h (ws_registry s))), s\<lparr> ws_registry := snd (h (ws_registry s)) \<rparr>)"
proof -
  have "from_json_batch parse doc = Ok [m]" by (simp add: from_json_batch_def assms(6) from_value_to_value)
  then show ?thesis
    using text_routed [OF assms(2-5), of parse d s] assms(1,7)
    by (simp add: to_json_def route_text_def tarwyn_host_def split_def)
qed

lemma publish_routed:
  assumes "doc = cc_print K (JArray [to_value (Publish channel pubuid data_type properties)])"
    and "is_str doc" "doc \<noteq> []" "hd doc = CHR ''[''" and "request_decode (ctl_prost C) (str_bytes doc) = None"
    and "parse doc = Some (JArray [to_value (Publish channel pubuid data_type properties)])"
  shows "route_binary (tarwyn_host C parse) d (publish_frame K channel pubuid data_type properties) s
    = (Dispatch (fst (handle_publish (ctl_env C) d channel pubuid data_type properties (ws_registry s))),
       s\<lparr> ws_registry := snd (handle_publish (ctl_env C) d channel pubuid data_type properties (ws_registry s)) \<rparr>)"
  unfolding publish_frame_def
  by (rule message_routed [where pr = "cc_print K" and m = "Publish channel pubuid data_type properties" and parse = parse and C = C,
        OF assms]) simp

text \<open>What the server makes of a value on its way.\<close>

definition arrived :: "nt_value \<Rightarrow> nt_value" where
  "arrived v = conformed (wire_form v) (xt_data_type v)"

lemma widened_ints: "ints_of (widened w) = ints_of w"
  by (cases w) (simp_all add: comp_def scast_widen ucast_widen)

lemma arrived_content:
  "xt_data_type (arrived v) = xt_data_type v" "ints_of (arrived v) = ints_of v"
  "ints_of v = None \<Longrightarrow> \<not> is_message v \<Longrightarrow> arrived v = v"
proof -
  have w: "widened (arrived v) = heard v" by (simp add: arrived_def heard_def)
  have h: "xt_data_type (heard v) = xt_data_type v" "ints_of (heard v) = ints_of v"
    "ints_of v = None \<Longrightarrow> \<not> is_message v \<Longrightarrow> heard v = v"
    using heard_content [of v] by (auto split: option.splits if_splits)
  show "xt_data_type (arrived v) = xt_data_type v" using w h(1) widened_type by metis
  show "ints_of (arrived v) = ints_of v" using w h(2) widened_ints by metis
  show "ints_of v = None \<Longrightarrow> \<not> is_message v \<Longrightarrow> arrived v = v"
    using w h(3) widened_ints [of "arrived v"] by (cases "arrived v") auto
qed

lemma value_routed:
  assumes "encode_value v = Ok b" and "wire_ok v" and "pubuid \<noteq> RTT_TOPIC_ID"
    and "topic_id_for_pubuid d pubuid (ws_registry s) = Some i" and "hm_get (topics (ws_registry s)) i = Some t"
    and "t_data_type t = xt_data_type v" and "t_current t = None" "t_cached t"
  shows "hm_get (topics (ws_registry (snd (route_binary H d (encode_once v SERVER_TIME pubuid) s)))) i
      = Some (t\<lparr> t_current := Some \<lparr> ts_micros = clock (host_env H) (clock_reads (ws_registry s)), stamped = arrived v \<rparr> \<rparr>)"
    and "ws_app (snd (route_binary H d (encode_once v SERVER_TIME pubuid) s)) = host_sink H (t_name t) (arrived v) (ws_app s)"
  using assms(3-8) arrived_content(1) [of v]
  by (simp_all add: route_binary_def encode_once_decodes_all [OF assms(1,2)] route_value_def conform_def arrived_def [symmetric]
      accepts_value_def handle_topic_value_def now_micros_def topic_name_def arrival_timestamp_def SERVER_TIME_def Let_def)

section \<open>Publishing and reading\<close>

lemma send_message_wire:
  assumes "c_writer c" and "\<And>n. sock n" and "hm_get (c_pubuids c) channel = None"
  shows "c_wire (send_message K sock now channel v c) = c_wire c
    @ [publish_frame K channel (c_next_pubuid c) (declared_or_own None v) [], encode_once v SERVER_TIME (c_next_pubuid c)]"
  using assms by (simp add: send_message_def record_value_def ensure_reader_def ensure_pubuid_typed_def remember_def dispatch_frame_def
      write_frame_def Let_def)

lemma own_type: "data_type_from_string (declared_or_own None v) = xt_data_type v"
  using type_string_xt_data_type [of v] data_type_from_type_string by (auto simp: declared_or_own_def)

lemma stored_read:
  assumes "cache_ok (cached a)" and "\<not> cached_poisoned a" and "hm_has (cached a) channel \<or> length (cached a) < MAX_TOPICS"
  shows "cache_read (cached (value_sink P channel v a)) channel = Some (kind_of_value P v)"
    "\<not> cached_poisoned (value_sink P channel v a)"
  using cache_put(2) [OF assms(1,3) refl, of "kind_of_value P v"] assms(2,3)
  by (auto simp: value_sink_def cache_store_def cache_abs_def fun_eq_iff split: option.split)

text \<open>C4. What one client publishes another reads.  A client whose connection is up sends a value on a
  channel neither it nor the server knows: it writes two frames, and once the server has routed them the
  channel's topic retains the value under the server's own clock, and another client's read of the channel
  returns it: of the published data type, with the published numbers unless an unsigned array exceeds the
  cache's signed range, and, when it is neither integer nor an encoded message, the very value.\<close>

theorem published_value_read:
  assumes up: "c_writer c" "\<And>n. sock n" and unknown: "hm_get (c_pubuids c) channel = None" "c_next_pubuid c \<noteq> RTT_TOPIC_ID"
    and v: "encode_value v = Ok b" "wire_ok v" "v \<noteq> VString NO_DATA_SENTINEL"
    and doc: "doc = cc_print K (JArray [to_value (Publish channel (c_next_pubuid c) (declared_or_own None v) [])])"
      "is_str doc" "doc \<noteq> []" "hd doc = CHR ''[''" "request_decode (ctl_prost C) (str_bytes doc) = None"
      "parse doc = Some (JArray [to_value (Publish channel (c_next_pubuid c) (declared_or_own None v) [])])"
    and reg: "registry_ok (ws_registry s)" "hm_get (by_name (ws_registry s)) channel = None" "length (topics (ws_registry s)) < MAX_TOPICS"
      "\<not> at_cap (pubs (client_of d (ws_registry s))) (c_next_pubuid c)" "topic_id_for_pubuid d (c_next_pubuid c) (ws_registry s) = None"
      "\<not> is_meta_topic channel"
    and cache: "cache_ok (cached (ws_app s))" "\<not> cached_poisoned (ws_app s)"
      "hm_has (cached (ws_app s)) channel \<or> length (cached (ws_app s)) < MAX_TOPICS"
    and asked: "request_begin K' sock' (ReqData channel) c' = (Some j, c1)" "\<forall>f \<in> set before. \<not> answers_request K' j f"
    and answer: "answer = reply_encode (ctl_prost C) (data_reply j (Some (kind_of_value (ctl_prost C) (arrived v))))"
      "reply_decode K' answer = Some (data_reply j (Some (kind_of_value (ctl_prost C) (arrived v))))" "hd answer = 8" "answer \<noteq> []"
    and routed: "frames = drop (length (c_wire c)) (c_wire (send_message K sock now channel v c))"
      "s' = fold (\<lambda>f s. snd (route_binary (tarwyn_host C parse) d f s)) frames s"
  shows "length frames = 2
    \<and> (\<exists>i t ts. hm_get (topics (ws_registry s')) i = Some t \<and> t_name t = channel \<and> t_current t = Some \<lparr> ts_micros = ts, stamped = arrived v \<rparr>)
    \<and> fst (serve_request C j (ReqData channel) s') = data_reply j (Some (kind_of_value (ctl_prost C) (arrived v)))
    \<and> (\<exists>w. w = value_of_kind (cc_prost K') (kind_of_value (ctl_prost C) (arrived v))
         \<and> fst (client_get K' sock' channel (before @ answer # after) c') = Some w \<and> xt_data_type w = xt_data_type v
         \<and> (fits_signed (arrived v) \<longrightarrow> ints_of w = ints_of v) \<and> (ints_of v = None \<and> \<not> is_message v \<longrightarrow> w = v))"
proof -
  let ?p = "c_next_pubuid c" and ?H = "tarwyn_host C parse" and ?dt = "declared_or_own None v" and ?k = "kind_of_value (ctl_prost C) (arrived v)"
  have frames: "frames = [publish_frame K channel ?p ?dt [], encode_once v SERVER_TIME ?p]"
    using send_message_wire [OF up unknown(1)] by (simp add: routed(1))
  let ?r = "snd (handle_publish (ctl_env C) d channel ?p ?dt [] (ws_registry s))"
  obtain i where i: "hm_get (topics ?r) i = Some (created_topic channel ?dt [])" "topic_id_for_pubuid d ?p ?r = Some i"
    by (rule publish_registers [OF reg])
  let ?s1 = "s\<lparr> ws_registry := ?r \<rparr>" and ?t = "created_topic channel ?dt []"
  have s': "s' = snd (route_binary ?H d (encode_once v SERVER_TIME ?p) ?s1)"
    using publish_routed [where K = K and pubuid = ?p and channel = channel and data_type = ?dt and properties = "[]" and parse = parse and C = C, OF doc, of d s] by (simp add: routed(2) frames)
  have t: "t_data_type ?t = xt_data_type v" "t_current ?t = None" "t_cached ?t" "t_name ?t = channel"
    by (simp_all add: created_topic_def sync_properties_def own_type bool_property_def)
  note stored = value_routed [OF v(1,2) unknown(2), of d ?s1 i ?t ?H, folded s']
  have topic: "\<exists>i t ts. hm_get (topics (ws_registry s')) i = Some t \<and> t_name t = channel
      \<and> t_current t = Some \<lparr> ts_micros = ts, stamped = arrived v \<rparr>"
    using stored(1) i t by fastforce
  have app: "ws_app s' = value_sink (ctl_prost C) channel (arrived v) (ws_app s)"
    using stored(2) i t by (simp add: tarwyn_host_def)
  have reply: "fst (serve_request C j (ReqData channel) s') = data_reply j (Some ?k)"
    using stored_read [OF cache, of "ctl_prost C" "arrived v"] by (simp add: serve_request_def app)
  have got: "fst (request_wait K' sock' (ReqData channel) (before @ answer # after) c') = Some (RepData (Some (Some ?k)))"
    using request_returned [OF asked(1) answer(2) _ answer(3,4) asked(2)] by (simp add: data_reply_def)
  have "?k \<noteq> KString NO_DATA_SENTINEL"
  proof
    assume k: "?k = KString NO_DATA_SENTINEL"
    then have "arrived v = VString NO_DATA_SENTINEL" by (cases "arrived v") (auto split: option.splits)
    moreover from this have "ints_of v = None \<and> \<not> is_message v"
      using arrived_content(1,2) [of v] by (cases v) auto
    ultimately show False using arrived_content(3) [of v] v(3) by simp
  qed
  then have get: "fst (client_get K' sock' channel (before @ answer # after) c') = Some (value_of_kind (cc_prost K') ?k)"
    using got by (auto simp: client_get_def split: prod.splits)
  show ?thesis
    using frames topic reply get kind_trip [of "cc_prost K'" "ctl_prost C" "arrived v"] arrived_content [of v] by auto
qed

definition publishing_codec :: client_codec where
  "publishing_codec = sample_codec\<lparr> cc_print := (\<lambda>_. ''[''), reply_decode := (\<lambda>_. Some (data_reply 1 (Some (KBool True)))) \<rparr>"

definition reading_control :: control_env where
  "reading_control = sample_control\<lparr> ctl_prost := null_prost\<lparr> reply_encode := (\<lambda>_. [8, 2]) \<rparr> \<rparr>"

theorem published_value_read_witness:
  "fst (client_get publishing_codec (\<lambda>_. True) ''a'' [[8, 2]] (client_new 5)) = Some (VBool True)"
proof -
  let ?c = "hand_over True (client_start (client_new 5))" and ?m = "JArray [to_value (Publish ''a'' 0 ''boolean'' [])]"
  let ?s = "ws_server_new plane_new" and ?parse = "\<lambda>_. Some ?m"
  have arrived: "arrived (VBool True) = VBool True" by (simp add: arrived_def conformed_def)
  have c: "c_writer ?c" "hm_get (c_pubuids ?c) ''a'' = None" "(0::u32) \<noteq> RTT_TOPIC_ID" "c_next_pubuid ?c = 0"
    by (simp_all add: client_steps RTT_TOPIC_ID_def)
  have own: "declared_or_own None (VBool True) = ''boolean''" by (simp add: declared_or_own_def type_string_def)
  have doc: "''['' = cc_print publishing_codec x" "is_str ''[''" "request_decode (ctl_prost reading_control) y = None" for x y
    by (simp_all add: publishing_codec_def reading_control_def null_prost_def is_str_def str_bytes_def utf8_valid.simps)
  have reg: "registry_ok (ws_registry ?s)" "hm_get (by_name (ws_registry ?s)) ''a'' = None" "length (topics (ws_registry ?s)) < MAX_TOPICS"
    "\<not> at_cap (pubs (client_of 1 (ws_registry ?s))) 0"
    "topic_id_for_pubuid 1 0 (ws_registry ?s) = None" "\<not> is_meta_topic ''a''"
    by (simp_all add: ws_server_new_def registry_ok_new) (simp_all add: registry_new_def MAX_TOPICS_def at_cap_def MAX_PER_CLIENT_def
        client_of_def client_default_def topic_id_for_pubuid_def is_meta_topic_def starts_with_def)
  have cache: "cache_ok (cached (ws_app ?s))" "\<not> cached_poisoned (ws_app ?s)"
    "hm_has (cached (ws_app ?s)) ''a'' \<or> length (cached (ws_app ?s)) < MAX_TOPICS"
    by (simp_all add: ws_server_new_def plane_new_def cache_ok_Nil MAX_TOPICS_def)
  obtain c1 where asked: "request_begin publishing_codec (\<lambda>_. True) (ReqData ''a'') (client_new 5) = (Some 1, c1)"
    by (simp add: request_begin_def ensure_reader_def client_new_def dispatch_frame_def write_frame_def try_send_def)
  have answer: "[8, 2] = reply_encode (ctl_prost reading_control) x" "reply_decode publishing_codec y = Some (data_reply 1 (Some (KBool True)))" for x y
    by (simp_all add: reading_control_def publishing_codec_def)
  have "\<exists>w. w = value_of_kind (cc_prost publishing_codec) (kind_of_value (ctl_prost reading_control) (arrived (VBool True)))
      \<and> fst (client_get publishing_codec (\<lambda>_. True) ''a'' ([] @ [8, 2] # []) (client_new 5)) = Some w
      \<and> xt_data_type w = xt_data_type (VBool True) \<and> (fits_signed (arrived (VBool True)) \<longrightarrow> ints_of w = ints_of (VBool True))
      \<and> (ints_of (VBool True) = None \<and> \<not> is_message (VBool True) \<longrightarrow> w = VBool True)"
    by (rule published_value_read [where c = ?c and sock = "\<lambda>_. True" and K = publishing_codec and C = reading_control and s = ?s
          and d = 1 and parse = ?parse and b = "[0xc3]" and doc = "''[''" and j = 1 and ?c1.0 = c1 and now = 0,
          THEN conjunct2, THEN conjunct2, THEN conjunct2])
      (simp_all only: c own doc reg cache asked answer arrived encode_value.simps kind_of_value.simps, simp_all add: NO_DATA_SENTINEL_def RTT_TOPIC_ID_def)
  then show ?thesis by simp
qed

end
