(* ===== verification/Subscribe_Path.thy ===== *)
theory Subscribe_Path
  imports Publish_Path
begin

text \<open>
  The way of a value from one client's \<open>send_message\<close> to another client's callback: the subscription the
  server keeps of a listening client, the announcement of the channel to it, and the frame of the value.
\<close>

section \<open>What the server keeps of a subscription\<close>

text \<open>A client's subscription as the registry answers by it; the topics it has matched so far are left out.\<close>

definition subscribed :: "nt_registry \<Rightarrow> client_id \<Rightarrow> u32 \<Rightarrow> string list \<Rightarrow> bool \<Rightarrow> bool \<Rightarrow> bool" where
  "subscribed r d u patterns prefixed topics_only \<longleftrightarrow>
     (\<exists>sub. hm_get (subs (client_of d r)) u = Some sub \<and> s_patterns sub = patterns \<and> s_prefix sub = prefixed
        \<and> s_topics_only sub = topics_only)"

lemma subscribed_client:
  assumes "subscribed r d u patterns prefixed topics_only"
  obtains cs sub where "hm_get (clients r) d = Some cs" "hm_get (subs cs) u = Some sub" "s_patterns sub = patterns"
    "s_prefix sub = prefixed" "s_topics_only sub = topics_only"
  using assms by (auto simp: subscribed_def client_of_def client_default_def split: option.splits)

definition keeps_subscribed :: "nt_registry \<Rightarrow> nt_registry \<Rightarrow> bool" where
  "keeps_subscribed r r' \<longleftrightarrow> (\<forall>d u ps p t. subscribed r d u ps p t \<longrightarrow> subscribed r' d u ps p t)"

lemma keeps_subscribed_cong: "clients r' = clients r \<Longrightarrow> keeps_subscribed r r'"
  by (simp add: keeps_subscribed_def subscribed_def client_of_def)

lemma keeps_subscribed_trans: "keeps_subscribed r s \<Longrightarrow> keeps_subscribed s t \<Longrightarrow> keeps_subscribed r t"
  by (simp add: keeps_subscribed_def)

lemma note_match_asks: "s_patterns (note_match i name sub) = s_patterns sub" "s_prefix (note_match i name sub) = s_prefix sub"
  by (simp_all add: note_match_def)

lemma keeps_subscribed_note:
  assumes "clients r' = hm_map (\<lambda>st. st\<lparr> subs := hm_map (note_match i name) (subs st) \<rparr>) (clients r)"
  shows "keeps_subscribed r r'"
proof -
  have "hm_get (subs (client_of d r')) u = map_option (note_match i name) (hm_get (subs (client_of d r)) u)" for d u
    by (cases "hm_get (clients r) d") (simp_all add: client_of_def client_default_def assms)
  then show ?thesis by (auto simp: keeps_subscribed_def subscribed_def note_match_asks)
qed

lemma publish_meta_subscribed:
  assumes "registry_ok r"
  shows "keeps_subscribed r (snd (publish_meta E name maps r))"
proof -
  obtain j routes r1 where m: "ensure_meta_topic E name r = (j, routes, r1)" by (metis prod_cases3)
  have "keeps_subscribed r r1"
  proof (cases "hm_get (by_name r) name")
    case (Some k)
    with m show ?thesis by (auto simp: ensure_meta_topic_def intro: keeps_subscribed_cong)
  next
    case None
    let ?t = "\<lparr> t_name = name, t_data_type = 5, t_type_str = ''msgpack'', t_properties = [],
       t_current = None, t_publishers = 0, t_retained = True, t_cached = True, t_persistent = False \<rparr>"
    obtain k r0 where ins: "insert_topic ?t r = (k, r0)" by fastforce
    let ?r0 = "r0\<lparr> clients := hm_map (\<lambda>st. st\<lparr> subs := hm_map (note_match k name) (subs st) \<rparr>) (clients r0) \<rparr>"
    have "r1 = snd (extend_each (announce_one E k) (match_targets name (clients r0)) ?r0)"
      using m None ins by (auto simp: ensure_meta_topic_def announce_to_matching_def Let_def)
    then have "clients r1 = clients ?r0" using announce_each_frame [of E k _ ?r0] by simp
    then show ?thesis using keeps_subscribed_note [of r1 k name r] insert_topic_new(3) [OF assms ins] by simp
  qed
  moreover have "keeps_subscribed r1 (snd (handle_topic_value j v ts (r1\<lparr> clock_reads := n \<rparr>)))" for v ts n
    by (rule keeps_subscribed_cong) (simp add: handle_topic_value_frame(1))
  ultimately show ?thesis
    by (auto simp: publish_meta_def m now_micros_def split: sum.split intro: keeps_subscribed_trans)
qed

lemma update_meta_subscribed:
  assumes "registry_ok r"
  shows "keeps_subscribed r (snd (update_meta_clientsub E c r))" "keeps_subscribed r (snd (update_meta_sub E name r))"
  using publish_meta_subscribed [OF assms]
  by (auto simp: update_meta_clientsub_def update_meta_sub_def keeps_subscribed_cong split: option.split)

lemma update_meta_sub_for_subscribed:
  assumes "registry_ok r"
  shows "keeps_subscribed r (snd (update_meta_sub_for E ids r))"
proof -
  have "keeps_subscribed r (snd (extend_each (update_meta_sub E) names r))" for names
    using assms
  proof (induction names arbitrary: r)
    case (Cons n names)
    have "registry_ok (snd (update_meta_sub E n r))"
      using reg_steps_ok [OF update_meta_steps(4)] Cons.prems by blast
    from keeps_subscribed_trans [OF update_meta_subscribed(2) [OF Cons.prems] Cons.IH [OF this]] show ?case by simp
  qed (simp add: keeps_subscribed_cong)
  then show ?thesis by (simp add: update_meta_sub_for_def Let_def)
qed

lemma handle_subscribe_subscribed:
  assumes ok: "registry_ok r" and cap: "\<not> at_cap (subs (client_of c r)) subuid"
  shows "subscribed (snd (handle_subscribe E c patterns subuid prefixed topics_only options r)) c subuid patterns prefixed topics_only"
proof -
  have cap0: "\<not> at_cap (subs (client_of c (ensure_client c r))) subuid"
    using cap by (auto simp: client_of_def ensure_client_def split: option.splits)
  obtain touched r1 bare ids routes r2 r3 where
    drop: "drop_subscription c subuid (ensure_client c r) = (touched, r1)"
    and bare: "bare = \<lparr> s_patterns = patterns, s_prefix = prefixed, s_topics_only = topics_only,
                    s_matched = [], s_options = options \<rparr>"
    and l: "extend_each (subscribe_one E c topics_only) ids r1 = (routes, r2)" "\<forall>j \<in> set ids. hm_has (topics r1) j"
    and r3: "r3 = update_client c (\<lambda>cs. cs\<lparr> subs := hm_insert (subs cs) subuid (bare\<lparr> s_matched := set_insert_all ids [] \<rparr>) \<rparr>) r2"
    and h: "handle_subscribe E c patterns subuid prefixed topics_only options r =
      Nt_Registry.extend (Nt_Registry.extend (routes, r3) (update_meta_clientsub E c)) (update_meta_sub_for E (set_insert_all ids touched))"
    and steps: "reg_steps r r3"
    by (rule handle_subscribe_shape [OF ok cap0]) blast
  have "hm_has (clients (ensure_client c r)) c" by (simp add: ensure_client_def)
  moreover have "clients (fold (drop_subscriber c) js s) = clients s" for js s
    by (induction js arbitrary: s) (simp_all add: drop_subscriber_def)
  ultimately have c1: "hm_has (clients r1) c"
    using drop by (auto simp: drop_subscription_def update_client_def split: option.splits)
  have "clients (snd (extend_each (subscribe_one E c topics_only) js s)) = clients s" if "\<forall>j \<in> set js. hm_has (topics s) j" for js s
    using that by (induction js arbitrary: s) (simp_all add: subscribe_one_steps(2,3))
  with l c1 have "hm_has (clients r2) c" by (metis snd_conv)
  then have "subscribed r3 c subuid patterns prefixed topics_only"
    by (auto simp: r3 bare subscribed_def client_of_def update_client_def)
  moreover have ok3: "registry_ok r3" using reg_steps_ok [OF steps ok] .
  moreover have "registry_ok (snd (update_meta_clientsub E c r3))" using reg_steps_ok [OF update_meta_steps(3) [OF ok3] ok3] .
  ultimately show ?thesis
    using update_meta_subscribed(1) [OF ok3] update_meta_sub_for_subscribed by (simp add: h keeps_subscribed_def)
qed

section \<open>From a publisher to a callback\<close>

lemma subscribe_routed:
  assumes "doc = cc_print K (JArray [to_value (Subscribe [channel] subuid [])])"
    and "is_str doc" "doc \<noteq> []" "hd doc = CHR ''[''" and "request_decode (ctl_prost C) (str_bytes doc) = None"
    and "parse doc = Some (JArray [to_value (Subscribe [channel] subuid [])])"
  shows "route_binary (tarwyn_host C parse) d (subscribe_frame K channel subuid) s
    = (Dispatch (fst (handle_subscribe (ctl_env C) d [channel] subuid False False [] (ws_registry s))),
       s\<lparr> ws_registry := snd (handle_subscribe (ctl_env C) d [channel] subuid False False [] (ws_registry s)) \<rparr>)"
  unfolding subscribe_frame_def
  by (rule message_routed [where pr = "cc_print K" and m = "Subscribe [channel] subuid []" and parse = parse and C = C,
        OF assms]) (simp add: option_flag_def)

lemma subscribe_request_wire:
  assumes "c_writer c" and "\<And>n. sock n" and "subscribe_request K sock channel c = (u, c')"
  shows "c_wire c' = c_wire c @ [subscribe_frame K channel u]" "c_data_listeners c' = c_data_listeners c"
  using assms by (auto simp: subscribe_request_def ensure_reader_def remember_def dispatch_frame_def write_frame_def Let_def)

text \<open>What arrives can be sent on: it is what the sender encoded, or an empty array given its type back.\<close>

lemma arrived_forms: "arrived v = wire_form v \<or> arrived v \<in> {VBoolArray [], VInt64Array [], VStringArray [], VFloatArray []}"
proof (cases "xt_data_type (wire_form v) = xt_data_type v")
  case False
  then have "wire_form v = VDoubleArray []"
    by (cases v) (auto simp: list_wire_def int_wire_number uint_wire_number uints_wire_numbers split: if_splits)
  with False show ?thesis
    by (cases v) (auto simp: arrived_def empty_conforms list_wire_def uints_wire_def int_wire_def uint_wire_def split: if_splits)
qed (simp add: arrived_def conformed_id)

lemma wire_ok_wire_form: "wire_ok v \<Longrightarrow> wire_ok (wire_form v)"
  by (cases v) (auto simp: list_wire_def uints_wire_def int_wire_def uint_wire_def)

lemma arrived_encodes:
  assumes "encode_value v = Ok b" and "wire_ok v"
  shows "\<exists>b'. encode_value (arrived v) = Ok b'" "wire_ok (arrived v)"
  using arrived_forms [of v] assms encode_wire_form [of v] wire_ok_wire_form [of v]
  by (auto simp: encode_typed_array_def encode_array_header_def)

lemma heard_arrived:
  "xt_data_type (heard (arrived v)) = xt_data_type v \<and> ints_of (heard (arrived v)) = ints_of v
    \<and> (ints_of v = None \<and> \<not> is_message v \<longrightarrow> heard (arrived v) = v)"
  using arrived_content [of v] heard_content [of "arrived v"] heard_content [of v] by (auto split: option.splits if_splits)

lemma value_fanned_out:
  assumes "encode_value v = Ok b" and "wire_ok v" and "pubuid \<noteq> RTT_TOPIC_ID"
    and "topic_id_for_pubuid e pubuid (ws_registry s) = Some i" and "hm_get (topics (ws_registry s)) i = Some t"
    and "t_data_type t = xt_data_type v" and "d \<in> set (list_of (topic_subscribers (ws_registry s)) i)" and "lists_ok (ws_registry s)"
  obtains routes s' ts where "route_binary H e (encode_once v SERVER_TIME pubuid) s = (Dispatch routes, s')"
    and "frames_for d routes = [ValueFrame (encode_once (arrived v) ts (of_nat i))]"
proof -
  let ?vm = "\<lparr> vm_topic_id = pubuid, vm_timestamp_micros = SERVER_TIME, vm_data_type = xt_data_type v, vm_value = wire_form v \<rparr>"
  obtain now r where now: "now_micros (host_env H) (ws_registry s) = (now, r)" by fastforce
  have v: "arrived v = conform i (vm_value ?vm) (ws_registry s)" "xt_data_type (arrived v) = t_data_type t"
    using assms(5,6) arrived_content(1) [of v] by (simp_all add: conform_def arrived_def)
  have "fst (route_value H e ?vm s) = map (\<lambda>d. (d, ValueFrame (encode_once (arrived v) (arrival_timestamp SERVER_TIME now) (of_nat i))))
      (list_of (topic_subscribers (ws_registry s)) i)"
    using route_value_published(1) [of ?vm e s i t "arrived v" H now r] assms(3-5) v now by simp
  moreover have "route_binary H e (encode_once v SERVER_TIME pubuid) s
      = (Dispatch (fst (route_value H e ?vm s)), snd (route_value H e ?vm s))"
    by (simp add: route_binary_def encode_once_decodes_all [OF assms(1,2)] map_prod_def split_def)
  ultimately show thesis
    using that assms(7) lists_ok_list_of(1) [OF assms(8)] by (simp add: frames_for_map)
qed

text \<open>C3. What one client publishes another client's callback hears.  A client listens to a channel; another
  sends a value on it, which neither it nor the server knows.  Each writes its frames on a working connection and the
  server routes them in turn: the listener is then sent the channel's announcement, which the listening
  client can read, and, with the value's frame, exactly one frame; handling the two runs every listener of
  the channel, the new one last, once, on the published value: of the published data type, with the
  published numbers, and, when it is neither integer nor an encoded message, the very value.\<close>

theorem listener_hears_publish:
  assumes listen: "c_writer a" "\<And>n. sockA n" "subscribe_request KA sockA channel a = (u, a1)" "add_listener channel a1 = (k, a2)"
    and ask: "ask = cc_print KA (JArray [to_value (Subscribe [channel] u [])])"
      "is_str ask" "ask \<noteq> []" "hd ask = CHR ''[''" "request_decode (ctl_prost C) (str_bytes ask) = None"
      "parse ask = Some (JArray [to_value (Subscribe [channel] u [])])"
    and s: "registry_ok (ws_registry s)" "\<not> at_cap (subs (client_of d (ws_registry s))) u"
      "s1 = fold (\<lambda>f s. snd (route_binary (tarwyn_host C parse) d f s)) (drop (length (c_wire a)) (c_wire a1)) s"
    and up: "c_writer c" "\<And>n. sock n" and unknown: "hm_get (c_pubuids c) channel = None" "c_next_pubuid c \<noteq> RTT_TOPIC_ID"
    and v: "encode_value v = Ok b" "wire_ok v"
    and doc: "doc = cc_print K (JArray [to_value (Publish channel (c_next_pubuid c) (declared_or_own None v) [])])"
      "is_str doc" "doc \<noteq> []" "hd doc = CHR ''[''" "request_decode (ctl_prost C) (str_bytes doc) = None"
      "parse doc = Some (JArray [to_value (Publish channel (c_next_pubuid c) (declared_or_own None v) [])])"
    and reg: "hm_get (by_name (ws_registry s1)) channel = None" "length (topics (ws_registry s1)) < MAX_TOPICS"
      "\<not> at_cap (pubs (client_of e (ws_registry s1))) (c_next_pubuid c)" "topic_id_for_pubuid e (c_next_pubuid c) (ws_registry s1) = None"
      "\<not> is_meta_topic channel" "channel \<noteq> LOG_TOPIC" "d \<noteq> e"
    and told: "\<And>i. cc_parse KA (to_string (ctl_env C) (JArray [to_value (Announce channel (of_nat i) (declared_or_own None v) [] None)]))
      = Some (JArray [to_value (Announce channel (of_nat i) (declared_or_own None v) [] None)])"
    and routed: "frames = drop (length (c_wire c)) (c_wire (send_message K sock now channel v c))"
  shows "\<exists>f1 f2 routes1 routes2 s2 s3 text frame w.
    frames = [f1, f2] \<and> route_binary (tarwyn_host C parse) e f1 s1 = (Dispatch routes1, s2)
    \<and> route_binary (tarwyn_host C parse) e f2 s2 = (Dispatch routes2, s3)
    \<and> (d, Text text) \<in> set routes1 \<and> frames_for d routes2 = [ValueFrame frame]
    \<and> c_heard (handle_binary KA frame (handle_text KA text a2))
      = c_heard a2 @ map (\<lambda>k. (k, w)) (list_of (c_data_listeners a) channel @ [k])
    \<and> xt_data_type w = xt_data_type v \<and> ints_of w = ints_of v \<and> (ints_of v = None \<and> \<not> is_message v \<longrightarrow> w = v)"
proof -
  let ?p = "c_next_pubuid c" and ?H = "tarwyn_host C parse" and ?dt = "declared_or_own None v"
  let ?r1 = "snd (handle_subscribe (ctl_env C) d [channel] u False False [] (ws_registry s))"
  note wire = subscribe_request_wire [OF listen(1,2,3)]
  have r1: "ws_registry s1 = ?r1"
    using subscribe_routed [where K = KA and channel = channel and subuid = u and parse = parse and C = C, OF ask, of d s]
    by (simp add: s(3) wire(1))
  have ok1: "registry_ok ?r1" using reg_steps_ok [OF handle_subscribe_steps [OF s(1)] s(1)] .
  obtain cs sub where sub: "hm_get (clients ?r1) d = Some cs" "hm_get (subs cs) u = Some sub" "s_patterns sub = [channel]"
    "\<not> s_prefix sub" "\<not> s_topics_only sub"
    using subscribed_client [OF handle_subscribe_subscribed [OF s(1,2), where E = "ctl_env C" and patterns = "[channel]"
        and prefixed = False and topics_only = False and options = "[]"]] by metis
  have asks: "sub_visible_to sub channel" "sub_matches sub channel"
    using sub(3,4) reg(5) by (simp_all add: is_meta_topic_def sub_visible_to_def sub_matches_def pattern_matches_def)
  let ?P = "handle_publish (ctl_env C) e channel ?p ?dt [] ?r1"
  obtain i where i: "hm_get (topics (snd ?P)) i = Some (created_topic channel ?dt [])" "topic_id_for_pubuid e ?p (snd ?P) = Some i"
    and heard: "(d, Text (announce_json (ctl_env C) i None (snd ?P))) \<in> set (fst ?P)" "d \<in> set (list_of (topic_subscribers (snd ?P)) i)"
    using publish_registers [OF ok1 reg(1-5) [unfolded r1], where E = "ctl_env C" and type_str = ?dt and properties = "[]"]
      sub(1,2,5) asks reg(7) by metis
  let ?t = "created_topic channel ?dt []" and ?s2 = "s1\<lparr> ws_registry := snd ?P \<rparr>"
  have t: "t_data_type ?t = xt_data_type v" "t_name ?t = channel" "t_type_str ?t = ?dt" "t_properties ?t = []"
    by (simp_all add: created_topic_def sync_properties_def own_type)
  have publish: "route_binary ?H e (publish_frame K channel ?p ?dt []) s1 = (Dispatch (fst ?P), ?s2)"
    using publish_routed [where K = K and pubuid = ?p and channel = channel and data_type = ?dt and properties = "[]" and parse = parse and C = C,
        OF doc, of e s1] by (simp add: r1)
  have "registry_ok (snd ?P)" using reg_steps_ok [OF handle_publish_steps [OF ok1] ok1] .
  then have lists: "lists_ok (ws_registry ?s2)" by (simp add: registry_ok_def)
  obtain routes2 s3 ts where fan: "route_binary ?H e (encode_once v SERVER_TIME ?p) ?s2 = (Dispatch routes2, s3)"
    "frames_for d routes2 = [ValueFrame (encode_once (arrived v) ts (of_nat i))]"
    using value_fanned_out [OF v unknown(2), of e ?s2 i ?t d ?H] i t(1) heard(2) lists by auto
  obtain b' where b': "encode_value (arrived v) = Ok b'" "wire_ok (arrived v)" using arrived_encodes [OF v] by auto
  have "handle_binary KA (encode_once (arrived v) ts (of_nat i)) (handle_text KA (announce_json (ctl_env C) i None (snd ?P)) a2)
      = (handle_text KA (announce_json (ctl_env C) i None (snd ?P)) a2)
        \<lparr> c_heard := c_heard a2 @ map (\<lambda>k. (k, heard (arrived v))) (list_of (c_data_listeners a2) channel) \<rparr>"
    using announced_frame_heard [OF i(1) _ _ b', where K = KA and pubuid = None and E = "ctl_env C" and c = a2 and ts = ts]
      t reg(6) told own_type arrived_content(1) [of v] by simp
  then have called: "c_heard (handle_binary KA (encode_once (arrived v) ts (of_nat i)) (handle_text KA (announce_json (ctl_env C) i None (snd ?P)) a2))
      = c_heard a2 @ map (\<lambda>k. (k, heard (arrived v))) (list_of (c_data_listeners a) channel @ [k])"
    using listen(4) wire(2) by (auto simp: add_listener_def Let_def list_of_def)
  have frames: "frames = [publish_frame K channel ?p ?dt [], encode_once v SERVER_TIME ?p]"
    using send_message_wire [OF up unknown(1)] by (simp add: routed)
  show ?thesis
    using frames publish fan heard(1) called heard_arrived [of v] by blast
qed

text \<open>A way to write the three messages of a run: an announcement by the length of its document.\<close>

definition spelled :: "json \<Rightarrow> string" where
  "spelled j = (case j of JArray [m] \<Rightarrow>
       (case from_value m of
          Inr (Announce _ i _ _ _) \<Rightarrow> replicate (unat i) (CHR ''x'')
        | Inr (Subscribe _ _ _) \<Rightarrow> ''[s''
        | _ \<Rightarrow> ''[p'')
     | _ \<Rightarrow> [])"

definition spelling_codec :: client_codec where
  "spelling_codec = sample_codec\<lparr> cc_print := spelled,
     cc_parse := (\<lambda>s. Some (JArray [to_value (Announce ''a'' (of_nat (length s)) ''boolean'' [] None)])) \<rparr>"

definition spelling_control :: control_env where
  "spelling_control = sample_control\<lparr> ctl_prost := null_prost, ctl_env := \<lparr> to_string = spelled, clock = (\<lambda>_. 100) \<rparr> \<rparr>"

definition spelling_parse :: "string \<Rightarrow> json option" where
  "spelling_parse s = Some (JArray [to_value (if s = ''[s'' then Subscribe [''a''] 0 [] else Publish ''a'' 0 ''boolean'' [])])"

theorem listener_hears_publish_witness:
  "\<exists>text frame. c_heard (handle_binary spelling_codec frame (handle_text spelling_codec text
      (snd (add_listener ''a'' (snd (subscribe_request spelling_codec (\<lambda>_. True) ''a'' (hand_over True (client_start (client_new 5))))))))) = [(0, VBool True)]"
proof -
  let ?c = "hand_over True (client_start (client_new 5))" and ?s = "ws_server_new plane_new"
  let ?a = "snd (subscribe_request spelling_codec (\<lambda>_. True) ''a'' ?c)"
  let ?r1 = "snd (handle_subscribe (ctl_env spelling_control) 1 [''a''] 0 False False [] registry_new)"
  let ?s1 = "?s\<lparr> ws_registry := ?r1 \<rparr>"
  have c: "c_writer ?c" "hm_get (c_pubuids ?c) ''a'' = None" "(0::u32) \<noteq> RTT_TOPIC_ID" "c_next_pubuid ?c = 0"
    by (simp_all add: client_steps RTT_TOPIC_ID_def)
  have a: "subscribe_request spelling_codec (\<lambda>_. True) ''a'' ?c = (0, ?a)" "add_listener ''a'' ?a = (0, snd (add_listener ''a'' ?a))"
    "list_of (c_data_listeners ?c) ''a'' = []" "c_heard (snd (add_listener ''a'' ?a)) = []"
    by (simp_all add: subscribe_request_def add_listener_def client_steps Let_def list_of_def)
  have own: "declared_or_own None (VBool True) = ''boolean''" by (simp add: declared_or_own_def type_string_def)
  have ask: "''[s'' = cc_print spelling_codec (JArray [to_value (Subscribe [''a''] 0 [])])"
    "spelling_parse ''[s'' = Some (JArray [to_value (Subscribe [''a''] 0 [])])"
    by (simp_all add: spelling_codec_def spelled_def from_value_to_value spelling_parse_def)
  have doc: "''[p'' = cc_print spelling_codec (JArray [to_value (Publish ''a'' 0 ''boolean'' [])])"
    "spelling_parse ''[p'' = Some (JArray [to_value (Publish ''a'' 0 ''boolean'' [])])"
    by (simp_all add: spelling_codec_def spelled_def from_value_to_value spelling_parse_def)
  have str: "is_str ''[s''" "is_str ''[p''" "request_decode (ctl_prost spelling_control) x = None" for x
    by (simp_all add: spelling_control_def null_prost_def is_str_def str_bytes_def utf8_valid.simps)
  have told: "cc_parse spelling_codec (to_string (ctl_env spelling_control) (JArray [to_value (Announce ''a'' (of_nat i) ''boolean'' [] None)]))
      = Some (JArray [to_value (Announce ''a'' (of_nat i) ''boolean'' [] None)])" for i
    by (simp add: spelling_codec_def spelling_control_def spelled_def from_value_to_value)
  have reg0: "registry_ok (ws_registry ?s)" "\<not> at_cap (subs (client_of 1 (ws_registry ?s))) 0"
    by (simp_all add: ws_server_new_def registry_ok_new) (simp add: registry_new_def at_cap_def MAX_PER_CLIENT_def client_of_def client_default_def)
  have s1: "?s1 = fold (\<lambda>f s. snd (route_binary (tarwyn_host spelling_control spelling_parse) 1 f s)) (drop (length (c_wire ?c)) (c_wire ?a)) ?s"
    using subscribe_request_wire(1) [OF c(1) _ a(1)]
      subscribe_routed [where K = spelling_codec and channel = "''a''" and subuid = 0 and parse = spelling_parse and C = spelling_control,
        OF ask(1) str(1) _ _ str(3) ask(2), of 1 ?s]
    by (simp add: ws_server_new_def)
  have r1: "by_name ?r1 = []" "topics ?r1 = []" "pubs (client_of 2 ?r1) = []" "hm_get (clients ?r1) 2 = None"
    by (simp_all add: handle_subscribe_def registry_new_def ensure_client_def drop_subscription_def client_of_def client_default_def
        at_cap_def MAX_PER_CLIENT_def matched_ids_def update_client_def update_meta_clientsub_def update_meta_sub_for_def
        set_insert_all_def hm_insert_def hm_modify_def Let_def)
  have reg1: "hm_get (by_name (ws_registry ?s1)) ''a'' = None" "length (topics (ws_registry ?s1)) < MAX_TOPICS"
    "\<not> at_cap (pubs (client_of 2 (ws_registry ?s1))) 0" "topic_id_for_pubuid 2 0 (ws_registry ?s1) = None"
    "\<not> is_meta_topic ''a''" "''a'' \<noteq> LOG_TOPIC" "(1::client_id) \<noteq> 2"
    by (simp_all add: r1 MAX_TOPICS_def at_cap_def MAX_PER_CLIENT_def topic_id_for_pubuid_def is_meta_topic_def starts_with_def LOG_TOPIC_def)
  note run = listener_hears_publish [where a = ?c and sockA = "\<lambda>_. True" and KA = spelling_codec and channel = "''a''" and u = 0 and ?a1.0 = ?a
      and k = 0 and ?a2.0 = "snd (add_listener ''a'' ?a)" and ask = "''[s''" and C = spelling_control and parse = spelling_parse and s = ?s and d = 1
      and ?s1.0 = ?s1 and c = ?c and sock = "\<lambda>_. True" and v = "VBool True" and b = "[0xc3]" and doc = "''[p''" and K = spelling_codec
      and e = 2 and now = 0 and frames = "drop (length (c_wire ?c)) (c_wire (send_message spelling_codec (\<lambda>_. True) 0 ''a'' (VBool True) ?c))", unfolded c(4) own]
  note heard = run [OF c(1) TrueI a(1,2) ask(1) str(1) _ _ str(3) ask(2) reg0 s1 c(1) TrueI c(2,3) _ _ doc(1) str(2) _ _ str(3) doc(2) reg1 told refl]
  from heard obtain doc frame w where "c_heard (handle_binary spelling_codec frame (handle_text spelling_codec doc (snd (add_listener ''a'' ?a))))
      = [(0, w)]" "xt_data_type w = 0" "w = VBool True"
    unfolding a(3,4) by auto
  then show ?thesis by blast
qed

end
