(* ===== verification/Client_Reader.thy ===== *)
theory Client_Reader
  imports Client
begin

text \<open>
  The life of a client's reader thread (\<^verbatim>\<open>client/src/reader.rs\<close>, \<^verbatim>\<open>client/src/client.rs\<close>): the reader's loop against
  \<open>start\<close>, \<open>stop\<close> and the calls that start it on demand, in steps of one atomic access or one turn of the loop each.
  What a turn does to the client is the subject of \<open>Client\<close>; here it is where the thread stands, whose connection the
  publishers write through, and how many readers there are. The telemetry threads have flags of their own that no reader
  reads; what \<open>start\<close> and \<open>stop\<close> do to them is in \<open>Client_Telemetry\<close>.
\<close>

section \<open>The system\<close>

text \<open>Where a reader stands: before its check of the stop flag and a connection, with a connection whose session was
  replayed (\<open>spare\<close>: it has a duplicate), in its reading loop, in a callback, or at its end.\<close>

datatype reader_phase = Looking | Handing bool | Receiving | InCallback | Gone

text \<open>Where a call stands.\<close>

datatype call_phase =
    Idle
  | Start_Init | Start_First | Start_Again
  | Ensure_Stop | Ensure_Started | Ensure_Spawn | Ensure_Track nat
  | Stop_Set | Stop_Take | Stop_Join "nat list"

record reader_sys =
  rs_stop :: bool
  rs_initialized :: bool
  rs_started :: bool
  rs_readers :: "reader_phase list"
  rs_handles :: "nat list"
  rs_writer :: "nat option"
  rs_call :: "nat \<Rightarrow> call_phase"

definition reader_sys_new :: reader_sys where
  "reader_sys_new = \<lparr> rs_stop = False, rs_initialized = False, rs_started = False, rs_readers = [], rs_handles = [],
     rs_writer = None, rs_call = (\<lambda>_. Idle) \<rparr>"

text \<open>A caller is the program's thread, number 0, or a callback on reader \<open>t\<close>, number \<open>t + 1\<close>.\<close>

definition at_call :: "nat \<Rightarrow> call_phase \<Rightarrow> reader_sys \<Rightarrow> reader_sys" where
  "at_call who p s = s\<lparr> rs_call := (rs_call s)(who := p) \<rparr>"

definition at_phase :: "nat \<Rightarrow> reader_phase \<Rightarrow> reader_sys \<Rightarrow> reader_sys" where
  "at_phase t p s = s\<lparr> rs_readers := (rs_readers s)[t := p] \<rparr>"

section \<open>The reader\<close>

text \<open>What meets a reader: its connection failed, or died while the session was replayed, or is up; a read that goes on, that
  runs a callback, or that ends the connection.\<close>

datatype reader_input = NoConnection | ConnectionUp bool | ReadOn | ReadCalls | ReadEnds

definition reader_gone :: "nat \<Rightarrow> reader_sys \<Rightarrow> reader_sys" where
  "reader_gone t s = (at_phase t Gone s)\<lparr> rs_writer := None \<rparr>"

definition reader_turn :: "reader_input \<Rightarrow> nat \<Rightarrow> reader_sys \<Rightarrow> reader_sys" where
  "reader_turn inp t s =
     (if t \<ge> length (rs_readers s) then s
      else case rs_readers s ! t of
        Looking \<Rightarrow>
          let s = s\<lparr> rs_writer := None \<rparr> in
          if rs_stop s then reader_gone t s
          else (case inp of ConnectionUp spare \<Rightarrow> at_phase t (Handing spare) s | _ \<Rightarrow> s)
      | Handing spare \<Rightarrow> (at_phase t Receiving s)\<lparr> rs_writer := (if spare then Some t else None) \<rparr>
      | Receiving \<Rightarrow>
          if rs_stop s then reader_gone t s
          else (case inp of ReadEnds \<Rightarrow> at_phase t Looking s | ReadCalls \<Rightarrow> at_phase t InCallback s | _ \<Rightarrow> s)
      | InCallback \<Rightarrow> if rs_call s (t + 1) = Idle then at_phase t Receiving s else s
      | Gone \<Rightarrow> s)"

section \<open>The calls\<close>

definition start_turn :: "nat \<Rightarrow> reader_sys \<Rightarrow> reader_sys" where
  "start_turn who s =
     (case rs_call s who of
        Start_Init \<Rightarrow> at_call who (if rs_initialized s then Start_Again else Start_First) (s\<lparr> rs_initialized := True \<rparr>)
      | Start_First \<Rightarrow> at_call who Ensure_Stop (s\<lparr> rs_stop := False \<rparr>)
      | Start_Again \<Rightarrow> at_call who (if rs_stop s then Ensure_Stop else Idle) (s\<lparr> rs_stop := False \<rparr>)
      | _ \<Rightarrow> s)"

definition ensure_turn :: "nat \<Rightarrow> reader_sys \<Rightarrow> reader_sys" where
  "ensure_turn who s =
     (case rs_call s who of
        Ensure_Stop \<Rightarrow> at_call who (if rs_stop s then Idle else Ensure_Started) s
      | Ensure_Started \<Rightarrow> at_call who (if rs_started s then Idle else Ensure_Spawn) (s\<lparr> rs_started := True \<rparr>)
      | Ensure_Spawn \<Rightarrow> at_call who (Ensure_Track (length (rs_readers s))) (s\<lparr> rs_readers := rs_readers s @ [Looking] \<rparr>)
      | Ensure_Track t \<Rightarrow> at_call who Idle (s\<lparr> rs_handles := rs_handles s @ [t] \<rparr>)
      | _ \<Rightarrow> s)"

text \<open>The join of a thread that is not at its end waits.\<close>

definition stop_turn :: "nat \<Rightarrow> reader_sys \<Rightarrow> reader_sys" where
  "stop_turn who s =
     (case rs_call s who of
        Stop_Set \<Rightarrow> at_call who Stop_Take (s\<lparr> rs_stop := True \<rparr>)
      | Stop_Take \<Rightarrow> at_call who (Stop_Join (filter (\<lambda>t. who \<noteq> t + 1) (rs_handles s))) (s\<lparr> rs_handles := [] \<rparr>)
      | Stop_Join [] \<Rightarrow> at_call who Idle (s\<lparr> rs_started := False \<rparr>)
      | Stop_Join (t # ts) \<Rightarrow> if rs_readers s ! t = Gone then at_call who (Stop_Join ts) s else s
      | _ \<Rightarrow> s)"

definition call_turn :: "nat \<Rightarrow> reader_sys \<Rightarrow> reader_sys" where
  "call_turn who s =
     (case rs_call s who of
        Idle \<Rightarrow> s
      | Start_Init \<Rightarrow> start_turn who s | Start_First \<Rightarrow> start_turn who s | Start_Again \<Rightarrow> start_turn who s
      | Ensure_Stop \<Rightarrow> ensure_turn who s | Ensure_Started \<Rightarrow> ensure_turn who s
      | Ensure_Spawn \<Rightarrow> ensure_turn who s | Ensure_Track _ \<Rightarrow> ensure_turn who s
      | Stop_Set \<Rightarrow> stop_turn who s | Stop_Take \<Rightarrow> stop_turn who s | Stop_Join _ \<Rightarrow> stop_turn who s)"

text \<open>The first step of a call: \<open>start\<close>, \<open>stop\<close>, and any call that needs the reader.\<close>

definition call_begins :: "call_phase \<Rightarrow> bool" where
  "call_begins p \<longleftrightarrow> p \<in> {Start_Init, Stop_Set, Ensure_Stop}"

section \<open>One caller\<close>

text \<open>The client used by one thread at a time, and not from its callbacks: the reader's turns in any order with the calls'.\<close>

inductive seq_step :: "reader_sys \<Rightarrow> reader_sys \<Rightarrow> bool" where
  turn: "seq_step s (reader_turn inp t s)"
| begins: "rs_call s 0 = Idle \<Longrightarrow> call_begins p \<Longrightarrow> seq_step s (at_call 0 p s)"
| call: "seq_step s (call_turn 0 s)"

definition live_readers :: "reader_sys \<Rightarrow> nat set" where
  "live_readers s = {t. t < length (rs_readers s) \<and> rs_readers s ! t \<noteq> Gone}"

text \<open>What holds at each point of the caller.\<close>

fun reader_at :: "call_phase \<Rightarrow> reader_sys \<Rightarrow> bool" where
  "reader_at Ensure_Spawn s \<longleftrightarrow> rs_started s \<and> \<not> rs_stop s \<and> live_readers s = {}"
| "reader_at (Ensure_Track t) s \<longleftrightarrow> rs_started s \<and> \<not> rs_stop s \<and> live_readers s = {t}"
| "reader_at Stop_Take s \<longleftrightarrow> rs_stop s \<and> live_readers s \<subseteq> set (rs_handles s) \<and> card (live_readers s) \<le> 1"
| "reader_at (Stop_Join ts) s \<longleftrightarrow> rs_stop s \<and> live_readers s \<subseteq> set ts \<and> card (live_readers s) \<le> 1"
| "reader_at p s \<longleftrightarrow> (p = Ensure_Started \<longrightarrow> \<not> rs_stop s) \<and>
     (if rs_started s then \<not> rs_stop s \<and> (\<exists>t \<in> set (rs_handles s). live_readers s = {t}) else live_readers s = {})"

definition reader_ok :: "reader_sys \<Rightarrow> bool" where
  "reader_ok s \<longleftrightarrow> reader_at (rs_call s 0) s \<and> (\<forall>w. w \<noteq> 0 \<longrightarrow> rs_call s w = Idle)
     \<and> (\<forall>t. rs_writer s = Some t \<longrightarrow> t \<in> live_readers s \<and> (\<forall>spare. rs_readers s ! t \<noteq> Handing spare))"

lemma live_at_phase:
  "t < length (rs_readers s) \<Longrightarrow> live_readers (at_phase t p s) = (if p = Gone then live_readers s - {t} else insert t (live_readers s))"
  by (auto simp: live_readers_def at_phase_def nth_list_update)

lemma live_update [simp]:
  "live_readers (s\<lparr> rs_writer := w \<rparr>) = live_readers s" "live_readers (s\<lparr> rs_stop := b \<rparr>) = live_readers s"
  "live_readers (s\<lparr> rs_initialized := b \<rparr>) = live_readers s" "live_readers (s\<lparr> rs_started := b \<rparr>) = live_readers s"
  "live_readers (s\<lparr> rs_handles := hs \<rparr>) = live_readers s" "live_readers (at_call who q s) = live_readers s"
  by (simp_all add: live_readers_def at_call_def)

lemma at_call_frame [simp]:
  "rs_stop (at_call who q s) = rs_stop s" "rs_started (at_call who q s) = rs_started s" "rs_handles (at_call who q s) = rs_handles s"
  "rs_writer (at_call who q s) = rs_writer s" "rs_readers (at_call who q s) = rs_readers s" "rs_call (at_call who q s) = (rs_call s)(who := q)"
  by (simp_all add: at_call_def)

lemma at_phase_frame [simp]:
  "rs_stop (at_phase t q s) = rs_stop s" "rs_started (at_phase t q s) = rs_started s" "rs_handles (at_phase t q s) = rs_handles s"
  "rs_writer (at_phase t q s) = rs_writer s" "rs_readers (at_phase t q s) = (rs_readers s)[t := q]" "rs_call (at_phase t q s) = rs_call s"
  by (simp_all add: at_phase_def)

text \<open>A reader's turn changes no flag and no call, ends at most its own thread, and that only when told to stop.\<close>

lemma reader_turn_frame:
  "rs_stop (reader_turn inp t s) = rs_stop s" "rs_started (reader_turn inp t s) = rs_started s"
  "rs_handles (reader_turn inp t s) = rs_handles s" "rs_call (reader_turn inp t s) = rs_call s"
  by (auto simp: reader_turn_def reader_gone_def Let_def split: reader_phase.split reader_input.split)

lemma reader_turn_live:
  "live_readers (reader_turn inp t s) \<subseteq> live_readers s" "\<not> rs_stop s \<Longrightarrow> live_readers (reader_turn inp t s) = live_readers s"
  by (auto simp: reader_turn_def reader_gone_def live_at_phase Let_def split: reader_phase.split reader_input.split)
    (auto simp: live_readers_def)

lemma reader_at_turn: "reader_at p s \<Longrightarrow> reader_at p (reader_turn inp t s)"
proof -
  assume at: "reader_at p s"
  have less: "card (live_readers (reader_turn inp t s)) \<le> card (live_readers s)"
    by (rule card_mono [OF _ reader_turn_live(1)]) (simp add: live_readers_def)
  show ?thesis
    using at less reader_turn_live [where inp = inp and t = t and s = s] by (cases p) (auto simp: reader_turn_frame split: if_splits)
qed

definition writer_ok :: "reader_sys \<Rightarrow> bool" where
  "writer_ok s \<longleftrightarrow> (\<forall>t. rs_writer s = Some t \<longrightarrow> t \<in> live_readers s \<and> (\<forall>spare. rs_readers s ! t \<noteq> Handing spare))"

lemma writer_ok_turn: "writer_ok s \<Longrightarrow> writer_ok (reader_turn inp t s)"
  by (auto simp: writer_ok_def reader_turn_def reader_gone_def live_readers_def nth_list_update Let_def
      split: reader_phase.split reader_input.split)

lemma writer_ok_call: "writer_ok s \<Longrightarrow> writer_ok (call_turn who s)"
  by (auto simp: writer_ok_def call_turn_def start_turn_def ensure_turn_def stop_turn_def live_readers_def nth_append
      split: call_phase.split list.split)

lemma reader_at_call:
  assumes "reader_at (rs_call s 0) s"
  shows "reader_at (rs_call (call_turn 0 s) 0) (call_turn 0 s)"
proof (cases "rs_call s 0")
  case Ensure_Spawn
  then have none: "live_readers s = {}" using assms by simp
  have "live_readers (s\<lparr> rs_readers := rs_readers s @ [Looking] \<rparr>) = insert (length (rs_readers s)) (live_readers s)"
    by (auto simp: live_readers_def nth_append)
  with none Ensure_Spawn assms show ?thesis by (simp add: call_turn_def ensure_turn_def)
next
  case (Ensure_Track t)
  then show ?thesis using assms by (auto simp: call_turn_def ensure_turn_def)
next
  case Stop_Set
  then show ?thesis using assms by (auto simp: call_turn_def stop_turn_def split: if_splits)
next
  case Stop_Take
  then show ?thesis using assms by (auto simp: call_turn_def stop_turn_def)
next
  case (Stop_Join ts)
  then show ?thesis
    using assms by (cases ts) (auto simp: call_turn_def stop_turn_def live_readers_def)
qed (use assms in \<open>auto simp: call_turn_def start_turn_def ensure_turn_def split: if_splits\<close>)

lemma reader_ok_split: "reader_ok s \<longleftrightarrow> reader_at (rs_call s 0) s \<and> (\<forall>w. w \<noteq> 0 \<longrightarrow> rs_call s w = Idle) \<and> writer_ok s"
  by (simp add: reader_ok_def writer_ok_def)

lemma call_turn_others: "w \<noteq> who \<Longrightarrow> rs_call (call_turn who s) w = rs_call s w"
  by (auto simp: call_turn_def start_turn_def ensure_turn_def stop_turn_def split: call_phase.split list.split)

lemma reader_ok_step:
  assumes "seq_step s s'" and "reader_ok s"
  shows "reader_ok s'"
  using assms(1)
proof cases
  case (turn inp t)
  then show ?thesis
    using assms(2) reader_at_turn writer_ok_turn by (simp add: reader_ok_split reader_turn_frame)
next
  case (begins p)
  then show ?thesis
    using assms(2) by (auto simp: reader_ok_split call_begins_def writer_ok_def)
next
  case call
  then show ?thesis
    using assms(2) reader_at_call writer_ok_call call_turn_others by (simp add: reader_ok_split)
qed

lemma reader_ok_reachable: "seq_step\<^sup>*\<^sup>* reader_sys_new s \<Longrightarrow> reader_ok s"
proof (induction rule: rtranclp_induct)
  case base
  show ?case by (simp add: reader_ok_split reader_sys_new_def writer_ok_def live_readers_def)
qed (rule reader_ok_step)

section \<open>Stopping\<close>

text \<open>How many turns a reader that is told to stop has left.\<close>

fun turns_left :: "reader_phase \<Rightarrow> nat" where
  "turns_left Gone = 0"
| "turns_left (Handing _) = 2"
| "turns_left InCallback = 2"
| "turns_left _ = 1"

lemma stopped_turn:
  assumes "rs_stop s" and "t \<in> live_readers s" and "rs_call s (t + 1) = Idle"
  shows "sum_list (map turns_left (rs_readers (reader_turn inp t s))) < sum_list (map turns_left (rs_readers s))"
proof -
  have t: "t < length (rs_readers s)" using assms(2) by (simp add: live_readers_def)
  have upd: "sum_list ((map turns_left (rs_readers s))[t := k]) + turns_left (rs_readers s ! t) = sum_list (map turns_left (rs_readers s)) + k" for k
    using sum_list_update [of t "map turns_left (rs_readers s)" k] member_le_sum_list [of "turns_left (rs_readers s ! t)" "map turns_left (rs_readers s)"] t
    by simp
  show ?thesis
  proof (cases "rs_readers s ! t")
    case Gone
    then show ?thesis using assms(2) by (simp add: live_readers_def)
  qed (use assms t upd [of 0] upd [of 1] in \<open>auto simp: reader_turn_def reader_gone_def map_update Let_def\<close>)
qed

lemma turns_bounded:
  assumes "card (live_readers s) \<le> 1"
  shows "sum_list (map turns_left (rs_readers s)) \<le> 2"
proof -
  have two: "turns_left p \<le> 2" for p by (cases p) simp_all
  have "sum_list (map turns_left (rs_readers s)) = (\<Sum>t < length (rs_readers s). turns_left (rs_readers s ! t))"
    by (simp add: sum_list_sum_nth atLeast0LessThan)
  also have "\<dots> = (\<Sum>t \<in> live_readers s. turns_left (rs_readers s ! t))"
    by (rule sum.mono_neutral_right) (auto simp: live_readers_def)
  also have "\<dots> \<le> card (live_readers s) * 2" using sum_bounded_above [of "live_readers s" "\<lambda>t. turns_left (rs_readers s ! t)" 2] two by simp
  finally show ?thesis using assms by simp
qed

lemma join_returns:
  assumes "rs_call s 0 = Stop_Join ts" and "\<forall>t \<in> set ts. rs_readers s ! t = Gone"
  shows "rs_call ((call_turn 0 ^^ (length ts + 1)) s) 0 = Idle"
  using assms
proof (induction ts arbitrary: s)
  case (Cons t ts)
  have "call_turn 0 s = at_call 0 (Stop_Join ts) s" using Cons.prems by (simp add: call_turn_def stop_turn_def)
  then show ?case using Cons.IH [of "call_turn 0 s"] Cons.prems(2) by (simp add: funpow_swap1)
qed (simp add: call_turn_def stop_turn_def)

text \<open>C12. One reader.  A client used by one thread, and not from its callbacks, has between calls exactly one reader once it
  was started and none when it was not or was stopped, however the reader's turns fall; publishers write
  through a connection only while its reader lives and after the session was replayed on it; and a call to stop
  returns: the readers have at most two turns left, every turn of a living one counts, and when they are gone the
  call ends in one step for each handle and one more.\<close>

theorem one_reader:
  assumes "seq_step\<^sup>*\<^sup>* reader_sys_new s"
  shows "(rs_call s 0 = Idle \<longrightarrow> card (live_readers s) = (if rs_started s then 1 else 0) \<and> (rs_started s \<longrightarrow> \<not> rs_stop s))
    \<and> (\<forall>t spare. rs_writer s = Some t \<longrightarrow> t \<in> live_readers s \<and> rs_readers s ! t \<noteq> Handing spare)
    \<and> (\<forall>ts. rs_call s 0 = Stop_Join ts \<longrightarrow> sum_list (map turns_left (rs_readers s)) \<le> 2
         \<and> (\<forall>t \<in> live_readers s. \<forall>inp. sum_list (map turns_left (rs_readers (reader_turn inp t s))) < sum_list (map turns_left (rs_readers s)))
         \<and> ((\<forall>t \<in> set ts. rs_readers s ! t = Gone) \<longrightarrow> rs_call ((call_turn 0 ^^ (length ts + 1)) s) 0 = Idle))"
proof -
  have ok: "reader_at (rs_call s 0) s" "\<And>w. w \<noteq> 0 \<Longrightarrow> rs_call s w = Idle" "writer_ok s"
    using reader_ok_reachable [OF assms] by (simp_all add: reader_ok_split)
  have "rs_call s 0 = Idle \<Longrightarrow> card (live_readers s) = (if rs_started s then 1 else 0) \<and> (rs_started s \<longrightarrow> \<not> rs_stop s)"
    using ok(1) by (auto split: if_splits)
  moreover have "sum_list (map turns_left (rs_readers s)) \<le> 2" "\<And>t inp. t \<in> live_readers s \<Longrightarrow>
      sum_list (map turns_left (rs_readers (reader_turn inp t s))) < sum_list (map turns_left (rs_readers s))"
    if "rs_call s 0 = Stop_Join ts" for ts
    using ok(1,2) that turns_bounded [of s] stopped_turn [of s] by simp_all
  ultimately show ?thesis using ok(3) join_returns [of s] unfolding writer_ok_def by blast
qed

section \<open>More than one caller\<close>

text \<open>Steps of any caller; a number beyond every reader is another thread of the program.\<close>

datatype reader_act = Turn reader_input nat | Begin nat call_phase | Call nat

fun do_act :: "reader_act \<Rightarrow> reader_sys \<Rightarrow> reader_sys" where
  "do_act (Turn inp t) s = reader_turn inp t s"
| "do_act (Begin who p) s = at_call who p s"
| "do_act (Call who) s = call_turn who s"

definition start_acts :: "nat \<Rightarrow> reader_act list" where
  "start_acts who = Begin who Start_Init # replicate 6 (Call who)"

definition stop_acts :: "nat \<Rightarrow> reader_act list" where
  "stop_acts who = Begin who Stop_Set # replicate 3 (Call who)"

lemmas reader_acts = reader_sys_new_def start_acts_def stop_acts_def reader_turn_def reader_gone_def call_turn_def start_turn_def
  ensure_turn_def stop_turn_def at_call_def at_phase_def live_readers_def

theorem one_reader_witness:
  "card (live_readers (fold do_act (start_acts 0) reader_sys_new)) = 1"
proof -
  let ?acts = "start_acts 0"
  have step: "seq_step\<^sup>*\<^sup>* reader_sys_new ((call_turn 0 ^^ n) (at_call 0 Start_Init reader_sys_new))" for n
  proof (induction n)
    case 0
    show ?case by (auto simp: reader_sys_new_def call_begins_def intro!: r_into_rtranclp seq_step.begins)
  next
    case (Suc n)
    then show ?case by (auto intro: rtranclp.rtrancl_into_rtrancl seq_step.call)
  qed
  let ?s = "fold do_act ?acts reader_sys_new"
  have "?s = (call_turn 0 ^^ 6) (at_call 0 Start_Init reader_sys_new)" by (simp add: start_acts_def eval_nat_numeral)
  moreover have "rs_call ?s 0 = Idle" "rs_started ?s" by (simp_all add: reader_acts eval_nat_numeral)
  ultimately show ?thesis using one_reader [OF step [of 6]] by simp
qed

text \<open>A client stopped and started again in one of its own callbacks has two readers from then on: \<open>stop\<close> does not wait for
  the thread it runs on, and \<open>start\<close> clears the flag before that thread has seen it.\<close>

lemma callback_restart_doubles:
  "let s = fold do_act (start_acts 0 @ [Turn (ConnectionUp True) 0, Turn ReadOn 0, Turn ReadCalls 0] @ stop_acts 1 @ start_acts 1
       @ [Turn ReadOn 0, Turn (ConnectionUp True) 1, Turn ReadOn 1]) reader_sys_new
   in rs_readers s = [Receiving, Receiving] \<and> \<not> rs_stop s \<and> rs_call s 0 = Idle \<and> rs_call s 1 = Idle"
  by (simp add: reader_acts eval_nat_numeral)

text \<open>A call that needs the reader, overtaken by another thread's \<open>stop\<close> between its look at the flag and its claim to start
  the reader, leaves the claim standing without a reader; \<open>start\<close> then starts none.\<close>

lemma stop_race_loses_reader:
  "let s = fold do_act ([Begin 0 Ensure_Stop, Call 0] @ stop_acts 9 @ [Call 0, Call 0, Call 0, Turn NoConnection 0] @ start_acts 0)
       reader_sys_new
   in rs_started s \<and> \<not> rs_stop s \<and> rs_readers s = [Gone] \<and> rs_call s 0 = Idle \<and> rs_call s 9 = Idle"
  by (simp add: reader_acts eval_nat_numeral)

end
