(* ===== verification/Client_Telemetry.thy ===== *)
theory Client_Telemetry
  imports Client Telemetry_Relay Pacing
begin

text \<open>
  The client's side of the telemetry plane, \<^verbatim>\<open>client/src/telemetry.rs\<close>: listeners by topic hash, the
  datagrams it publishes and registers with, the receiving thread datagram by datagram and the keepalive
  thread round by round.  A callback is a number, and what it was run on is kept; whether a datagram could
  be sent and the clock readings are arguments.
\<close>

definition TELEMETRY_KEEPALIVE :: nat where "TELEMETRY_KEEPALIVE = 3000000000"
definition POLL_INTERVAL :: nat where "POLL_INTERVAL = 100000000"

record telemetry_topic =
  tt_channel :: string
  tt_listeners :: "nat list"

record client_telemetry =
  ct_listeners :: "(u32, telemetry_topic) hm"
  ct_next_key :: nat
  ct_started :: bool
  ct_keepalive :: bool
  ct_sent :: "bytes list"
  ct_called :: "(nat \<times> u64 \<times> bytes) list"

definition client_telemetry_new :: client_telemetry where
  "client_telemetry_new = \<lparr> ct_listeners = [], ct_next_key = 0, ct_started = False, ct_keepalive = False, ct_sent = [], ct_called = [] \<rparr>"

definition register_telemetry_listener :: "string \<Rightarrow> nat \<Rightarrow> (u32, telemetry_topic) hm \<Rightarrow> bool \<times> (u32, telemetry_topic) hm" where
  "register_telemetry_listener channel k listeners =
     (let hash = topic_hash channel;
          topic = (case hm_get listeners hash of Some t \<Rightarrow> t | None \<Rightarrow> \<lparr> tt_channel = channel, tt_listeners = [] \<rparr>);
          listeners = (if hm_has listeners hash then listeners else hm_insert listeners hash topic)
      in if tt_channel topic \<noteq> channel
         then (False, if tt_listeners topic = [] then hm_remove listeners hash else listeners)
         else (True, hm_insert listeners hash (topic\<lparr> tt_listeners := tt_listeners topic @ [k] \<rparr>)))"

text \<open>Where telemetry goes: the first IPv4 address of the host, else its first address.\<close>

datatype connect_error = Connect string string | TelemetryBind | Resolve string

definition is_ipv4 :: "socket_addr \<Rightarrow> bool" where
  "is_ipv4 a \<longleftrightarrow> length (addr_ip a) = 4"

definition resolve_telemetry_target :: "(string \<Rightarrow> u16 \<Rightarrow> socket_addr list option) \<Rightarrow> string \<Rightarrow> u16 \<Rightarrow> connect_error + socket_addr" where
  "resolve_telemetry_target lookup host port =
     (case lookup host port of
        None \<Rightarrow> Inl (Resolve host)
      | Some addresses \<Rightarrow>
          (case find is_ipv4 addresses of
             Some a \<Rightarrow> Inr a
           | None \<Rightarrow> (case addresses of a # _ \<Rightarrow> Inr a | [] \<Rightarrow> Inl (Resolve host))))"

section \<open>Building a client\<close>

definition DEFAULT_PORT :: u16 where "DEFAULT_PORT = 5810"
definition DEFAULT_TELEMETRY_PORT :: u16 where "DEFAULT_TELEMETRY_PORT = 5809"

record client_config =
  cfg_host :: string
  cfg_port :: u16
  cfg_request_timeout :: nat
  cfg_send_high_water_mark :: int
  cfg_telemetry_port :: u16
  cfg_busy_poll :: nat
  cfg_predict :: nat

definition default_config :: client_config where
  "default_config = \<lparr> cfg_host = ''127.0.0.1'', cfg_port = DEFAULT_PORT, cfg_request_timeout = 500000000,
     cfg_send_high_water_mark = 500, cfg_telemetry_port = DEFAULT_TELEMETRY_PORT, cfg_busy_poll = 0, cfg_predict = DEFAULT_MARGIN \<rparr>"

definition endpoint :: "client_config \<Rightarrow> string" where
  "endpoint config = ''ws://'' @ url_host (cfg_host config) @ '':'' @ show_nat (unat (cfg_port config)) @ TABLE_PATH"

text \<open>The name is looked up twice, and a socket bound in between; \<open>bound\<close>: whether that worked.  What is built
  besides the client: the endpoint it dials and where its telemetry goes.\<close>

definition try_with_config ::
  "(string \<Rightarrow> u16 \<Rightarrow> socket_addr list option) \<Rightarrow> bool \<Rightarrow> client_config \<Rightarrow> connect_error + client \<times> client_telemetry \<times> string \<times> socket_addr" where
  "try_with_config lookup bound config =
     (if lookup (cfg_host config) (cfg_port config) = None then Inl (Connect ''WebSocket'' (endpoint config))
      else if \<not> bound then Inl TelemetryBind
      else case resolve_telemetry_target lookup (cfg_host config) (cfg_telemetry_port config) of
             Inl e \<Rightarrow> Inl e
           | Inr target \<Rightarrow> Inr (client_new (cfg_send_high_water_mark config), client_telemetry_new, endpoint config, target))"

section \<open>Datagrams out\<close>

definition publish_telemetry :: "bool \<Rightarrow> u64 \<Rightarrow> u64 \<Rightarrow> string \<Rightarrow> bytes \<Rightarrow> client \<Rightarrow> bytes \<times> client" where
  "publish_telemetry sent logged_at now channel payload c =
     (let c = c\<lparr> c_logger := map_option (submit (CmdRaw channel logged_at payload)) (c_logger c) \<rparr>;
          dgram = (case tel_encode (replicate (HEADER_LEN + length payload) 0) (topic_hash channel) now payload of
                     Some (len, buf) \<Rightarrow> take len buf
                   | None \<Rightarrow> [])
      in (dgram, if sent then c else client_drop c))"

definition registration :: "u64 \<Rightarrow> u32 \<Rightarrow> bytes" where
  "registration now channel_hash =
     (case encode_registration now (replicate HEADER_LEN 0) channel_hash of
        Some (len, buf) \<Rightarrow> take len buf
      | None \<Rightarrow> [])"

definition ct_register :: "u64 \<Rightarrow> u32 \<Rightarrow> client_telemetry \<Rightarrow> client_telemetry" where
  "ct_register now channel_hash t = t\<lparr> ct_sent := ct_sent t @ [registration now channel_hash] \<rparr>"

section \<open>Subscribing\<close>

text \<open>\<open>halted\<close> is the client's stop flag.\<close>

definition start_telemetry_receiver :: "bool \<Rightarrow> client_telemetry \<Rightarrow> client_telemetry" where
  "start_telemetry_receiver halted t = (if halted \<or> ct_started t then t else t\<lparr> ct_started := True \<rparr>)"

definition start_telemetry_keepalive :: "bool \<Rightarrow> client_telemetry \<Rightarrow> client_telemetry" where
  "start_telemetry_keepalive halted t = (if halted \<or> ct_keepalive t then t else t\<lparr> ct_keepalive := True \<rparr>)"

definition subscribe_telemetry_timestamped :: "bool \<Rightarrow> u64 \<Rightarrow> string \<Rightarrow> client_telemetry \<Rightarrow> nat option \<times> client_telemetry" where
  "subscribe_telemetry_timestamped halted now channel t =
     (let k = ct_next_key t in
      case register_telemetry_listener channel k (ct_listeners t) of
        (False, listeners) \<Rightarrow> (None, t\<lparr> ct_listeners := listeners \<rparr>)
      | (True, listeners) \<Rightarrow>
          let t = ct_register now (topic_hash channel) (t\<lparr> ct_listeners := listeners, ct_next_key := k + 1 \<rparr>)
          in (Some k, start_telemetry_keepalive halted (start_telemetry_receiver halted t)))"

definition unsubscribe_telemetry :: "u32 \<Rightarrow> nat \<Rightarrow> client_telemetry \<Rightarrow> client_telemetry" where
  "unsubscribe_telemetry hash k t =
     (case hm_get (ct_listeners t) hash of
        None \<Rightarrow> t
      | Some topic \<Rightarrow>
          let ks = filter (\<lambda>k'. k' \<noteq> k) (tt_listeners topic) in
          t\<lparr> ct_listeners := (if ks = [] then hm_remove (ct_listeners t) hash
                             else hm_insert (ct_listeners t) hash (topic\<lparr> tt_listeners := ks \<rparr>)) \<rparr>)"

section \<open>The threads\<close>

definition receive_datagram :: "bytes \<Rightarrow> client_telemetry \<Rightarrow> client_telemetry" where
  "receive_datagram received t =
     (case tel_decode (take MAX_DATAGRAM received) of
        None \<Rightarrow> t
      | Some (channel_hash, timestamp_us, payload) \<Rightarrow>
          let callbacks = (case hm_get (ct_listeners t) channel_hash of Some topic \<Rightarrow> tt_listeners topic | None \<Rightarrow> [])
          in t\<lparr> ct_called := ct_called t @ map (\<lambda>k. (k, timestamp_us, payload)) callbacks \<rparr>)"

text \<open>The keepalive thread reads the clock until the interval is over, then registers every channel anew.\<close>

definition keepalive_wait :: "nat \<Rightarrow> nat list \<Rightarrow> nat option" where
  "keepalive_wait begun readings = find (\<lambda>now. \<not> now < begun + TELEMETRY_KEEPALIVE) readings"

definition keepalive_round :: "u64 \<Rightarrow> client_telemetry \<Rightarrow> client_telemetry" where
  "keepalive_round now t = fold (ct_register now) (map fst (ct_listeners t)) t"

text \<open>Starting and stopping the client, with its telemetry.\<close>

definition start_both :: "client \<times> client_telemetry \<Rightarrow> client \<times> client_telemetry" where
  "start_both x =
     (case x of (c, t) \<Rightarrow>
        if c_initialized c \<and> \<not> c_stop c then (c, t)
        else (client_start c,
              if ct_listeners t \<noteq> [] then start_telemetry_keepalive False (start_telemetry_receiver False t) else t))"

definition stop_both :: "client \<times> client_telemetry \<Rightarrow> client \<times> client_telemetry" where
  "stop_both x = (case x of (c, t) \<Rightarrow> (client_stop c, t\<lparr> ct_started := False, ct_keepalive := False \<rparr>))"

section \<open>What the datagrams say\<close>

lemma registration_datagram: "registration now h = datagram MAGIC_REGISTER h now []"
  by (simp add: registration_def encode_registration_def encode_with_layout)

lemma registration_read: "decode_registration (take MAX_DATAGRAM (registration now h)) = Some h"
  using decode_with_datagram [of "[]" MAGIC_REGISTER h now "[]"]
  by (simp add: registration_datagram decode_registration_def MAX_DATAGRAM_def HEADER_LEN_def)

lemma publish_datagram: "fst (publish_telemetry sent logged_at now channel payload c) = datagram MAGIC (topic_hash channel) now payload"
  by (simp add: publish_telemetry_def tel_encode_def encode_with_layout Let_def)

lemma publish_read:
  assumes "HEADER_LEN + length payload \<le> MAX_DATAGRAM"
  shows "tel_decode (take MAX_DATAGRAM (fst (publish_telemetry sent logged_at now channel payload c))) = Some (topic_hash channel, now, payload)"
  using decode_with_datagram [of payload MAGIC "topic_hash channel" now "[]"] assms
  by (simp add: publish_datagram tel_decode_def)

lemma keepalive_sends: "ct_sent (keepalive_round now t) = ct_sent t @ map (registration now) (map fst (ct_listeners t))"
proof -
  have "ct_sent (fold (ct_register now) hs t) = ct_sent t @ map (registration now) hs" for hs
    by (induction hs arbitrary: t) (simp_all add: ct_register_def)
  then show ?thesis by (simp add: keepalive_round_def)
qed

section \<open>A lease kept alive\<close>

definition renewal :: "u32 \<Rightarrow> socket_addr \<Rightarrow> arrival \<Rightarrow> bool" where
  "renewal h a x \<longleftrightarrow> arr_from x = a \<and> decode_registration (take MAX_DATAGRAM (arr_bytes x)) = Some h"

text \<open>No datagram arrives more than a lease after the last renewal.\<close>

fun renewed :: "u32 \<Rightarrow> socket_addr \<Rightarrow> nat \<Rightarrow> arrival list \<Rightarrow> bool" where
  "renewed h a t [] \<longleftrightarrow> True"
| "renewed h a t (x # xs) \<longleftrightarrow> t \<le> arr_now x \<and> arr_now x < t + TELEMETRY_TTL
     \<and> renewed h a (if renewal h a x then arr_now x else t) xs"

lemma poisoned_register [simp]: "tel_poisoned (snd (register_telemetry now h a st)) = tel_poisoned st"
  by (simp add: register_telemetry_def Let_def)

lemma poisoned_step [simp]: "tel_poisoned (relay_step own x st) = tel_poisoned st"
  by (simp add: relay_step_def relay_datagram_def Let_def split: option.split)

lemma live_lease_accepted:
  assumes ok: "relay_ok st" "\<not> tel_poisoned st" and lease: "holds_lease h a t st" and now: "now < t + TELEMETRY_TTL"
  shows "accepts now h a st"
proof -
  obtain seen where seen: "t \<le> seen" "hm_get (leases_of (tel_registry st) h) a = Some seen"
    using lease by (auto simp: holds_lease_def)
  have rok: "hm_ok (tel_registry st)" using ok(1) by (simp add: relay_ok_def)
  have "hm_get (leases_of (sweep now (tel_registry st)) h) a = Some seen"
    unfolding leases_of_sweep [OF rok] by (rule hm_get_live [OF hm_ok_leases_of [OF ok(1)] seen(2)]) (use seen(1) now in simp)
  moreover from this have "hm_has (sweep now (tel_registry st)) h" by (auto simp: leases_of_def split: option.splits)
  ultimately show ?thesis using ok(2) by (simp add: accepts_def Let_def)
qed

lemma renewed_step:
  assumes "relay_ok st" "\<not> tel_poisoned st" "holds_lease h a t st" "t \<le> arr_now x" "arr_now x < t + TELEMETRY_TTL"
  shows "holds_lease h a (if renewal h a x then arr_now x else t) (relay_step own x st)"
proof (cases "renewal h a x")
  case True
  then show ?thesis
    using lease_gained [OF assms(1) live_lease_accepted [OF assms(1,2,3,5)]]
    by (simp add: renewal_def relay_step_def relay_datagram_def Let_def)
qed (use lease_kept_step [OF assms(1,3,4,5)] in simp)

lemma renewed_lease:
  "relay_ok st \<Longrightarrow> \<not> tel_poisoned st \<Longrightarrow> holds_lease h a t st \<Longrightarrow> renewed h a t xs \<Longrightarrow> \<exists>t'. holds_lease h a t' (relay_run own xs st)"
proof (induction xs arbitrary: t st)
  case (Cons x xs)
  let ?t = "if renewal h a x then arr_now x else t"
  have "holds_lease h a ?t (relay_step own x st)" by (rule renewed_step) (use Cons.prems in simp_all)
  from Cons.IH [OF relay_ok_step [OF Cons.prems(1)] _ this] Cons.prems show ?case by (simp add: relay_run_def)
qed (auto simp: relay_run_def)

text \<open>The readings of the keepalive thread, none more than \<open>g\<close> after the one before.\<close>

fun spaced :: "nat \<Rightarrow> nat \<Rightarrow> nat list \<Rightarrow> bool" where
  "spaced g prev [] \<longleftrightarrow> True"
| "spaced g prev (x # xs) \<longleftrightarrow> x \<le> prev + g \<and> spaced g x xs"

lemma keepalive_wait_bound:
  assumes "spaced g begun readings" and "list_ex (\<lambda>x. begun + TELEMETRY_KEEPALIVE \<le> x) readings"
  shows "\<exists>w. keepalive_wait begun readings = Some w \<and> begun + TELEMETRY_KEEPALIVE \<le> w \<and> w < begun + TELEMETRY_KEEPALIVE + g"
proof -
  have "\<exists>w. find (\<lambda>now. \<not> now < due) readings = Some w \<and> due \<le> w \<and> w < due + g"
    if "spaced g prev readings" "prev < due" "list_ex (\<lambda>x. due \<le> x) readings" for due prev readings
    using that by (induction readings arbitrary: prev) (auto simp: not_less)
  from this [OF assms(1) _ assms(2)] show ?thesis by (simp add: keepalive_wait_def TELEMETRY_KEEPALIVE_def)
qed

text \<open>C33. A telemetry subscription is served.  While the relay hears a renewal of the subscriber's lease at
  least once per lease, every datagram published on the channel that reaches it is sent on to the
  subscriber, whatever else arrives, and the subscriber's receiver runs every listener of the channel, in
  order, on the publisher's timestamp and payload.  A keepalive round renews every channel listened to,
  and, when the thread wakes within 6.9 seconds of each poll, one round's renewals come less than a lease after
  the last's.\<close>

theorem telemetry_subscription_served:
  assumes relay: "relay_ok st" "\<not> tel_poisoned st" and lease: "holds_lease (topic_hash channel) a begun st"
    and renewed: "renewed (topic_hash channel) a begun xs" and target: "own \<noteq> Some (addr_port a)"
    and topic: "hm_get (ct_listeners t) (topic_hash channel) = Some topic"
    and dgram: "dgram = fst (publish_telemetry sent logged_at now channel payload c)" "HEADER_LEN + length payload \<le> MAX_DATAGRAM"
    and thread: "spaced g woken readings" "list_ex (\<lambda>x. woken + TELEMETRY_KEEPALIVE \<le> x) readings" "g \<le> 6900000000"
  shows "(a, dgram) \<in> set (snd (relay_datagram own later from dgram (relay_run own xs st)))
    \<and> ct_called (receive_datagram dgram t) = ct_called t @ map (\<lambda>k. (k, now, payload)) (tt_listeners topic)
    \<and> (\<exists>x \<in> set (drop (length (ct_sent t)) (ct_sent (keepalive_round micros t))).
         renewal (topic_hash channel) a \<lparr> arr_now = arrived_at, arr_from = a, arr_bytes = x \<rparr>)
    \<and> (\<exists>w. keepalive_wait woken readings = Some w \<and> woken < w \<and> w < woken + TELEMETRY_TTL)"
proof -
  let ?h = "topic_hash channel"
  note read = publish_read [OF dgram(2), of sent logged_at now channel c, folded dgram(1)]
  have "decode_registration (take MAX_DATAGRAM dgram) = None" using read not_both by force
  moreover have "a \<in> set (targets (relay_run own xs st) ?h)"
    using renewed_lease [OF relay lease renewed, of own] by (auto simp: holds_lease_def)
  moreover have "take MAX_DATAGRAM dgram = dgram" using dgram(2) by (simp add: dgram(1) publish_datagram)
  ultimately have relayed: "(a, dgram) \<in> set (snd (relay_datagram own later from dgram (relay_run own xs st)))"
    using read target by (simp add: relay_datagram_def Let_def image_iff)
  have heard: "ct_called (receive_datagram dgram t) = ct_called t @ map (\<lambda>k. (k, now, payload)) (tt_listeners topic)"
    using read topic by (simp add: receive_datagram_def Let_def)
  have "registration micros ?h \<in> set (drop (length (ct_sent t)) (ct_sent (keepalive_round micros t)))"
    using map_of_SomeD [OF topic] by (force simp: keepalive_sends)
  then have renews: "\<exists>x \<in> set (drop (length (ct_sent t)) (ct_sent (keepalive_round micros t))).
      renewal ?h a \<lparr> arr_now = arrived_at, arr_from = a, arr_bytes = x \<rparr>"
    using registration_read [of micros ?h] unfolding renewal_def by (intro bexI) simp_all
  from keepalive_wait_bound [OF thread(1,2)] thread(3) relayed heard renews show ?thesis
    by (auto simp: TELEMETRY_KEEPALIVE_def TELEMETRY_TTL_def)
qed

definition one_listener :: client_telemetry where
  "one_listener = snd (subscribe_telemetry_timestamped False 0 ''a'' client_telemetry_new)"

theorem telemetry_subscription_served_witness:
  "ct_called (receive_datagram (fst (publish_telemetry True 0 7 ''a'' [5] (client_new 1))) one_listener) = [(0, 7, [5])]"
proof -
  let ?a = "SocketAddr [127] 9" and ?h = "topic_hash ''a''"
  let ?st = "snd (register_telemetry 0 ?h ?a telemetry_new)"
  have acc: "accepts 0 ?h ?a telemetry_new"
    by (simp add: accepts_def telemetry_new_def sweep_def drop_empty_def hm_map_def leases_of_def
        MAX_TELEMETRY_CHANNELS_def MAX_TELEMETRY_SUBSCRIBERS_def)
  have st: "relay_ok ?st" "\<not> tel_poisoned ?st" "holds_lease ?h ?a 0 ?st"
    using relay_ok_register [OF relay_ok_new] lease_gained [OF relay_ok_new acc] by (simp_all add: telemetry_new_def)
  have listeners: "hm_get (ct_listeners one_listener) ?h = Some \<lparr> tt_channel = ''a'', tt_listeners = [0] \<rparr>"
    "ct_called one_listener = []"
    by (simp_all add: one_listener_def subscribe_telemetry_timestamped_def client_telemetry_new_def register_telemetry_listener_def
        Let_def start_telemetry_keepalive_def start_telemetry_receiver_def ct_register_def hm_insert_def)
  show ?thesis
    using telemetry_subscription_served [OF st, where xs = "[]" and own = None and t = one_listener and sent = True and logged_at = 0
        and now = 7 and payload = "[5]" and c = "client_new 1" and g = 3000000001 and woken = 0 and readings = "[3000000000]"] listeners
    by (simp add: HEADER_LEN_def MAX_DATAGRAM_def TELEMETRY_KEEPALIVE_def)
qed

lemma telemetry_names_collide: "topic_hash ''costarring'' = topic_hash ''liquid''"
  by code_simp

text \<open>Two names of one hash: a client refuses to listen to both, and still a listener of one hears what is
  published on the other, since a datagram carries the hash alone.\<close>

lemma collision_cross_wired:
  fixes t :: client_telemetry
  defines "t \<equiv> snd (subscribe_telemetry_timestamped False 0 ''costarring'' client_telemetry_new)"
  shows "fst (subscribe_telemetry_timestamped False 0 ''liquid'' t) = None
    \<and> ct_called (receive_datagram (fst (publish_telemetry True 0 7 ''liquid'' [1] c)) t) = [(0, 7, [1])]"
proof -
  let ?h = "topic_hash ''liquid''"
  have listeners: "ct_listeners t = [(?h, \<lparr> tt_channel = ''costarring'', tt_listeners = [0] \<rparr>)]" and called: "ct_called t = []"
    by (simp_all add: t_def subscribe_telemetry_timestamped_def client_telemetry_new_def register_telemetry_listener_def Let_def
        start_telemetry_keepalive_def start_telemetry_receiver_def ct_register_def hm_insert_def telemetry_names_collide)
  show ?thesis
    using publish_read [of "[1]" True 0 7 "''liquid''" c] listeners called
    by (simp add: subscribe_telemetry_timestamped_def register_telemetry_listener_def receive_datagram_def Let_def
        MAX_DATAGRAM_def HEADER_LEN_def)
qed

end
