(* ===== verification/Client_Connection.thy ===== *)
theory Client_Connection
  imports Client_Telemetry
begin

text \<open>
  The two halves of a client's connection (\<^verbatim>\<open>client/src/connection.rs\<close>): the reading half, which buffers what the WebSocket
  layer writes through it and hands it over under the shared writer's lock, the duplicate that publishers write
  through, and the host named in the opening request.
\<close>

section \<open>Splitting a connection\<close>

text \<open>A stream is plain or encrypted; only a plain one can be duplicated, if the system lets it.\<close>

datatype tls_stream = PlainStream | TlsStream

record read_half =
  rh_stream :: tls_stream
  rh_pending :: bytes
  rh_busy_poll :: nat
  rh_predict :: nat

text \<open>\<open>cloned\<close>: whether the system duplicated the socket; \<open>supported\<close>: whether the platform can wait on it.  The result
  says whether there is a writer for the publishers.\<close>

definition split_connection :: "bool \<Rightarrow> bool \<Rightarrow> tls_stream \<Rightarrow> nat \<Rightarrow> nat \<Rightarrow> read_half \<times> bool" where
  "split_connection supported cloned str busy_poll predict =
     (let duplicate = (case str of PlainStream \<Rightarrow> cloned | TlsStream \<Rightarrow> False);
          (busy_poll, predict) = (if supported then (busy_poll, predict) else (0, 0))
      in (\<lparr> rh_stream = str, rh_pending = [], rh_busy_poll = busy_poll, rh_predict = predict \<rparr>, duplicate))"

section \<open>Writing\<close>

text \<open>What is on the socket, in the pieces that were written under one lock: the reader's, and the publishers' frames.\<close>

datatype piece = FromReader bytes | FromPublisher bytes

definition read_half_write :: "bytes \<Rightarrow> read_half \<Rightarrow> nat \<times> read_half" where
  "read_half_write buf r = (length buf, r\<lparr> rh_pending := rh_pending r @ buf \<rparr>)"

text \<open>Flushing: \<open>short\<close> is how much of a failing write got out, and nothing is cleared then.  With a shared writer or
  without, the bytes go to the same socket.\<close>

definition read_half_flush :: "nat option \<Rightarrow> read_half \<Rightarrow> piece list \<Rightarrow> bool \<times> read_half \<times> piece list" where
  "read_half_flush short r out =
     (if rh_pending r = [] then (True, r, out)
      else case short of
        None \<Rightarrow> (True, r\<lparr> rh_pending := [] \<rparr>, out @ [FromReader (rh_pending r)])
      | Some n \<Rightarrow> (False, r, out @ [FromReader (take n (rh_pending r))]))"

text \<open>The writes of one connection: the reader's, its flushes, and a publisher's frame through the duplicate.\<close>

datatype half_op = HalfWrite bytes | HalfFlush | PublishFrame bytes

fun half_run :: "half_op \<Rightarrow> read_half \<times> piece list \<Rightarrow> read_half \<times> piece list" where
  "half_run (HalfWrite b) (r, out) = (snd (read_half_write b r), out)"
| "half_run HalfFlush (r, out) = snd (read_half_flush None r out)"
| "half_run (PublishFrame b) (r, out) = (r, out @ [FromPublisher b])"

definition reader_bytes :: "piece list \<Rightarrow> bytes" where
  "reader_bytes out = concat (map (\<lambda>p. case p of FromReader b \<Rightarrow> b | FromPublisher _ \<Rightarrow> []) out)"

definition publisher_frames :: "piece list \<Rightarrow> bytes list" where
  "publisher_frames out = filter_map (\<lambda>p. case p of FromPublisher b \<Rightarrow> Some b | FromReader _ \<Rightarrow> None) out"

text \<open>Whatever order the reader and the publishers write in, nothing the reader wrote is lost or reordered, it is on the
  socket up to what waits for a flush, and every published frame is there whole and in order.\<close>

lemma halves_share_socket:
  fixes ops :: "half_op list" and r :: read_half and out :: "piece list"
  assumes "fold half_run ops (r, out) = (r', out')"
  shows "reader_bytes out' @ rh_pending r'
      = reader_bytes out @ rh_pending r @ concat (map (\<lambda>p. case p of HalfWrite b \<Rightarrow> b | _ \<Rightarrow> []) ops)"
    and "publisher_frames out'
      = publisher_frames out @ filter_map (\<lambda>p. case p of PublishFrame b \<Rightarrow> Some b | _ \<Rightarrow> None) ops"
proof -
  have "reader_bytes out' @ rh_pending r'
      = reader_bytes out @ rh_pending r @ concat (map (\<lambda>p. case p of HalfWrite b \<Rightarrow> b | _ \<Rightarrow> []) ops)
    \<and> publisher_frames out' = publisher_frames out @ filter_map (\<lambda>p. case p of PublishFrame b \<Rightarrow> Some b | _ \<Rightarrow> None) ops"
    using assms
  proof (induction ops arbitrary: r out)
    case (Cons p ops)
    obtain r1 out1 where step: "half_run p (r, out) = (r1, out1)" by fastforce
    then have "reader_bytes out1 @ rh_pending r1 = reader_bytes out @ rh_pending r @ (case p of HalfWrite b \<Rightarrow> b | _ \<Rightarrow> [])"
      "publisher_frames out1 = publisher_frames out @ (case p of PublishFrame b \<Rightarrow> [b] | _ \<Rightarrow> [])"
      by (cases p; auto simp: read_half_write_def read_half_flush_def reader_bytes_def publisher_frames_def split: if_splits)+
    with Cons.IH [of r1 out1] Cons.prems step show ?case by (cases p) simp_all
  qed simp
  then show "reader_bytes out' @ rh_pending r'
      = reader_bytes out @ rh_pending r @ concat (map (\<lambda>p. case p of HalfWrite b \<Rightarrow> b | _ \<Rightarrow> []) ops)"
    "publisher_frames out' = publisher_frames out @ filter_map (\<lambda>p. case p of PublishFrame b \<Rightarrow> Some b | _ \<Rightarrow> None) ops"
    by blast+
qed

section \<open>The opening request\<close>

definition host_header :: "string \<Rightarrow> string" where
  "host_header url =
     (case strip_prefix ''ws://'' url of
        Some rest \<Rightarrow> (case split_at (CHR ''/'') rest of host # _ \<Rightarrow> host | [] \<Rightarrow> [])
      | None \<Rightarrow> [])"

datatype ws_io_error = WouldBlock | TimedOut | OtherIo | NotIo

definition is_timeout :: "ws_io_error \<Rightarrow> bool" where
  "is_timeout e \<longleftrightarrow> e = WouldBlock \<or> e = TimedOut"

lemma split_at_first: "c \<notin> set a \<Longrightarrow> split_at c (a @ c # b) = a # split_at c b"
  by (induction a) auto

lemma show_nat_no_slash: "CHR ''/'' \<notin> set (show_nat n)"
proof (induction n rule: show_nat.induct)
  case (1 n)
  have "char_of (48 + k) \<noteq> CHR ''/''" if "k < 10" for k :: nat
  proof
    assume "char_of (48 + k) = CHR ''/''"
    then have "of_char (char_of (48 + k)) = (47 :: nat)" by simp
    then show False using that by (simp add: of_char_of)
  qed
  from this [of n] this [of "n mod 10"] have "n < 10 \<Longrightarrow> CHR ''/'' \<noteq> char_of (48 + n)" "CHR ''/'' \<noteq> char_of (48 + n mod 10)"
    by (auto simp del: char_of_eq_iff)
  with 1 show ?case by (subst show_nat.simps) simp
qed

text \<open>The request names the host and port of the client's endpoint.\<close>

lemma endpoint_host:
  assumes "CHR ''/'' \<notin> set (cfg_host config)"
  shows "host_header (endpoint config) = url_host (cfg_host config) @ '':'' @ show_nat (unat (cfg_port config))"
proof -
  let ?h = "url_host (cfg_host config) @ '':'' @ show_nat (unat (cfg_port config))"
  have "strip_prefix ''ws://'' (endpoint config) = Some (?h @ CHR ''/'' # ''nt/test'')"
    by (simp add: strip_prefix_def starts_with_def endpoint_def TABLE_PATH_def)
  moreover have "CHR ''/'' \<notin> set ?h" using assms show_nat_no_slash by (auto simp: url_host_def)
  ultimately show ?thesis unfolding host_header_def using split_at_first [of "CHR ''/''" ?h "''nt/test''"] by simp
qed

end
