(* ===== verification/Client_Typed.thy ===== *)
theory Client_Typed
  imports Publish_Path
begin

text \<open>
  The typed calls of the client, \<^verbatim>\<open>client/src/typed.rs\<close>: one publishing call per type, and the reads
  that decode a structured value, with what becomes of a structured value that is published and read.
\<close>

section \<open>Publishing by type\<close>

definition send_kind :: "client_codec \<Rightarrow> (nat \<Rightarrow> bool) \<Rightarrow> u64 \<Rightarrow> string \<Rightarrow> kind \<Rightarrow> client \<Rightarrow> client" where
  "send_kind K sock now channel k = send_message K sock now channel (value_of_kind (cc_prost K) k)"

definition send_string :: "client_codec \<Rightarrow> (nat \<Rightarrow> bool) \<Rightarrow> u64 \<Rightarrow> string \<Rightarrow> string \<Rightarrow> client \<Rightarrow> client" where
  "send_string K sock now channel data = send_kind K sock now channel (KString data)"

definition send_i32 :: "client_codec \<Rightarrow> (nat \<Rightarrow> bool) \<Rightarrow> u64 \<Rightarrow> string \<Rightarrow> u32 \<Rightarrow> client \<Rightarrow> client" where
  "send_i32 K sock now channel data = send_kind K sock now channel (KInt32 data)"

definition send_i64 :: "client_codec \<Rightarrow> (nat \<Rightarrow> bool) \<Rightarrow> u64 \<Rightarrow> string \<Rightarrow> u64 \<Rightarrow> client \<Rightarrow> client" where
  "send_i64 K sock now channel data = send_kind K sock now channel (KInt64 data)"

definition send_u32 :: "client_codec \<Rightarrow> (nat \<Rightarrow> bool) \<Rightarrow> u64 \<Rightarrow> string \<Rightarrow> u32 \<Rightarrow> client \<Rightarrow> client" where
  "send_u32 K sock now channel data = send_kind K sock now channel (KUint32 data)"

definition send_u64 :: "client_codec \<Rightarrow> (nat \<Rightarrow> bool) \<Rightarrow> u64 \<Rightarrow> string \<Rightarrow> u64 \<Rightarrow> client \<Rightarrow> client" where
  "send_u64 K sock now channel data = send_kind K sock now channel (KUint64 data)"

definition send_bool :: "client_codec \<Rightarrow> (nat \<Rightarrow> bool) \<Rightarrow> u64 \<Rightarrow> string \<Rightarrow> bool \<Rightarrow> client \<Rightarrow> client" where
  "send_bool K sock now channel data = send_kind K sock now channel (KBool data)"

definition send_double :: "client_codec \<Rightarrow> (nat \<Rightarrow> bool) \<Rightarrow> u64 \<Rightarrow> string \<Rightarrow> f64 \<Rightarrow> client \<Rightarrow> client" where
  "send_double K sock now channel data = send_kind K sock now channel (KDouble data)"

definition send_float :: "client_codec \<Rightarrow> (nat \<Rightarrow> bool) \<Rightarrow> u64 \<Rightarrow> string \<Rightarrow> f32 \<Rightarrow> client \<Rightarrow> client" where
  "send_float K sock now channel data = send_kind K sock now channel (KFloat data)"

definition send_bytes :: "client_codec \<Rightarrow> (nat \<Rightarrow> bool) \<Rightarrow> u64 \<Rightarrow> string \<Rightarrow> bytes \<Rightarrow> client \<Rightarrow> client" where
  "send_bytes K sock now channel data = send_kind K sock now channel (KBytes data)"

definition send_string_list :: "client_codec \<Rightarrow> (nat \<Rightarrow> bool) \<Rightarrow> u64 \<Rightarrow> string \<Rightarrow> string list \<Rightarrow> client \<Rightarrow> client" where
  "send_string_list K sock now channel data = send_kind K sock now channel (KStringList data)"

definition send_float_list :: "client_codec \<Rightarrow> (nat \<Rightarrow> bool) \<Rightarrow> u64 \<Rightarrow> string \<Rightarrow> f32 list \<Rightarrow> client \<Rightarrow> client" where
  "send_float_list K sock now channel data = send_kind K sock now channel (KFloatList data)"

definition send_bytes_list :: "client_codec \<Rightarrow> (nat \<Rightarrow> bool) \<Rightarrow> u64 \<Rightarrow> string \<Rightarrow> bytes list \<Rightarrow> client \<Rightarrow> client" where
  "send_bytes_list K sock now channel data = send_kind K sock now channel (KBytesList data)"

definition send_bool_list :: "client_codec \<Rightarrow> (nat \<Rightarrow> bool) \<Rightarrow> u64 \<Rightarrow> string \<Rightarrow> bool list \<Rightarrow> client \<Rightarrow> client" where
  "send_bool_list K sock now channel data = send_kind K sock now channel (KBoolList data)"

definition send_double_list :: "client_codec \<Rightarrow> (nat \<Rightarrow> bool) \<Rightarrow> u64 \<Rightarrow> string \<Rightarrow> f64 list \<Rightarrow> client \<Rightarrow> client" where
  "send_double_list K sock now channel data = send_kind K sock now channel (KDoubleList data)"

definition send_integer_list :: "client_codec \<Rightarrow> (nat \<Rightarrow> bool) \<Rightarrow> u64 \<Rightarrow> string \<Rightarrow> u32 list \<Rightarrow> client \<Rightarrow> client" where
  "send_integer_list K sock now channel data = send_kind K sock now channel (KIntegerList data)"

definition send_long_list :: "client_codec \<Rightarrow> (nat \<Rightarrow> bool) \<Rightarrow> u64 \<Rightarrow> string \<Rightarrow> u64 list \<Rightarrow> client \<Rightarrow> client" where
  "send_long_list K sock now channel data = send_kind K sock now channel (KLongList data)"

definition send_coordinates :: "client_codec \<Rightarrow> (nat \<Rightarrow> bool) \<Rightarrow> u64 \<Rightarrow> string \<Rightarrow> (f64 \<times> f64) list \<Rightarrow> client \<Rightarrow> client" where
  "send_coordinates K sock now channel data =
     send_kind K sock now channel (KCoordinateList (map (\<lambda>(x, y). \<lparr> co_x = x, co_y = y \<rparr>) data))"

definition send_bezier_curve :: "client_codec \<Rightarrow> (nat \<Rightarrow> bool) \<Rightarrow> u64 \<Rightarrow> string \<Rightarrow> bezier_curve \<Rightarrow> client \<Rightarrow> client" where
  "send_bezier_curve K sock now channel curve = send_kind K sock now channel (KBezierCurve curve)"

definition send_bezier_curves :: "client_codec \<Rightarrow> (nat \<Rightarrow> bool) \<Rightarrow> u64 \<Rightarrow> string \<Rightarrow> bezier_curves \<Rightarrow> client \<Rightarrow> client" where
  "send_bezier_curves K sock now channel curves = send_kind K sock now channel (KBezierCurves curves)"

definition send_bezier_curves_list ::
  "client_codec \<Rightarrow> (nat \<Rightarrow> bool) \<Rightarrow> u64 \<Rightarrow> string \<Rightarrow> bezier_curves list \<Rightarrow> client \<Rightarrow> client" where
  "send_bezier_curves_list K sock now channel values = send_kind K sock now channel (KBezierCurvesList values)"

definition send_unknown_bytes :: "client_codec \<Rightarrow> (nat \<Rightarrow> bool) \<Rightarrow> u64 \<Rightarrow> string \<Rightarrow> bytes \<Rightarrow> client \<Rightarrow> client" where
  "send_unknown_bytes K sock now channel data = send_bytes K sock now channel data"

section \<open>Reading by type\<close>

definition get_unknown_bytes :: "client_codec \<Rightarrow> (nat \<Rightarrow> bool) \<Rightarrow> string \<Rightarrow> bytes list \<Rightarrow> client \<Rightarrow> bytes option \<times> client" where
  "get_unknown_bytes K sock channel frames c =
     (case client_get K sock channel frames c of (Some (VBytes v), c) \<Rightarrow> (Some v, c) | (_, c) \<Rightarrow> (None, c))"

definition get_coordinates ::
  "client_codec \<Rightarrow> (nat \<Rightarrow> bool) \<Rightarrow> string \<Rightarrow> bytes list \<Rightarrow> client \<Rightarrow> (f64 \<times> f64) list option \<times> client" where
  "get_coordinates K sock channel frames c =
     (case client_get K sock channel frames c of
        (Some (VCoordinate bs), c) \<Rightarrow> (map_option (map (\<lambda>p. (co_x p, co_y p))) (coordinate_list_decode (cc_prost K) bs), c)
      | (_, c) \<Rightarrow> (None, c))"

definition get_bezier_curve :: "client_codec \<Rightarrow> (nat \<Rightarrow> bool) \<Rightarrow> string \<Rightarrow> bytes list \<Rightarrow> client \<Rightarrow> bezier_curve option \<times> client" where
  "get_bezier_curve K sock channel frames c =
     (case client_get K sock channel frames c of (Some (VBezier bs), c) \<Rightarrow> (bezier_curve_decode K bs, c) | (_, c) \<Rightarrow> (None, c))"

definition get_bezier_curves :: "client_codec \<Rightarrow> (nat \<Rightarrow> bool) \<Rightarrow> string \<Rightarrow> bytes list \<Rightarrow> client \<Rightarrow> bezier_curves option \<times> client" where
  "get_bezier_curves K sock channel frames c =
     (case client_get K sock channel frames c of
        (Some (VBezier bs), c) \<Rightarrow> (bezier_curves_decode (cc_prost K) bs, c) | (_, c) \<Rightarrow> (None, c))"

definition get_bezier_curves_list ::
  "client_codec \<Rightarrow> (nat \<Rightarrow> bool) \<Rightarrow> string \<Rightarrow> bytes list \<Rightarrow> client \<Rightarrow> bezier_curves list option \<times> client" where
  "get_bezier_curves_list K sock channel frames c =
     (case client_get K sock channel frames c of
        (Some (VBezier bs), c) \<Rightarrow> (bezier_curves_list_decode K bs, c) | (_, c) \<Rightarrow> (None, c))"

section \<open>What comes of it\<close>

text \<open>The tagged byte layout: what a caller of another language writes for a number is the number published.\<close>

lemma tagged_numbers:
  "decode_tarwyn_type K 2 (u64_be x @ rest) = Some (KDouble x)" "decode_tarwyn_type K 3 (u32_be y @ rest) = Some (KInt32 y)"
  "decode_tarwyn_type K 5 (u64_be x @ rest) = Some (KInt64 x)" "decode_tarwyn_type K 6 (b # rest) = Some (KBool (b \<noteq> 0))"
  by (simp_all add: decode_tarwyn_type_def)

lemma truncated_numbers:
  "length data < 8 \<Longrightarrow> send_typed_bytes K sock now channel 2 data c = (False, c)"
  "length data < 4 \<Longrightarrow> send_typed_bytes K sock now channel 3 data c = (False, c)"
  by (simp_all add: send_typed_bytes_def decode_tarwyn_type_def)

text \<open>A structured value arrives at the server as bytes and is cached as bytes, so that the read that is
  meant for it finds another type and returns nothing.\<close>

lemma structured_not_read:
  assumes "v = VCoordinate bs \<or> v = VBezier bs"
    and "fst (client_get K sock channel frames c) = Some (value_of_kind P (kind_of_value Q (arrived v)))"
  shows "fst (get_coordinates K sock channel frames c) = None" "fst (get_bezier_curve K sock channel frames c) = None"
    "fst (get_bezier_curves K sock channel frames c) = None" "fst (get_bezier_curves_list K sock channel frames c) = None"
    "fst (get_unknown_bytes K sock channel frames c) = Some bs"
proof -
  have "arrived v = VBytes bs" using assms(1) by (auto simp: arrived_def conformed_def)
  then have "fst (client_get K sock channel frames c) = Some (VBytes bs)" using assms(2) by simp
  then obtain c' where "client_get K sock channel frames c = (Some (VBytes bs), c')" by (metis prod.collapse)
  then show "fst (get_coordinates K sock channel frames c) = None" "fst (get_bezier_curve K sock channel frames c) = None"
    "fst (get_bezier_curves K sock channel frames c) = None" "fst (get_bezier_curves_list K sock channel frames c) = None"
    "fst (get_unknown_bytes K sock channel frames c) = Some bs"
    by (simp_all add: get_coordinates_def get_bezier_curve_def get_bezier_curves_def get_bezier_curves_list_def get_unknown_bytes_def)
qed

end
