(* ===== verification/Foreign_Client.thy ===== *)
theory Foreign_Client
  imports Client_Typed Client_Telemetry
begin

text \<open>
  The client in plain types, \<^verbatim>\<open>client/src/ffi.rs\<close>, which the bindings of other languages wrap: puts and
  reads by type, requests, and subscriptions kept under a name so that one can be cancelled by it.
\<close>

section \<open>Plain types\<close>

record point =
  pt_x :: f64
  pt_y :: f64
  pt_rotation_degrees :: "f64 option"

definition LOGS_CHANNEL :: string where "LOGS_CHANNEL = ''logs''"

definition unpack_le_doubles :: "nat \<Rightarrow> nt_value \<Rightarrow> f64 list option" where
  "unpack_le_doubles n v =
     (case v of
        VBytes bs \<Rightarrow>
          if length bs \<noteq> n * 8 then None
          else Some (map (\<lambda>index. of_nat (le_nat (take 8 (drop (index * 8) bs)))) [0..<n])
      | _ \<Rightarrow> None)"

definition curve_from :: "point list \<Rightarrow> bezier_curve" where
  "curve_from points = map (\<lambda>p. \<lparr> cp_x = pt_x p, cp_y = pt_y p, cp_rotation_degrees = pt_rotation_degrees p \<rparr>) points"

definition curve_into :: "bezier_curve \<Rightarrow> point list" where
  "curve_into curve = map (\<lambda>p. \<lparr> pt_x = cp_x p, pt_y = cp_y p, pt_rotation_degrees = cp_rotation_degrees p \<rparr>) curve"

section \<open>The client\<close>

text \<open>What a kept closure cancels.\<close>

datatype cancel = CancelValue string u32 nat | CancelTelemetry u32 nat | CancelLogs u32 nat

record foreign_client =
  fc_client :: client
  fc_telemetry :: client_telemetry
  fc_cancels :: "(string, cancel) hm"

definition fc_wrap :: "client \<Rightarrow> client_telemetry \<Rightarrow> foreign_client" where
  "fc_wrap c t = \<lparr> fc_client = c, fc_telemetry = t, fc_cancels = [] \<rparr>"

definition fc_with_config ::
  "(string \<Rightarrow> u16 \<Rightarrow> socket_addr list option) \<Rightarrow> bool \<Rightarrow> client_config \<Rightarrow> connect_error + foreign_client" where
  "fc_with_config lookup bound config =
     (case try_with_config lookup bound config of Inl e \<Rightarrow> Inl e | Inr (c, t, _) \<Rightarrow> Inr (fc_wrap c t))"

definition fc_new :: "(string \<Rightarrow> u16 \<Rightarrow> socket_addr list option) \<Rightarrow> bool \<Rightarrow> connect_error + foreign_client" where
  "fc_new lookup bound = fc_with_config lookup bound default_config"

definition fc_connect :: "(string \<Rightarrow> u16 \<Rightarrow> socket_addr list option) \<Rightarrow> bool \<Rightarrow> string \<Rightarrow> connect_error + foreign_client" where
  "fc_connect lookup bound host = fc_with_config lookup bound (default_config\<lparr> cfg_host := host \<rparr>)"

definition fc_with_ports ::
  "(string \<Rightarrow> u16 \<Rightarrow> socket_addr list option) \<Rightarrow> bool \<Rightarrow> string \<Rightarrow> u16 \<Rightarrow> u16 \<Rightarrow> u64 \<Rightarrow> int \<Rightarrow> u64 \<Rightarrow> u64 \<Rightarrow> connect_error + foreign_client" where
  "fc_with_ports lookup bound host port telemetry_port request_timeout_ms send_high_water_mark busy_poll_micros predict_micros =
     fc_with_config lookup bound
       \<lparr> cfg_host = host, cfg_port = port, cfg_request_timeout = unat request_timeout_ms * 1000000,
         cfg_send_high_water_mark = send_high_water_mark, cfg_telemetry_port = telemetry_port,
         cfg_busy_poll = unat busy_poll_micros * 1000, cfg_predict = unat predict_micros * 1000 \<rparr>"

definition fc_start :: "foreign_client \<Rightarrow> foreign_client" where
  "fc_start x = (case start_both (fc_client x, fc_telemetry x) of (c, t) \<Rightarrow> x\<lparr> fc_client := c, fc_telemetry := t \<rparr>)"

definition fc_stop :: "foreign_client \<Rightarrow> foreign_client" where
  "fc_stop x = (case stop_both (fc_client x, fc_telemetry x) of (c, t) \<Rightarrow> x\<lparr> fc_client := c, fc_telemetry := t \<rparr>)"

definition run_cancel :: "client_codec \<Rightarrow> (nat \<Rightarrow> bool) \<Rightarrow> cancel \<Rightarrow> foreign_client \<Rightarrow> foreign_client" where
  "run_cancel K sock cancel x =
     (case cancel of
        CancelValue channel subuid k \<Rightarrow> x\<lparr> fc_client := unsubscribe K sock channel subuid k (fc_client x) \<rparr>
      | CancelTelemetry hash k \<Rightarrow> x\<lparr> fc_telemetry := unsubscribe_telemetry hash k (fc_telemetry x) \<rparr>
      | CancelLogs subuid k \<Rightarrow> x\<lparr> fc_client := unsubscribe_logs K sock subuid k (fc_client x) \<rparr>)"

definition fc_register :: "client_codec \<Rightarrow> (nat \<Rightarrow> bool) \<Rightarrow> string \<Rightarrow> cancel \<Rightarrow> foreign_client \<Rightarrow> bool \<times> foreign_client" where
  "fc_register K sock key cancel x =
     (if hm_has (fc_cancels x) key then (False, run_cancel K sock cancel x)
      else (True, x\<lparr> fc_cancels := hm_insert (fc_cancels x) key cancel \<rparr>))"

definition fc_cancel :: "client_codec \<Rightarrow> (nat \<Rightarrow> bool) \<Rightarrow> string \<Rightarrow> foreign_client \<Rightarrow> bool \<times> foreign_client" where
  "fc_cancel K sock key x =
     (case hm_get (fc_cancels x) key of
        None \<Rightarrow> (False, x)
      | Some cancel \<Rightarrow> (True, run_cancel K sock cancel (x\<lparr> fc_cancels := hm_remove (fc_cancels x) key \<rparr>)))"

section \<open>Puts\<close>

definition on_client :: "(client \<Rightarrow> client) \<Rightarrow> foreign_client \<Rightarrow> foreign_client" where
  "on_client f x = x\<lparr> fc_client := f (fc_client x) \<rparr>"

definition put_string :: "client_codec \<Rightarrow> (nat \<Rightarrow> bool) \<Rightarrow> u64 \<Rightarrow> string \<Rightarrow> string \<Rightarrow> foreign_client \<Rightarrow> foreign_client" where
  "put_string K sock now channel v = on_client (send_string K sock now channel v)"

definition put_integer :: "client_codec \<Rightarrow> (nat \<Rightarrow> bool) \<Rightarrow> u64 \<Rightarrow> string \<Rightarrow> u32 \<Rightarrow> foreign_client \<Rightarrow> foreign_client" where
  "put_integer K sock now channel v = on_client (send_i32 K sock now channel v)"

definition put_long :: "client_codec \<Rightarrow> (nat \<Rightarrow> bool) \<Rightarrow> u64 \<Rightarrow> string \<Rightarrow> u64 \<Rightarrow> foreign_client \<Rightarrow> foreign_client" where
  "put_long K sock now channel v = on_client (send_i64 K sock now channel v)"

definition put_double :: "client_codec \<Rightarrow> (nat \<Rightarrow> bool) \<Rightarrow> u64 \<Rightarrow> string \<Rightarrow> f64 \<Rightarrow> foreign_client \<Rightarrow> foreign_client" where
  "put_double K sock now channel v = on_client (send_double K sock now channel v)"

definition put_float :: "client_codec \<Rightarrow> (nat \<Rightarrow> bool) \<Rightarrow> u64 \<Rightarrow> string \<Rightarrow> f32 \<Rightarrow> foreign_client \<Rightarrow> foreign_client" where
  "put_float K sock now channel v = on_client (send_float K sock now channel v)"

definition put_boolean :: "client_codec \<Rightarrow> (nat \<Rightarrow> bool) \<Rightarrow> u64 \<Rightarrow> string \<Rightarrow> bool \<Rightarrow> foreign_client \<Rightarrow> foreign_client" where
  "put_boolean K sock now channel v = on_client (send_bool K sock now channel v)"

definition put_bytes :: "client_codec \<Rightarrow> (nat \<Rightarrow> bool) \<Rightarrow> u64 \<Rightarrow> string \<Rightarrow> bytes \<Rightarrow> foreign_client \<Rightarrow> foreign_client" where
  "put_bytes K sock now channel v = on_client (send_bytes K sock now channel v)"

definition put_string_list :: "client_codec \<Rightarrow> (nat \<Rightarrow> bool) \<Rightarrow> u64 \<Rightarrow> string \<Rightarrow> string list \<Rightarrow> foreign_client \<Rightarrow> foreign_client" where
  "put_string_list K sock now channel v = on_client (send_string_list K sock now channel v)"

definition put_bytes_list :: "client_codec \<Rightarrow> (nat \<Rightarrow> bool) \<Rightarrow> u64 \<Rightarrow> string \<Rightarrow> bytes list \<Rightarrow> foreign_client \<Rightarrow> foreign_client" where
  "put_bytes_list K sock now channel v = on_client (send_bytes_list K sock now channel v)"

definition put_double_list :: "client_codec \<Rightarrow> (nat \<Rightarrow> bool) \<Rightarrow> u64 \<Rightarrow> string \<Rightarrow> f64 list \<Rightarrow> foreign_client \<Rightarrow> foreign_client" where
  "put_double_list K sock now channel v = on_client (send_double_list K sock now channel v)"

definition put_float_list :: "client_codec \<Rightarrow> (nat \<Rightarrow> bool) \<Rightarrow> u64 \<Rightarrow> string \<Rightarrow> f32 list \<Rightarrow> foreign_client \<Rightarrow> foreign_client" where
  "put_float_list K sock now channel v = on_client (send_float_list K sock now channel v)"

definition put_integer_list :: "client_codec \<Rightarrow> (nat \<Rightarrow> bool) \<Rightarrow> u64 \<Rightarrow> string \<Rightarrow> u32 list \<Rightarrow> foreign_client \<Rightarrow> foreign_client" where
  "put_integer_list K sock now channel v = on_client (send_integer_list K sock now channel v)"

definition put_long_list :: "client_codec \<Rightarrow> (nat \<Rightarrow> bool) \<Rightarrow> u64 \<Rightarrow> string \<Rightarrow> u64 list \<Rightarrow> foreign_client \<Rightarrow> foreign_client" where
  "put_long_list K sock now channel v = on_client (send_long_list K sock now channel v)"

definition put_boolean_list :: "client_codec \<Rightarrow> (nat \<Rightarrow> bool) \<Rightarrow> u64 \<Rightarrow> string \<Rightarrow> bool list \<Rightarrow> foreign_client \<Rightarrow> foreign_client" where
  "put_boolean_list K sock now channel v = on_client (send_bool_list K sock now channel v)"

definition put_coordinates ::
  "client_codec \<Rightarrow> (nat \<Rightarrow> bool) \<Rightarrow> u64 \<Rightarrow> string \<Rightarrow> (f64 \<times> f64) list \<Rightarrow> foreign_client \<Rightarrow> foreign_client" where
  "put_coordinates K sock now channel v = on_client (send_coordinates K sock now channel v)"

definition put_pose2d :: "client_codec \<Rightarrow> (nat \<Rightarrow> bool) \<Rightarrow> string \<Rightarrow> f64 \<Rightarrow> f64 \<Rightarrow> f64 \<Rightarrow> foreign_client \<Rightarrow> foreign_client" where
  "put_pose2d K sock channel x y rotation = on_client (send_pose2d_struct K sock channel x y rotation)"

text \<open>The seven fields: three of the position, four of the quaternion.\<close>

definition put_pose3d :: "client_codec \<Rightarrow> (nat \<Rightarrow> bool) \<Rightarrow> string \<Rightarrow> f64 list \<Rightarrow> foreign_client \<Rightarrow> foreign_client" where
  "put_pose3d K sock channel pose = on_client (send_pose3d_struct K sock channel (take 3 pose) (drop 3 pose))"

definition put_bezier_curve :: "client_codec \<Rightarrow> (nat \<Rightarrow> bool) \<Rightarrow> u64 \<Rightarrow> string \<Rightarrow> point list \<Rightarrow> foreign_client \<Rightarrow> foreign_client" where
  "put_bezier_curve K sock now channel v = on_client (send_bezier_curve K sock now channel (curve_from v))"

definition put_bezier_curves ::
  "client_codec \<Rightarrow> (nat \<Rightarrow> bool) \<Rightarrow> u64 \<Rightarrow> string \<Rightarrow> bytes \<Rightarrow> foreign_client \<Rightarrow> bool \<times> foreign_client" where
  "put_bezier_curves K sock now channel v x =
     (case bezier_curves_decode (cc_prost K) v of
        None \<Rightarrow> (False, x)
      | Some curves \<Rightarrow> (True, on_client (send_bezier_curves K sock now channel curves) x))"

definition put_bezier_curves_list ::
  "client_codec \<Rightarrow> (nat \<Rightarrow> bool) \<Rightarrow> u64 \<Rightarrow> string \<Rightarrow> bytes \<Rightarrow> foreign_client \<Rightarrow> bool \<times> foreign_client" where
  "put_bezier_curves_list K sock now channel v x =
     (case bezier_curves_list_decode K v of
        None \<Rightarrow> (False, x)
      | Some values \<Rightarrow> (True, on_client (send_bezier_curves_list K sock now channel values) x))"

definition put_typed_bytes ::
  "client_codec \<Rightarrow> (nat \<Rightarrow> bool) \<Rightarrow> u64 \<Rightarrow> string \<Rightarrow> int \<Rightarrow> bytes \<Rightarrow> foreign_client \<Rightarrow> bool \<times> foreign_client" where
  "put_typed_bytes K sock now channel tarwyn_type v x =
     (case send_typed_bytes K sock now channel tarwyn_type v (fc_client x) of (ok, c) \<Rightarrow> (ok, x\<lparr> fc_client := c \<rparr>))"

definition put_unknown_bytes :: "client_codec \<Rightarrow> (nat \<Rightarrow> bool) \<Rightarrow> u64 \<Rightarrow> string \<Rightarrow> bytes \<Rightarrow> foreign_client \<Rightarrow> foreign_client" where
  "put_unknown_bytes K sock now channel v = on_client (send_unknown_bytes K sock now channel v)"

definition put_struct ::
  "client_codec \<Rightarrow> (nat \<Rightarrow> bool) \<Rightarrow> string \<Rightarrow> string \<Rightarrow> (string \<times> string) list \<Rightarrow> bytes \<Rightarrow> foreign_client \<Rightarrow> foreign_client" where
  "put_struct K sock channel type_name schemas packed = on_client (send_struct K sock channel type_name schemas packed)"

section \<open>Reads\<close>

text \<open>A read of the channel, and what it makes of the value.\<close>

definition read_as ::
  "(nt_value \<Rightarrow> 'a option) \<Rightarrow> client_codec \<Rightarrow> (nat \<Rightarrow> bool) \<Rightarrow> string \<Rightarrow> bytes list \<Rightarrow> foreign_client \<Rightarrow> 'a option \<times> foreign_client" where
  "read_as pick K sock channel frames x =
     (case client_get K sock channel frames (fc_client x) of (v, c) \<Rightarrow> (Option.bind v pick, x\<lparr> fc_client := c \<rparr>))"

type_synonym 'a fc_read = "client_codec \<Rightarrow> (nat \<Rightarrow> bool) \<Rightarrow> string \<Rightarrow> bytes list \<Rightarrow> foreign_client \<Rightarrow> 'a option \<times> foreign_client"

definition fc_get_string :: "string fc_read" where
  "fc_get_string = read_as (\<lambda>v. case v of VString v \<Rightarrow> Some v | _ \<Rightarrow> None)"

definition fc_get_integer :: "u32 fc_read" where
  "fc_get_integer = read_as (\<lambda>v. case v of VInt32 v \<Rightarrow> Some v | _ \<Rightarrow> None)"

definition fc_get_long :: "u64 fc_read" where
  "fc_get_long = read_as (\<lambda>v. case v of VInt64 v \<Rightarrow> Some v | _ \<Rightarrow> None)"

definition fc_get_double :: "f64 fc_read" where
  "fc_get_double = read_as (\<lambda>v. case v of VDouble v \<Rightarrow> Some v | _ \<Rightarrow> None)"

definition fc_get_float :: "f32 fc_read" where
  "fc_get_float = read_as (\<lambda>v. case v of VFloat v \<Rightarrow> Some v | _ \<Rightarrow> None)"

definition fc_get_boolean :: "bool fc_read" where
  "fc_get_boolean = read_as (\<lambda>v. case v of VBool v \<Rightarrow> Some v | _ \<Rightarrow> None)"

definition fc_get_bytes :: "bytes fc_read" where
  "fc_get_bytes = read_as (\<lambda>v. case v of VBytes v \<Rightarrow> Some v | _ \<Rightarrow> None)"

definition fc_get_string_list :: "string list fc_read" where
  "fc_get_string_list = read_as (\<lambda>v. case v of VStringArray v \<Rightarrow> Some v | _ \<Rightarrow> None)"

definition fc_get_bytes_list :: "bytes list fc_read" where
  "fc_get_bytes_list K =
     read_as (\<lambda>v. case v of VBytesList bs \<Rightarrow> bytes_list_decode (cc_prost K) bs | _ \<Rightarrow> None) K"

definition fc_get_double_list :: "f64 list fc_read" where
  "fc_get_double_list = read_as (\<lambda>v. case v of VDoubleArray v \<Rightarrow> Some v | _ \<Rightarrow> None)"

definition fc_get_float_list :: "f32 list fc_read" where
  "fc_get_float_list = read_as (\<lambda>v. case v of VFloatArray v \<Rightarrow> Some v | _ \<Rightarrow> None)"

definition fc_get_integer_list :: "u32 list fc_read" where
  "fc_get_integer_list = read_as (\<lambda>v. case v of VInt32Array v \<Rightarrow> Some v | _ \<Rightarrow> None)"

definition fc_get_long_list :: "u64 list fc_read" where
  "fc_get_long_list = read_as (\<lambda>v. case v of VInt64Array v \<Rightarrow> Some v | _ \<Rightarrow> None)"

definition fc_get_boolean_list :: "bool list fc_read" where
  "fc_get_boolean_list = read_as (\<lambda>v. case v of VBoolArray v \<Rightarrow> Some v | _ \<Rightarrow> None)"

text \<open>A read or request of the client, with the client put back.\<close>

definition of_client :: "(client \<Rightarrow> 'a \<times> client) \<Rightarrow> foreign_client \<Rightarrow> 'a \<times> foreign_client" where
  "of_client f x = (case f (fc_client x) of (r, c) \<Rightarrow> (r, x\<lparr> fc_client := c \<rparr>))"

definition fc_get_coordinates :: "(f64 \<times> f64) list fc_read" where
  "fc_get_coordinates K sock channel frames = of_client (get_coordinates K sock channel frames)"

definition fc_get_bezier_curve :: "point list fc_read" where
  "fc_get_bezier_curve K sock channel frames x =
     (case of_client (get_bezier_curve K sock channel frames) x of (curve, x) \<Rightarrow> (map_option curve_into curve, x))"

definition fc_get_bezier_curves :: "bytes fc_read" where
  "fc_get_bezier_curves K sock channel frames x =
     (case of_client (get_bezier_curves K sock channel frames) x of
        (curves, x) \<Rightarrow> (map_option (bezier_curves_encode (cc_prost K)) curves, x))"

definition fc_get_bezier_curves_list :: "bytes fc_read" where
  "fc_get_bezier_curves_list K sock channel frames x =
     (case of_client (get_bezier_curves_list K sock channel frames) x of
        (values, x) \<Rightarrow> (map_option (bezier_curves_list_encode (cc_prost K)) values, x))"

definition fc_get_pose2d :: "f64 list fc_read" where
  "fc_get_pose2d = read_as (unpack_le_doubles 3)"

definition fc_get_pose3d :: "f64 list fc_read" where
  "fc_get_pose3d = read_as (unpack_le_doubles 7)"

definition fc_get_unknown_bytes :: "bytes fc_read" where
  "fc_get_unknown_bytes K sock channel frames = of_client (get_unknown_bytes K sock channel frames)"

section \<open>Requests\<close>

definition fc_delete :: "client_codec \<Rightarrow> (nat \<Rightarrow> bool) \<Rightarrow> string \<Rightarrow> bytes list \<Rightarrow> foreign_client \<Rightarrow> u32 \<times> foreign_client" where
  "fc_delete K sock channel frames = of_client (client_delete K sock channel frames)"

definition fc_delete_all :: "client_codec \<Rightarrow> (nat \<Rightarrow> bool) \<Rightarrow> bytes list \<Rightarrow> foreign_client \<Rightarrow> u32 \<times> foreign_client" where
  "fc_delete_all K sock frames = of_client (client_delete K sock [] frames)"

definition fc_get_tables :: "client_codec \<Rightarrow> (nat \<Rightarrow> bool) \<Rightarrow> string \<Rightarrow> bytes list \<Rightarrow> foreign_client \<Rightarrow> string list \<times> foreign_client" where
  "fc_get_tables K sock pre frames = of_client (client_tables K sock pre frames)"

definition fc_get_ping ::
  "client_codec \<Rightarrow> (nat \<Rightarrow> bool) \<Rightarrow> u64 \<Rightarrow> u64 \<Rightarrow> bytes list \<Rightarrow> foreign_client \<Rightarrow> u64 option \<times> foreign_client" where
  "fc_get_ping K sock sent now frames x =
     (case of_client (client_ping K sock sent now frames) x of (nanos, x) \<Rightarrow> (map_option of_nat nanos, x))"

definition fc_get_server_statistics ::
  "client_codec \<Rightarrow> (nat \<Rightarrow> bool) \<Rightarrow> bytes list \<Rightarrow> foreign_client \<Rightarrow> statistics option \<times> foreign_client" where
  "fc_get_server_statistics K sock frames = of_client (client_statistics K sock frames)"

definition fc_get_raw_json :: "client_codec \<Rightarrow> (nat \<Rightarrow> bool) \<Rightarrow> string \<Rightarrow> bytes list \<Rightarrow> foreign_client \<Rightarrow> string \<times> foreign_client" where
  "fc_get_raw_json K sock pre frames = of_client (raw_json K sock pre frames)"

type_synonym fc_swap = "bytes list \<Rightarrow> foreign_client \<Rightarrow> bool \<times> foreign_client"

definition compare_and_set_absent_string :: "client_codec \<Rightarrow> (nat \<Rightarrow> bool) \<Rightarrow> string \<Rightarrow> string \<Rightarrow> fc_swap" where
  "compare_and_set_absent_string K sock channel v frames =
     of_client (client_compare_and_set K sock channel None (VString v) frames)"

definition compare_and_set_string :: "client_codec \<Rightarrow> (nat \<Rightarrow> bool) \<Rightarrow> string \<Rightarrow> string \<Rightarrow> string \<Rightarrow> fc_swap" where
  "compare_and_set_string K sock channel expected v frames =
     of_client (client_compare_and_set K sock channel (Some (VString expected)) (VString v) frames)"

definition compare_and_set_double :: "client_codec \<Rightarrow> (nat \<Rightarrow> bool) \<Rightarrow> string \<Rightarrow> f64 \<Rightarrow> f64 \<Rightarrow> fc_swap" where
  "compare_and_set_double K sock channel expected v frames =
     of_client (client_compare_and_set K sock channel (Some (VDouble expected)) (VDouble v) frames)"

definition compare_and_set_long :: "client_codec \<Rightarrow> (nat \<Rightarrow> bool) \<Rightarrow> string \<Rightarrow> u64 \<Rightarrow> u64 \<Rightarrow> fc_swap" where
  "compare_and_set_long K sock channel expected v frames =
     of_client (client_compare_and_set K sock channel (Some (VInt64 expected)) (VInt64 v) frames)"

definition compare_and_set_boolean :: "client_codec \<Rightarrow> (nat \<Rightarrow> bool) \<Rightarrow> string \<Rightarrow> bool \<Rightarrow> bool \<Rightarrow> fc_swap" where
  "compare_and_set_boolean K sock channel expected v frames =
     of_client (client_compare_and_set K sock channel (Some (VBool expected)) (VBool v) frames)"

definition fc_publish_telemetry :: "bool \<Rightarrow> u64 \<Rightarrow> u64 \<Rightarrow> string \<Rightarrow> bytes \<Rightarrow> foreign_client \<Rightarrow> bytes \<times> foreign_client" where
  "fc_publish_telemetry sent logged_at now channel payload = of_client (publish_telemetry sent logged_at now channel payload)"

definition fc_log_to :: "wpi_logger option \<Rightarrow> foreign_client \<Rightarrow> bool \<times> foreign_client" where
  "fc_log_to opened x = (case of_client (log_to opened) x of (r, x) \<Rightarrow> (r = Inr (), x))"

definition fc_log_to_drive :: "'e option + wpi_logger \<times> string \<Rightarrow> foreign_client \<Rightarrow> string option \<times> foreign_client" where
  "fc_log_to_drive opened x =
     (case of_client (log_to_drive opened) x of (Inl _, x) \<Rightarrow> (None, x) | (Inr path, x) \<Rightarrow> (Some path, x))"

definition fc_log_dropped :: "foreign_client \<Rightarrow> nat" where
  "fc_log_dropped x = log_dropped (fc_client x)"

definition fc_logging_healthy :: "foreign_client \<Rightarrow> bool" where
  "fc_logging_healthy x = logging_healthy (fc_client x)"

definition fc_dropped_publishes :: "foreign_client \<Rightarrow> nat" where
  "fc_dropped_publishes x = client_dropped_publishes (fc_client x)"

section \<open>Subscriptions by name\<close>

text \<open>A callback is handed the value encoded by prost, which is \<open>encode\<close>; what it was run on during the call
  is returned.\<close>

definition value_key :: "string \<Rightarrow> string" where
  "value_key channel = ''value:'' @ channel"

definition fc_subscribe ::
  "client_codec \<Rightarrow> (kind \<Rightarrow> bytes) \<Rightarrow> (nat \<Rightarrow> bool) \<Rightarrow> string \<Rightarrow> bytes list \<Rightarrow> foreign_client \<Rightarrow> (bool \<times> (string \<times> bytes) list) \<times> foreign_client" where
  "fc_subscribe K encode sock channel frames x =
     (case client_subscribe K sock channel frames (fc_client x) of
        ((subuid, k, vs), c) \<Rightarrow>
          (case fc_register K sock (value_key channel) (CancelValue channel subuid k) (x\<lparr> fc_client := c \<rparr>) of
             (ok, x) \<Rightarrow> ((ok, map (\<lambda>v. (channel, encode (kind_of_value (cc_prost K) v))) vs), x)))"

definition fc_unsubscribe :: "client_codec \<Rightarrow> (nat \<Rightarrow> bool) \<Rightarrow> string \<Rightarrow> foreign_client \<Rightarrow> bool \<times> foreign_client" where
  "fc_unsubscribe K sock channel = fc_cancel K sock (value_key channel)"

definition telemetry_key :: "string \<Rightarrow> string" where
  "telemetry_key channel = ''telemetry:'' @ channel"

definition fc_subscribe_telemetry ::
  "client_codec \<Rightarrow> (nat \<Rightarrow> bool) \<Rightarrow> u64 \<Rightarrow> string \<Rightarrow> foreign_client \<Rightarrow> bool \<times> foreign_client" where
  "fc_subscribe_telemetry K sock now channel x =
     (case subscribe_telemetry_timestamped (c_stop (fc_client x)) now channel (fc_telemetry x) of
        (None, t) \<Rightarrow> (False, x\<lparr> fc_telemetry := t \<rparr>)
      | (Some k, t) \<Rightarrow>
          fc_register K sock (telemetry_key channel) (CancelTelemetry (topic_hash channel) k) (x\<lparr> fc_telemetry := t \<rparr>))"

definition fc_unsubscribe_telemetry :: "client_codec \<Rightarrow> (nat \<Rightarrow> bool) \<Rightarrow> string \<Rightarrow> foreign_client \<Rightarrow> bool \<times> foreign_client" where
  "fc_unsubscribe_telemetry K sock channel = fc_cancel K sock (telemetry_key channel)"

definition fc_subscribe_to_logs ::
  "client_codec \<Rightarrow> (nat \<Rightarrow> bool) \<Rightarrow> bytes list \<Rightarrow> foreign_client \<Rightarrow> (bool \<times> (string \<times> bytes) list) \<times> foreign_client" where
  "fc_subscribe_to_logs K sock frames x =
     (case client_subscribe_to_logs K sock frames (fc_client x) of
        ((subuid, k, lines), c) \<Rightarrow>
          (case fc_register K sock LOGS_CHANNEL (CancelLogs subuid k) (x\<lparr> fc_client := c \<rparr>) of
             (ok, x) \<Rightarrow> ((ok, map (\<lambda>line. (LOGS_CHANNEL, str_bytes line)) lines), x)))"

definition fc_unsubscribe_from_logs :: "client_codec \<Rightarrow> (nat \<Rightarrow> bool) \<Rightarrow> foreign_client \<Rightarrow> bool \<times> foreign_client" where
  "fc_unsubscribe_from_logs K sock = fc_cancel K sock LOGS_CHANNEL"

section \<open>What is read of what was put\<close>

text \<open>The value a read finds, once a put of \<open>v\<close> has gone through the server.\<close>

definition read_value :: "prost \<Rightarrow> prost \<Rightarrow> nt_value \<Rightarrow> nt_value" where
  "read_value P Q v = value_of_kind P (kind_of_value Q (arrived v))"

lemma read_value_plain: "ints_of v = None \<Longrightarrow> \<not> is_message v \<Longrightarrow> read_value P Q v = v"
  using kind_trip [of P Q v] arrived_content(3) [of v] by (simp add: read_value_def)

lemma read_value_message: "read_value P Q (VBytesList b) = VBytes b" "read_value P Q (VCoordinate b) = VBytes b"
  by (simp_all add: read_value_def arrived_def conformed_def)

lemma arrived_int: "arrived (VInt32 i) = int_wire (scast i)" "arrived (VInt64 l) = int_wire l"
  by (simp_all add: arrived_def conformed_id int_wire_number)

lemma read_value_int:
  "ints_of (read_value P Q (VInt32 i)) = Some [sint i]" "ints_of (read_value P Q (VInt64 l)) = Some [sint l]"
proof -
  have "fits_signed (int_wire x)" for x by (simp add: int_wire_def)
  then show "ints_of (read_value P Q (VInt32 i)) = Some [sint i]" "ints_of (read_value P Q (VInt64 l)) = Some [sint l]"
    using kind_trip [of P Q "arrived (VInt32 i)"] kind_trip [of P Q "arrived (VInt64 l)"]
      arrived_content(2) [of "VInt32 i"] arrived_content(2) [of "VInt64 l"]
    by (simp_all add: read_value_def arrived_int)
qed

text \<open>The kind an integer is cached as: of 0 to 127 an unsigned 32-bit one, the shortest encoding being
  unsigned there; else 32 bits when it fits, else 64.\<close>

lemma int_wire_kind:
  "\<exists>u i. value_of_kind P (kind_of_value Q (int_wire x))
     = (if 0 \<le> sint x \<and> sint x \<le> 127 then VUint32 u
        else if - 2147483648 \<le> sint x \<and> sint x \<le> 2147483647 then VInt32 i else VInt64 x)"
  by (auto simp: int_wire_def)

lemma read_value_integer:
  "(case read_value P Q (VInt32 i) of VInt32 v \<Rightarrow> Some v | _ \<Rightarrow> None)
     = (if 0 \<le> sint i \<and> sint i \<le> 127 then None else Some i)"
proof -
  have s: "sint (scast i :: u64) = sint i" by (simp add: scast_widen)
  have b: "- 2147483648 \<le> sint i" "sint i \<le> 2147483647"
    using sint_ge [of i] sint_lt [of i] by simp_all
  obtain u j where k: "read_value P Q (VInt32 i) = (if 0 \<le> sint i \<and> sint i \<le> 127 then VUint32 u else VInt32 j)"
    using int_wire_kind [of P Q "scast i"] unfolding s read_value_def arrived_int using b by (auto split: if_split_asm)
  show ?thesis using k read_value_int(1) [of P Q i] by (auto dest: signed_word_eqI)
qed

lemma read_value_long:
  "(case read_value P Q (VInt64 l) of VInt64 v \<Rightarrow> Some v | _ \<Rightarrow> None)
     = (if - 2147483648 \<le> sint l \<and> sint l \<le> 2147483647 then None else Some l)"
  using int_wire_kind [of P Q l] by (auto simp: read_value_def arrived_int)

lemma read_value_ints:
  "read_value P Q (VInt32Array is) = VInt64Array (map scast is)" "read_value P Q (VInt64Array ls) = VInt64Array ls"
proof -
  have "arrived (VInt32Array is) = VInt64Array (map scast is)" "arrived (VInt64Array ls) = VInt64Array ls"
    by (simp_all add: arrived_def list_wire_def empty_conforms conformed_id)
  then show "read_value P Q (VInt32Array is) = VInt64Array (map scast is)" "read_value P Q (VInt64Array ls) = VInt64Array ls"
    by (simp_all add: read_value_def)
qed

text \<open>Elements laid out one after the other in the same number of bytes.\<close>

locale fixed_layout =
  fixes layout :: "'a \<Rightarrow> bytes" and width :: nat and unlayout :: "bytes \<Rightarrow> 'a"
  assumes length_layout: "length (layout x) = width" and unlayout_layout: "unlayout (layout x) = x"
begin

lemma length_laid_out: "length (concat (map layout xs)) = length xs * width"
  by (induction xs) (simp_all add: length_layout)

lemma nth_laid_out: "i < length xs \<Longrightarrow> take width (drop (i * width) (concat (map layout xs))) = layout (xs ! i)"
proof (induction xs arbitrary: i)
  case (Cons x xs)
  then show ?case using length_layout [of x] by (cases i) simp_all
qed simp

lemma laid_out_read: "map (\<lambda>i. unlayout (take width (drop (i * width) (concat (map layout xs))))) [0..<length xs] = xs"
proof -
  have "map (\<lambda>i. unlayout (take width (drop (i * width) (concat (map layout xs))))) [0..<length xs] = map ((!) xs) [0..<length xs]"
    by (rule map_cong) (simp_all add: nth_laid_out unlayout_layout)
  then show ?thesis by (simp add: map_nth)
qed

end

interpretation le_doubles: fixed_layout "u64_le" 8 "\<lambda>bs. of_nat (le_nat bs)"
  by unfold_locales simp_all

lemma unpack_packed: "unpack_le_doubles n (VBytes (pack_le_doubles ds)) = (if length ds = n then Some ds else None)"
  using le_doubles.laid_out_read [of ds] le_doubles.length_laid_out [of ds]
  by (auto simp: unpack_le_doubles_def pack_le_doubles_def)

lemma read_as_found:
  "fst (client_get K sock channel frames (fc_client x)) = Some v \<Longrightarrow> fst (read_as pick K sock channel frames x) = pick v"
  by (auto simp: read_as_def split: prod.split)

text \<open>The value each put sends.\<close>

lemma puts_send:
  "fc_client (put_string K sock now channel s x) = send_message K sock now channel (VString s) (fc_client x)"
  "fc_client (put_integer K sock now channel i x) = send_message K sock now channel (VInt32 i) (fc_client x)"
  "fc_client (put_long K sock now channel l x) = send_message K sock now channel (VInt64 l) (fc_client x)"
  "fc_client (put_integer_list K sock now channel is x) = send_message K sock now channel (VInt32Array is) (fc_client x)"
  "fc_client (put_bytes_list K sock now channel bl x)
     = send_message K sock now channel (VBytesList (bytes_list_encode (cc_prost K) bl)) (fc_client x)"
  by (simp_all add: put_string_def put_integer_def put_long_def put_integer_list_def put_bytes_list_def on_client_def
      send_string_def send_i32_def send_i64_def send_integer_list_def send_bytes_list_def send_kind_def)

text \<open>A read of the channel finds what a put of \<open>v\<close> left there.\<close>

definition read_finds :: "client_codec \<Rightarrow> (nat \<Rightarrow> bool) \<Rightarrow> string \<Rightarrow> bytes list \<Rightarrow> prost \<Rightarrow> foreign_client \<Rightarrow> nt_value \<Rightarrow> bool" where
  "read_finds K sock channel frames Q x v \<longleftrightarrow>
     fst (client_get K sock channel frames (fc_client x)) = Some (read_value (cc_prost K) Q v)"

lemmas read_pickers = fc_get_string_def fc_get_double_def fc_get_float_def fc_get_boolean_def fc_get_bytes_def
    fc_get_string_list_def fc_get_double_list_def fc_get_float_list_def fc_get_boolean_list_def fc_get_long_list_def
    fc_get_pose2d_def fc_get_pose3d_def fc_get_integer_def fc_get_long_def fc_get_integer_list_def fc_get_bytes_list_def
    fc_get_coordinates_def


text \<open>A server that answers with the integer 5, as it caches it.\<close>

definition five_codec :: client_codec where
  "five_codec = sample_codec\<lparr> reply_decode := (\<lambda>_. Some (data_reply 1 (Some (KUint32 5)))) \<rparr>"


text \<open>For the same reason a long that was put and fits 32 bits is never the expected one of a swap: what is
  cached is of another kind than what is compared with it.\<close>

lemma put_long_not_swapped:
  assumes "- 2147483648 \<le> sint l \<and> sint l \<le> 2147483647"
  shows "\<not> kind_eq (kind_of_value Q (arrived (VInt64 l))) (kind_of_value P (VInt64 expected))"
  using assms by (auto simp: arrived_int int_wire_def kind_eq_def)

section \<open>Names\<close>

text \<open>A name is held by its first subscription until it is cancelled: a second one is refused and cancelled at
  once, whatever it was, and the cancel kept is still the first's.\<close>

lemma name_register_refused:
  assumes "hm_get (fc_cancels x) key = Some kept"
  shows "\<not> fst (fc_register K sock key cancel x)" "hm_get (fc_cancels (snd (fc_register K sock key cancel x))) key = Some kept"
  using assms by (auto simp: fc_register_def run_cancel_def split: cancel.split)

lemma register_cancel:
  assumes "hm_get (fc_cancels x) key = None"
  shows "fc_register K sock key cancel x = (True, x\<lparr> fc_cancels := hm_insert (fc_cancels x) key cancel \<rparr>)"
    and "\<not> fst (fc_cancel K sock key x)"
    and "fst (fc_cancel K sock key (snd (fc_register K sock key cancel x)))"
    and "hm_get (fc_cancels (snd (fc_cancel K sock key (snd (fc_register K sock key cancel x))))) key = None"
  using assms by (auto simp: fc_register_def fc_cancel_def run_cancel_def split: cancel.split)

lemma keys_apart: "value_key channel \<noteq> telemetry_key other" "value_key channel \<noteq> LOGS_CHANNEL" "telemetry_key channel \<noteq> LOGS_CHANNEL"
  "value_key a = value_key b \<longleftrightarrow> a = b" "telemetry_key a = telemetry_key b \<longleftrightarrow> a = b"
  by (simp_all add: value_key_def telemetry_key_def LOGS_CHANNEL_def)

text \<open>The refused subscription is not silent on the wire: its \<open>Subscribe\<close> is followed by an \<open>Unsubscribe\<close>.\<close>

lemma refused_unsubscribes:
  assumes "hm_get (fc_cancels x) (value_key channel) = Some kept"
  shows "snd (fc_subscribe K encode sock channel frames x)
    = (case client_subscribe K sock channel frames (fc_client x) of
         ((subuid, k, vs), c) \<Rightarrow> x\<lparr> fc_client := unsubscribe K sock channel subuid k c \<rparr>)"
  using assms by (auto simp: fc_subscribe_def fc_register_def run_cancel_def split: prod.splits)

end
