(* ===== verification/C_Abi.thy ===== *)
theory C_Abi
  imports Foreign_Client "HOL-Library.Multiset"
begin

text \<open>
  The C ABI of the client, \<^verbatim>\<open>bindings/c/src/lib.rs\<close>: text and lists across the boundary, the blocks handed to
  the caller, the error of the last construction, and a function for every operation of the client.

  A pointer with its length is the bytes it is valid for, \<open>None\<close> for \<open>NULL\<close>; a client handle is the client.
\<close>

section \<open>Text\<close>

text \<open>\<open>String::from_utf8_lossy\<close>: the length of the character at the front, or of the run that cannot begin
  one, and which of them it is.\<close>

definition byte_at :: "bytes \<Rightarrow> nat \<Rightarrow> u8" where
  "byte_at bs i = (if i < length bs then bs ! i else 0)"

definition utf8_second :: "u8 \<Rightarrow> u8 \<Rightarrow> bool" where
  "utf8_second b c \<longleftrightarrow>
     (if b = 0xe0 then 0xa0 \<le> c \<and> c \<le> 0xbf
      else if b = 0xed then 0x80 \<le> c \<and> c \<le> 0x9f
      else if b = 0xf0 then 0x90 \<le> c \<and> c \<le> 0xbf
      else if b = 0xf4 then 0x80 \<le> c \<and> c \<le> 0x8f else utf8_cont c)"

definition utf8_chunk :: "bytes \<Rightarrow> bool \<times> nat" where
  "utf8_chunk bs =
     (let b = byte_at bs 0 in
      if b < 0x80 then (True, 1)
      else if 0xc2 \<le> b \<and> b \<le> 0xdf then (if utf8_cont (byte_at bs 1) then (True, 2) else (False, 1))
      else if 0xe0 \<le> b \<and> b \<le> 0xef then
        if \<not> utf8_second b (byte_at bs 1) then (False, 1)
        else if utf8_cont (byte_at bs 2) then (True, 3) else (False, 2)
      else if 0xf0 \<le> b \<and> b \<le> 0xf4 then
        if \<not> utf8_second b (byte_at bs 1) then (False, 1)
        else if \<not> utf8_cont (byte_at bs 2) then (False, 2)
        else if utf8_cont (byte_at bs 3) then (True, 4) else (False, 3)
      else (False, 1))"

lemma utf8_chunk_pos [simp]: "0 < snd (utf8_chunk bs)"
  by (simp add: utf8_chunk_def Let_def)

function lossy :: "bytes \<Rightarrow> bytes" where
  "lossy bs =
     (if bs = [] then []
      else (if fst (utf8_chunk bs) then take (snd (utf8_chunk bs)) bs else [0xef, 0xbf, 0xbd]) @ lossy (drop (snd (utf8_chunk bs)) bs))"
  by pat_completeness auto
termination
  by (relation "measure length") auto

declare lossy.simps [simp del]

definition from_utf8_lossy :: "bytes \<Rightarrow> string" where
  "from_utf8_lossy bs = bytes_str (lossy bs)"

text \<open>Text that is well formed is kept, and what comes of any bytes is well formed.\<close>

declare utf8_valid.simps(2) [simp del]

lemma byte_at_simps [simp]: "byte_at [] i = 0" "byte_at (b # bs) 0 = b" "byte_at (b # bs) (Suc i) = byte_at bs i"
  by (simp_all add: byte_at_def)

lemma byte_at_numeral [simp]: "byte_at (b # bs) 1 = byte_at bs 0" "byte_at (b # bs) 2 = byte_at bs 1" "byte_at (b # bs) 3 = byte_at bs 2"
  by (simp_all add: byte_at_def numeral_eq_Suc)

lemma utf8_second_ranges:
  "0xe0 \<le> b \<Longrightarrow> b \<le> 0xef \<Longrightarrow> utf8_second b c =
     (if b = 0xe0 then 0xa0 \<le> c \<and> c \<le> 0xbf else if b = 0xed then 0x80 \<le> c \<and> c \<le> 0x9f else utf8_cont c)"
  "0xf0 \<le> b \<Longrightarrow> b \<le> 0xf4 \<Longrightarrow> utf8_second b c =
     (if b = 0xf0 then 0x90 \<le> c \<and> c \<le> 0xbf else if b = 0xf4 then 0x80 \<le> c \<and> c \<le> 0x8f else utf8_cont c)"
  by (auto simp: utf8_second_def)

lemma no_cont_zero [simp]: "\<not> utf8_cont 0" "\<not> utf8_second b 0"
  by (auto simp: utf8_cont_def utf8_second_def)

definition utf8_class :: "u8 \<Rightarrow> nat" where
  "utf8_class b = (if b < 0x80 then 1 else if 0xc2 \<le> b \<and> b \<le> 0xdf then 2 else if 0xe0 \<le> b \<and> b \<le> 0xef then 3
     else if 0xf0 \<le> b \<and> b \<le> 0xf4 then 4 else 0)"

lemma utf8_valid_class:
  "utf8_valid (b # bs) \<longleftrightarrow>
     (if utf8_class b = 1 then utf8_valid bs
      else if utf8_class b = 2 then (case bs of c # cs \<Rightarrow> utf8_cont c \<and> utf8_valid cs | _ \<Rightarrow> False)
      else if utf8_class b = 3 then (case bs of c # d # ds \<Rightarrow> utf8_second b c \<and> utf8_cont d \<and> utf8_valid ds | _ \<Rightarrow> False)
      else if utf8_class b = 4 then (case bs of c # d # e # es \<Rightarrow> utf8_second b c \<and> utf8_cont d \<and> utf8_cont e \<and> utf8_valid es | _ \<Rightarrow> False)
      else False)"
  unfolding utf8_valid.simps(2) [of b bs] utf8_class_def
  by (simp add: utf8_second_ranges split: list.split)

lemma utf8_chunk_class:
  "utf8_chunk (b # bs) =
     (if utf8_class b = 1 then (True, 1)
      else if utf8_class b = 2 then (if utf8_cont (byte_at bs 0) then (True, 2) else (False, 1))
      else if utf8_class b = 3 then
        (if \<not> utf8_second b (byte_at bs 0) then (False, 1) else if utf8_cont (byte_at bs 1) then (True, 3) else (False, 2))
      else if utf8_class b = 4 then
        (if \<not> utf8_second b (byte_at bs 0) then (False, 1) else if \<not> utf8_cont (byte_at bs 1) then (False, 2)
         else if utf8_cont (byte_at bs 2) then (True, 4) else (False, 3))
      else (False, 1))"
  by (auto simp: utf8_chunk_def utf8_class_def Let_def)

lemma byte_at_found: "utf8_cont (byte_at bs i) \<Longrightarrow> i < length bs" "utf8_second b (byte_at bs i) \<Longrightarrow> i < length bs"
  by (auto simp: byte_at_def split: if_splits)

lemma utf8_valid_chunk:
  "utf8_valid (b # bs) \<longleftrightarrow> fst (utf8_chunk (b # bs)) \<and> utf8_valid (drop (snd (utf8_chunk (b # bs))) (b # bs))"
  "fst (utf8_chunk (b # bs)) \<Longrightarrow> utf8_valid (take (snd (utf8_chunk (b # bs))) (b # bs) @ ys) \<longleftrightarrow> utf8_valid ys"
proof -
  show "utf8_valid (b # bs) \<longleftrightarrow> fst (utf8_chunk (b # bs)) \<and> utf8_valid (drop (snd (utf8_chunk (b # bs))) (b # bs))"
    unfolding utf8_valid_class [of b bs] utf8_chunk_class
    by (auto simp: numeral_eq_Suc split: list.split)
  assume chunk: "fst (utf8_chunk (b # bs))"
  then consider (1) "utf8_class b = 1" | (2) "utf8_class b = 2" "utf8_cont (byte_at bs 0)"
    | (3) "utf8_class b = 3" "utf8_second b (byte_at bs 0)" "utf8_cont (byte_at bs 1)"
    | (4) "utf8_class b = 4" "utf8_second b (byte_at bs 0)" "utf8_cont (byte_at bs 1)" "utf8_cont (byte_at bs 2)"
    unfolding utf8_chunk_class by (auto split: if_splits)
  then show "utf8_valid (take (snd (utf8_chunk (b # bs))) (b # bs) @ ys) \<longleftrightarrow> utf8_valid ys"
  proof cases
    case 1
    then show ?thesis by (simp add: utf8_chunk_class utf8_valid_class [of b])
  next
    case 2
    then show ?thesis by (cases bs) (simp_all add: utf8_chunk_class utf8_valid_class [of b])
  next
    case 3
    moreover from this obtain c d ds where "bs = c # d # ds" by (cases bs; cases "tl bs") auto
    ultimately show ?thesis by (simp add: utf8_chunk_class utf8_valid_class [of b] numeral_eq_Suc)
  next
    case 4
    moreover from this obtain c d e es where "bs = c # d # e # es" by (cases bs; cases "tl bs"; cases "tl (tl bs)") auto
    ultimately show ?thesis by (simp add: utf8_chunk_class utf8_valid_class [of b] numeral_eq_Suc)
  qed
qed

lemma lossy_id: "utf8_valid bs \<Longrightarrow> lossy bs = bs"
proof (induction bs rule: lossy.induct)
  case (1 bs)
  show ?case
  proof (cases bs)
    case (Cons b rest)
    note v = utf8_valid_chunk(1) [of b rest, folded Cons, THEN iffD1, OF "1.prems"]
    have "lossy (drop (snd (utf8_chunk bs)) bs) = drop (snd (utf8_chunk bs)) bs" using "1.IH" v Cons by simp
    then show ?thesis using v Cons by (subst lossy.simps) simp
  qed (simp add: lossy.simps)
qed

lemma lossy_valid: "utf8_valid (lossy bs)"
proof (induction bs rule: lossy.induct)
  case (1 bs)
  show ?case
  proof (cases bs)
    case (Cons b rest)
    have mark: "utf8_valid ([0xef, 0xbf, 0xbd] @ ys) = utf8_valid ys" for ys by (simp add: utf8_valid.simps(2) utf8_cont_def)
    have "utf8_valid (lossy (drop (snd (utf8_chunk bs)) bs))" using 1 Cons by simp
    then show ?thesis
      using utf8_valid_chunk(2) [of b rest, folded Cons] mark Cons by (subst lossy.simps) (simp del: append.simps utf8_valid.simps)
  qed (simp add: lossy.simps)
qed

section \<open>Across the boundary\<close>

definition c_text :: "bytes option \<Rightarrow> string" where
  "c_text p = (case p of None \<Rightarrow> [] | Some bs \<Rightarrow> if bs = [] then [] else from_utf8_lossy bs)"

definition c_bytes :: "bytes option \<Rightarrow> bytes" where
  "c_bytes p = (case p of None \<Rightarrow> [] | Some bs \<Rightarrow> bs)"

definition c_array :: "'a list option \<Rightarrow> 'a list" where
  "c_array p = (case p of None \<Rightarrow> [] | Some xs \<Rightarrow> xs)"

text \<open>The bytes of a number in the machine's order.\<close>

definition ne_bytes :: "bool \<Rightarrow> nat \<Rightarrow> nat \<Rightarrow> bytes" where
  "ne_bytes big n v = (if big then be_bytes n v else le_bytes n v)"

definition ne_nat :: "bool \<Rightarrow> bytes \<Rightarrow> nat" where
  "ne_nat big bs = (if big then be_nat bs else le_nat bs)"

definition packed :: "('a \<Rightarrow> bytes) \<Rightarrow> 'a list \<Rightarrow> bytes" where
  "packed layout values = concat (map layout values)"

definition frame :: "bool \<Rightarrow> bytes list \<Rightarrow> bytes" where
  "frame big items = concat (map (\<lambda>item. ne_bytes big 4 (length item mod 2 ^ 32) @ item) items)"

function unframe :: "bool \<Rightarrow> bytes \<Rightarrow> bytes list" where
  "unframe big bs =
     (if length bs < 4 then []
      else let len = ne_nat big (take 4 bs)
           in if 4 + len \<le> length bs then take len (drop 4 bs) # unframe big (drop (4 + len) bs) else [])"
  by pat_completeness auto
termination
  by (relation "measure (\<lambda>(_, bs). length bs)") auto

declare unframe.simps [simp del]

definition unframe_text :: "bool \<Rightarrow> bytes \<Rightarrow> string list" where
  "unframe_text big bs = map from_utf8_lossy (unframe big bs)"

fun coordinates_from :: "f64 list \<Rightarrow> (f64 \<times> f64) list" where
  "coordinates_from (x # y # rest) = (x, y) # coordinates_from rest"
| "coordinates_from _ = []"

definition coordinates_into :: "(f64 \<times> f64) list \<Rightarrow> f64 list" where
  "coordinates_into pairs = concat (map (\<lambda>(x, y). [x, y]) pairs)"

definition F64_NAN :: f64 where "F64_NAN = 0x7ff8000000000000"

fun points_from :: "f64 list \<Rightarrow> point list" where
  "points_from (x # y # rotation # rest) =
     \<lparr> pt_x = x, pt_y = y, pt_rotation_degrees = (if f64_is_nan rotation then None else Some rotation) \<rparr> # points_from rest"
| "points_from _ = []"

definition points_into :: "point list \<Rightarrow> f64 list" where
  "points_into points =
     concat (map (\<lambda>p. [pt_x p, pt_y p, case pt_rotation_degrees p of None \<Rightarrow> F64_NAN | Some r \<Rightarrow> r]) points)"

section \<open>The library's state\<close>

text \<open>The client of the handle; the blocks the caller owns, by address; and the contexts of the callbacks: those
  the client holds, under the name of the subscription, and those released, in order.\<close>

record abi =
  ab_inner :: foreign_client
  ab_blocks :: "(nat, bytes) hm"
  ab_next :: nat
  ab_held :: "(string, nat) hm"
  ab_released :: "nat list"

text \<open>The address and the length written; nothing is written for \<open>NULL\<close>.\<close>

definition give :: "bytes \<Rightarrow> abi \<Rightarrow> (nat \<times> nat) \<times> abi" where
  "give v a = ((ab_next a, length v), a\<lparr> ab_blocks := hm_insert (ab_blocks a) (ab_next a) v, ab_next := ab_next a + 1 \<rparr>)"

definition give_option :: "bytes option \<Rightarrow> abi \<Rightarrow> (nat \<times> nat) option \<times> abi" where
  "give_option v a = (case v of None \<Rightarrow> (None, a) | Some v \<Rightarrow> (case give v a of (p, a) \<Rightarrow> (Some p, a)))"

definition give_text :: "string option \<Rightarrow> abi \<Rightarrow> (nat \<times> nat) option \<times> abi" where
  "give_text v = give_option (map_option str_bytes v)"

definition tarwyn_bytes_free :: "nat option \<Rightarrow> abi \<Rightarrow> abi" where
  "tarwyn_bytes_free p a = (case p of None \<Rightarrow> a | Some p \<Rightarrow> a\<lparr> ab_blocks := hm_remove (ab_blocks a) p \<rparr>)"

definition scalar :: "'a option \<Rightarrow> bool \<times> 'a option" where
  "scalar v = (case v of None \<Rightarrow> (False, None) | Some v \<Rightarrow> (True, Some v))"

definition TARWYN_ABI_VERSION :: u32 where "TARWYN_ABI_VERSION = 2"

definition tarwyn_abi_version :: u32 where "tarwyn_abi_version = TARWYN_ABI_VERSION"

section \<open>Construction\<close>

text \<open>The reason the last construction of this thread failed, if it did; \<open>shown\<close> is how an error reads.\<close>

definition give_client ::
  "(connect_error \<Rightarrow> string) \<Rightarrow> connect_error + foreign_client \<Rightarrow> string option \<Rightarrow> abi option \<times> string option" where
  "give_client shown c last_error =
     (case c of
        Inr x \<Rightarrow> (Some \<lparr> ab_inner = x, ab_blocks = [], ab_next = 0, ab_held = [], ab_released = [] \<rparr>, None)
      | Inl e \<Rightarrow> (None, Some (shown e)))"

definition tarwyn_take_last_error :: "string option \<Rightarrow> abi \<Rightarrow> ((nat \<times> nat) option \<times> abi) \<times> string option" where
  "tarwyn_take_last_error last_error a =
     (case last_error of
        Some message \<Rightarrow> (case give (str_bytes message) a of (p, a) \<Rightarrow> ((Some p, a), None))
      | None \<Rightarrow> ((None, a), None))"

type_synonym lookup = "string \<Rightarrow> u16 \<Rightarrow> socket_addr list option"

definition tarwyn_client_new ::
  "(connect_error \<Rightarrow> string) \<Rightarrow> lookup \<Rightarrow> bool \<Rightarrow> string option \<Rightarrow> abi option \<times> string option" where
  "tarwyn_client_new shown lookup bound = give_client shown (fc_new lookup bound)"

definition tarwyn_client_connect ::
  "(connect_error \<Rightarrow> string) \<Rightarrow> lookup \<Rightarrow> bool \<Rightarrow> bytes option \<Rightarrow> string option \<Rightarrow> abi option \<times> string option" where
  "tarwyn_client_connect shown lookup bound host = give_client shown (fc_connect lookup bound (c_text host))"

definition tarwyn_client_with_ports ::
  "(connect_error \<Rightarrow> string) \<Rightarrow> lookup \<Rightarrow> bool \<Rightarrow> bytes option \<Rightarrow> u16 \<Rightarrow> u16 \<Rightarrow> u64 \<Rightarrow> int \<Rightarrow> u64 \<Rightarrow> u64
   \<Rightarrow> string option \<Rightarrow> abi option \<times> string option" where
  "tarwyn_client_with_ports shown lookup bound host port telemetry_port request_timeout_ms send_high_water_mark busy_poll_micros predict_micros =
     give_client shown (fc_with_ports lookup bound (c_text host) port telemetry_port request_timeout_ms send_high_water_mark
       busy_poll_micros predict_micros)"

definition tarwyn_default_predict_micros :: u64 where
  "tarwyn_default_predict_micros =
     (let micros = cfg_predict default_config div 1000 in if micros < 2 ^ 64 then of_nat micros else - 1)"

text \<open>Freeing the client drops its callbacks; what the caller owns it keeps.\<close>

definition tarwyn_client_free :: "abi \<Rightarrow> abi" where
  "tarwyn_client_free a =
     a\<lparr> ab_inner := fc_stop (ab_inner a), ab_held := [], ab_released := ab_released a @ map snd (ab_held a) \<rparr>"

definition on_inner :: "(foreign_client \<Rightarrow> foreign_client) \<Rightarrow> abi \<Rightarrow> abi" where
  "on_inner f a = a\<lparr> ab_inner := f (ab_inner a) \<rparr>"

definition of_inner :: "(foreign_client \<Rightarrow> 'a \<times> foreign_client) \<Rightarrow> abi \<Rightarrow> 'a \<times> abi" where
  "of_inner f a = (case f (ab_inner a) of (r, x) \<Rightarrow> (r, a\<lparr> ab_inner := x \<rparr>))"

definition tarwyn_client_start :: "abi \<Rightarrow> abi" where
  "tarwyn_client_start = on_inner fc_start"

definition tarwyn_client_stop :: "abi \<Rightarrow> abi" where
  "tarwyn_client_stop = on_inner fc_stop"

section \<open>Puts\<close>

type_synonym 'v c_put = "client_codec \<Rightarrow> (nat \<Rightarrow> bool) \<Rightarrow> u64 \<Rightarrow> bytes option \<Rightarrow> 'v \<Rightarrow> abi \<Rightarrow> abi"

definition tarwyn_put_string :: "(bytes option) c_put" where
  "tarwyn_put_string K sock now channel v = on_inner (put_string K sock now (c_text channel) (c_text v))"

definition tarwyn_put_integer :: "u32 c_put" where
  "tarwyn_put_integer K sock now channel v = on_inner (put_integer K sock now (c_text channel) v)"

definition tarwyn_put_long :: "u64 c_put" where
  "tarwyn_put_long K sock now channel v = on_inner (put_long K sock now (c_text channel) v)"

definition tarwyn_put_double :: "f64 c_put" where
  "tarwyn_put_double K sock now channel v = on_inner (put_double K sock now (c_text channel) v)"

definition tarwyn_put_float :: "f32 c_put" where
  "tarwyn_put_float K sock now channel v = on_inner (put_float K sock now (c_text channel) v)"

definition tarwyn_put_boolean :: "bool c_put" where
  "tarwyn_put_boolean K sock now channel v = on_inner (put_boolean K sock now (c_text channel) v)"

definition tarwyn_put_bytes :: "(bytes option) c_put" where
  "tarwyn_put_bytes K sock now channel v = on_inner (put_bytes K sock now (c_text channel) (c_bytes v))"

text \<open>The list of a frame, in the machine's byte order.\<close>

definition tarwyn_put_string_list :: "bool \<Rightarrow> (bytes option) c_put" where
  "tarwyn_put_string_list big K sock now channel v = on_inner (put_string_list K sock now (c_text channel) (unframe_text big (c_bytes v)))"

definition tarwyn_put_bytes_list :: "bool \<Rightarrow> (bytes option) c_put" where
  "tarwyn_put_bytes_list big K sock now channel v = on_inner (put_bytes_list K sock now (c_text channel) (unframe big (c_bytes v)))"

definition tarwyn_put_double_list :: "(f64 list option) c_put" where
  "tarwyn_put_double_list K sock now channel v = on_inner (put_double_list K sock now (c_text channel) (c_array v))"

definition tarwyn_put_float_list :: "(f32 list option) c_put" where
  "tarwyn_put_float_list K sock now channel v = on_inner (put_float_list K sock now (c_text channel) (c_array v))"

definition tarwyn_put_integer_list :: "(u32 list option) c_put" where
  "tarwyn_put_integer_list K sock now channel v = on_inner (put_integer_list K sock now (c_text channel) (c_array v))"

definition tarwyn_put_long_list :: "(u64 list option) c_put" where
  "tarwyn_put_long_list K sock now channel v = on_inner (put_long_list K sock now (c_text channel) (c_array v))"

definition tarwyn_put_boolean_list :: "(bool list option) c_put" where
  "tarwyn_put_boolean_list K sock now channel v = on_inner (put_boolean_list K sock now (c_text channel) (c_array v))"

definition tarwyn_put_coordinates :: "(f64 list option) c_put" where
  "tarwyn_put_coordinates K sock now channel v = on_inner (put_coordinates K sock now (c_text channel) (coordinates_from (c_array v)))"

definition tarwyn_put_pose2d :: "client_codec \<Rightarrow> (nat \<Rightarrow> bool) \<Rightarrow> bytes option \<Rightarrow> f64 \<Rightarrow> f64 \<Rightarrow> f64 \<Rightarrow> abi \<Rightarrow> abi" where
  "tarwyn_put_pose2d K sock channel x y rotation = on_inner (put_pose2d K sock (c_text channel) x y rotation)"

definition tarwyn_put_pose3d ::
  "client_codec \<Rightarrow> (nat \<Rightarrow> bool) \<Rightarrow> bytes option \<Rightarrow> f64 \<Rightarrow> f64 \<Rightarrow> f64 \<Rightarrow> f64 \<Rightarrow> f64 \<Rightarrow> f64 \<Rightarrow> f64 \<Rightarrow> abi \<Rightarrow> abi" where
  "tarwyn_put_pose3d K sock channel x y z qw qx qy qz = on_inner (put_pose3d K sock (c_text channel) [x, y, z, qw, qx, qy, qz])"

definition tarwyn_put_bezier_curve :: "(f64 list option) c_put" where
  "tarwyn_put_bezier_curve K sock now channel v = on_inner (put_bezier_curve K sock now (c_text channel) (points_from (c_array v)))"

definition tarwyn_put_bezier_curves ::
  "client_codec \<Rightarrow> (nat \<Rightarrow> bool) \<Rightarrow> u64 \<Rightarrow> bytes option \<Rightarrow> bytes option \<Rightarrow> abi \<Rightarrow> bool \<times> abi" where
  "tarwyn_put_bezier_curves K sock now channel v = of_inner (put_bezier_curves K sock now (c_text channel) (c_bytes v))"

definition tarwyn_put_bezier_curves_list ::
  "client_codec \<Rightarrow> (nat \<Rightarrow> bool) \<Rightarrow> u64 \<Rightarrow> bytes option \<Rightarrow> bytes option \<Rightarrow> abi \<Rightarrow> bool \<times> abi" where
  "tarwyn_put_bezier_curves_list K sock now channel v = of_inner (put_bezier_curves_list K sock now (c_text channel) (c_bytes v))"

definition tarwyn_put_typed_bytes ::
  "client_codec \<Rightarrow> (nat \<Rightarrow> bool) \<Rightarrow> u64 \<Rightarrow> bytes option \<Rightarrow> int \<Rightarrow> bytes option \<Rightarrow> abi \<Rightarrow> bool \<times> abi" where
  "tarwyn_put_typed_bytes K sock now channel tarwyn_type v = of_inner (put_typed_bytes K sock now (c_text channel) tarwyn_type (c_bytes v))"

definition tarwyn_put_unknown_bytes :: "(bytes option) c_put" where
  "tarwyn_put_unknown_bytes K sock now channel v = on_inner (put_unknown_bytes K sock now (c_text channel) (c_bytes v))"

fun name_schema_pairs :: "string list \<Rightarrow> (string \<times> string) list" where
  "name_schema_pairs (name # schema # rest) = (name, schema) # name_schema_pairs rest"
| "name_schema_pairs _ = []"

definition tarwyn_put_struct ::
  "bool \<Rightarrow> client_codec \<Rightarrow> (nat \<Rightarrow> bool) \<Rightarrow> bytes option \<Rightarrow> bytes option \<Rightarrow> bytes option \<Rightarrow> bytes option \<Rightarrow> abi \<Rightarrow> abi" where
  "tarwyn_put_struct big K sock channel type_name schemas payload =
     on_inner (put_struct K sock (c_text channel) (c_text type_name) (name_schema_pairs (unframe_text big (c_bytes schemas))) (c_bytes payload))"

section \<open>Reads\<close>

type_synonym 'r c_read = "client_codec \<Rightarrow> (nat \<Rightarrow> bool) \<Rightarrow> bytes option \<Rightarrow> bytes list \<Rightarrow> abi \<Rightarrow> 'r \<times> abi"

text \<open>A block with what was read, or a scalar written through a pointer.\<close>

definition read_block :: "('a \<Rightarrow> bytes) \<Rightarrow> 'a fc_read \<Rightarrow> ((nat \<times> nat) option) c_read" where
  "read_block layout get K sock channel frames a =
     (case of_inner (get K sock (c_text channel) frames) a of (v, a) \<Rightarrow> give_option (map_option layout v) a)"

definition read_scalar :: "'a fc_read \<Rightarrow> (bool \<times> 'a option) c_read" where
  "read_scalar get K sock channel frames a =
     (case of_inner (get K sock (c_text channel) frames) a of (v, a) \<Rightarrow> (scalar v, a))"

definition bool_layout :: "bool \<Rightarrow> bytes" where
  "bool_layout b = [if b then 1 else 0]"

definition tarwyn_get_string :: "((nat \<times> nat) option) c_read" where
  "tarwyn_get_string = read_block str_bytes fc_get_string"

definition tarwyn_get_integer :: "(bool \<times> u32 option) c_read" where
  "tarwyn_get_integer = read_scalar fc_get_integer"

definition tarwyn_get_long :: "(bool \<times> u64 option) c_read" where
  "tarwyn_get_long = read_scalar fc_get_long"

definition tarwyn_get_double :: "(bool \<times> f64 option) c_read" where
  "tarwyn_get_double = read_scalar fc_get_double"

definition tarwyn_get_float :: "(bool \<times> f32 option) c_read" where
  "tarwyn_get_float = read_scalar fc_get_float"

definition tarwyn_get_boolean :: "(bool \<times> bool option) c_read" where
  "tarwyn_get_boolean = read_scalar fc_get_boolean"

definition tarwyn_get_bytes :: "((nat \<times> nat) option) c_read" where
  "tarwyn_get_bytes = read_block (\<lambda>v. v) fc_get_bytes"

definition tarwyn_get_string_list :: "bool \<Rightarrow> ((nat \<times> nat) option) c_read" where
  "tarwyn_get_string_list big = read_block (\<lambda>items. frame big (map str_bytes items)) fc_get_string_list"

definition tarwyn_get_bytes_list :: "bool \<Rightarrow> ((nat \<times> nat) option) c_read" where
  "tarwyn_get_bytes_list big = read_block (frame big) fc_get_bytes_list"

definition tarwyn_get_double_list :: "bool \<Rightarrow> ((nat \<times> nat) option) c_read" where
  "tarwyn_get_double_list big = read_block (packed (\<lambda>v. ne_bytes big 8 (unat v))) fc_get_double_list"

definition tarwyn_get_float_list :: "bool \<Rightarrow> ((nat \<times> nat) option) c_read" where
  "tarwyn_get_float_list big = read_block (packed (\<lambda>v. ne_bytes big 4 (unat v))) fc_get_float_list"

definition tarwyn_get_integer_list :: "bool \<Rightarrow> ((nat \<times> nat) option) c_read" where
  "tarwyn_get_integer_list big = read_block (packed (\<lambda>v. ne_bytes big 4 (unat v))) fc_get_integer_list"

definition tarwyn_get_long_list :: "bool \<Rightarrow> ((nat \<times> nat) option) c_read" where
  "tarwyn_get_long_list big = read_block (packed (\<lambda>v. ne_bytes big 8 (unat v))) fc_get_long_list"

definition tarwyn_get_boolean_list :: "((nat \<times> nat) option) c_read" where
  "tarwyn_get_boolean_list = read_block (packed bool_layout) fc_get_boolean_list"

definition tarwyn_get_coordinates :: "bool \<Rightarrow> ((nat \<times> nat) option) c_read" where
  "tarwyn_get_coordinates big = read_block (\<lambda>pairs. packed (\<lambda>v. ne_bytes big 8 (unat v)) (coordinates_into pairs)) fc_get_coordinates"

definition tarwyn_get_bezier_curve :: "bool \<Rightarrow> ((nat \<times> nat) option) c_read" where
  "tarwyn_get_bezier_curve big = read_block (\<lambda>points. packed (\<lambda>v. ne_bytes big 8 (unat v)) (points_into points)) fc_get_bezier_curve"

definition tarwyn_get_bezier_curves :: "((nat \<times> nat) option) c_read" where
  "tarwyn_get_bezier_curves = read_block (\<lambda>v. v) fc_get_bezier_curves"

definition tarwyn_get_bezier_curves_list :: "((nat \<times> nat) option) c_read" where
  "tarwyn_get_bezier_curves_list = read_block (\<lambda>v. v) fc_get_bezier_curves_list"

definition tarwyn_get_pose2d :: "(bool \<times> f64 list option) c_read" where
  "tarwyn_get_pose2d = read_scalar fc_get_pose2d"

definition tarwyn_get_pose3d :: "(bool \<times> f64 list option) c_read" where
  "tarwyn_get_pose3d = read_scalar fc_get_pose3d"

definition tarwyn_get_unknown_bytes :: "((nat \<times> nat) option) c_read" where
  "tarwyn_get_unknown_bytes = read_block (\<lambda>v. v) fc_get_unknown_bytes"

section \<open>Requests\<close>

definition tarwyn_delete :: "u32 c_read" where
  "tarwyn_delete K sock channel frames = of_inner (fc_delete K sock (c_text channel) frames)"

definition tarwyn_delete_all :: "client_codec \<Rightarrow> (nat \<Rightarrow> bool) \<Rightarrow> bytes list \<Rightarrow> abi \<Rightarrow> u32 \<times> abi" where
  "tarwyn_delete_all K sock frames = of_inner (fc_delete_all K sock frames)"

definition tarwyn_get_tables :: "bool \<Rightarrow> (nat \<times> nat) c_read" where
  "tarwyn_get_tables big K sock pre frames a =
     (case of_inner (fc_get_tables K sock (c_text pre) frames) a of (tables, a) \<Rightarrow> give (frame big (map str_bytes tables)) a)"

definition tarwyn_get_ping ::
  "client_codec \<Rightarrow> (nat \<Rightarrow> bool) \<Rightarrow> u64 \<Rightarrow> u64 \<Rightarrow> bytes list \<Rightarrow> abi \<Rightarrow> (bool \<times> u64 option) \<times> abi" where
  "tarwyn_get_ping K sock sent now frames a = (case of_inner (fc_get_ping K sock sent now frames) a of (v, a) \<Rightarrow> (scalar v, a))"

text \<open>The statistics as they are filled in, and the block of the version.\<close>

definition tarwyn_get_server_statistics ::
  "client_codec \<Rightarrow> (nat \<Rightarrow> bool) \<Rightarrow> bytes list \<Rightarrow> abi \<Rightarrow> (statistics \<times> nat \<times> nat) option \<times> abi" where
  "tarwyn_get_server_statistics K sock frames a =
     (case of_inner (fc_get_server_statistics K sock frames) a of
        (None, a) \<Rightarrow> (None, a)
      | (Some statistics, a) \<Rightarrow> (case give (str_bytes (stat_version statistics)) a of (p, a) \<Rightarrow> (Some (statistics, p), a)))"

definition tarwyn_get_raw_json :: "(nat \<times> nat) c_read" where
  "tarwyn_get_raw_json K sock pre frames a =
     (case of_inner (fc_get_raw_json K sock (c_text pre) frames) a of (doc, a) \<Rightarrow> give (str_bytes doc) a)"

definition tarwyn_compare_and_set_absent_string ::
  "client_codec \<Rightarrow> (nat \<Rightarrow> bool) \<Rightarrow> bytes option \<Rightarrow> bytes option \<Rightarrow> bytes list \<Rightarrow> abi \<Rightarrow> bool \<times> abi" where
  "tarwyn_compare_and_set_absent_string K sock channel v frames =
     of_inner (compare_and_set_absent_string K sock (c_text channel) (c_text v) frames)"

definition tarwyn_compare_and_set_string ::
  "client_codec \<Rightarrow> (nat \<Rightarrow> bool) \<Rightarrow> bytes option \<Rightarrow> bytes option \<Rightarrow> bytes option \<Rightarrow> bytes list \<Rightarrow> abi \<Rightarrow> bool \<times> abi" where
  "tarwyn_compare_and_set_string K sock channel expected v frames =
     of_inner (compare_and_set_string K sock (c_text channel) (c_text expected) (c_text v) frames)"

definition tarwyn_compare_and_set_double ::
  "client_codec \<Rightarrow> (nat \<Rightarrow> bool) \<Rightarrow> bytes option \<Rightarrow> f64 \<Rightarrow> f64 \<Rightarrow> bytes list \<Rightarrow> abi \<Rightarrow> bool \<times> abi" where
  "tarwyn_compare_and_set_double K sock channel expected v frames =
     of_inner (compare_and_set_double K sock (c_text channel) expected v frames)"

definition tarwyn_compare_and_set_long ::
  "client_codec \<Rightarrow> (nat \<Rightarrow> bool) \<Rightarrow> bytes option \<Rightarrow> u64 \<Rightarrow> u64 \<Rightarrow> bytes list \<Rightarrow> abi \<Rightarrow> bool \<times> abi" where
  "tarwyn_compare_and_set_long K sock channel expected v frames =
     of_inner (compare_and_set_long K sock (c_text channel) expected v frames)"

definition tarwyn_compare_and_set_boolean ::
  "client_codec \<Rightarrow> (nat \<Rightarrow> bool) \<Rightarrow> bytes option \<Rightarrow> bool \<Rightarrow> bool \<Rightarrow> bytes list \<Rightarrow> abi \<Rightarrow> bool \<times> abi" where
  "tarwyn_compare_and_set_boolean K sock channel expected v frames =
     of_inner (compare_and_set_boolean K sock (c_text channel) expected v frames)"

definition tarwyn_publish_telemetry :: "bool \<Rightarrow> u64 \<Rightarrow> u64 \<Rightarrow> bytes option \<Rightarrow> bytes option \<Rightarrow> abi \<Rightarrow> bytes \<times> abi" where
  "tarwyn_publish_telemetry sent logged_at now channel payload =
     of_inner (fc_publish_telemetry sent logged_at now (c_text channel) (c_bytes payload))"

text \<open>\<open>opened\<close>: what opening a log at a path, or of a name on a drive, gives.\<close>

definition tarwyn_log_to :: "(string \<Rightarrow> wpi_logger option) \<Rightarrow> bytes option \<Rightarrow> abi \<Rightarrow> bool \<times> abi" where
  "tarwyn_log_to opened path = of_inner (fc_log_to (opened (c_text path)))"

definition tarwyn_log_to_drive ::
  "(string \<Rightarrow> 'e option + wpi_logger \<times> string) \<Rightarrow> bytes option \<Rightarrow> abi \<Rightarrow> (nat \<times> nat) option \<times> abi" where
  "tarwyn_log_to_drive opened filename a =
     (case of_inner (fc_log_to_drive (opened (c_text filename))) a of (path, a) \<Rightarrow> give_text path a)"

definition tarwyn_dropped_log_records :: "abi \<Rightarrow> nat" where
  "tarwyn_dropped_log_records a = fc_log_dropped (ab_inner a)"

definition tarwyn_logging_healthy :: "abi \<Rightarrow> bool" where
  "tarwyn_logging_healthy a = fc_logging_healthy (ab_inner a)"

definition tarwyn_dropped_publishes :: "abi \<Rightarrow> nat" where
  "tarwyn_dropped_publishes a = fc_dropped_publishes (ab_inner a)"

section \<open>Subscriptions\<close>

text \<open>A callback's context is held by the client until the subscription ends, and then released; a refused
  subscription's is released before the call returns.\<close>

definition settle :: "string \<Rightarrow> nat \<Rightarrow> bool \<Rightarrow> abi \<Rightarrow> abi" where
  "settle key ctx ok a =
     (if ok then a\<lparr> ab_held := hm_insert (ab_held a) key ctx \<rparr> else a\<lparr> ab_released := ab_released a @ [ctx] \<rparr>)"

definition release_name :: "string \<Rightarrow> abi \<Rightarrow> abi" where
  "release_name key a =
     (case hm_get (ab_held a) key of
        None \<Rightarrow> a
      | Some ctx \<Rightarrow> a\<lparr> ab_held := hm_remove (ab_held a) key, ab_released := ab_released a @ [ctx] \<rparr>)"

definition tarwyn_subscribe ::
  "client_codec \<Rightarrow> (kind \<Rightarrow> bytes) \<Rightarrow> (nat \<Rightarrow> bool) \<Rightarrow> bytes option \<Rightarrow> nat \<Rightarrow> bytes list \<Rightarrow> abi
   \<Rightarrow> (bool \<times> (string \<times> bytes) list) \<times> abi" where
  "tarwyn_subscribe K encode sock channel ctx frames a =
     (case of_inner (fc_subscribe K encode sock (c_text channel) frames) a of
        ((ok, calls), a) \<Rightarrow> ((ok, calls), settle (value_key (c_text channel)) ctx ok a))"

definition tarwyn_unsubscribe :: "client_codec \<Rightarrow> (nat \<Rightarrow> bool) \<Rightarrow> bytes option \<Rightarrow> abi \<Rightarrow> bool \<times> abi" where
  "tarwyn_unsubscribe K sock channel a =
     (case of_inner (fc_unsubscribe K sock (c_text channel)) a of (ok, a) \<Rightarrow> (ok, release_name (value_key (c_text channel)) a))"

definition tarwyn_subscribe_telemetry ::
  "client_codec \<Rightarrow> (nat \<Rightarrow> bool) \<Rightarrow> u64 \<Rightarrow> bytes option \<Rightarrow> nat \<Rightarrow> abi \<Rightarrow> bool \<times> abi" where
  "tarwyn_subscribe_telemetry K sock now channel ctx a =
     (case of_inner (fc_subscribe_telemetry K sock now (c_text channel)) a of
        (ok, a) \<Rightarrow> (ok, settle (telemetry_key (c_text channel)) ctx ok a))"

definition tarwyn_unsubscribe_telemetry :: "client_codec \<Rightarrow> (nat \<Rightarrow> bool) \<Rightarrow> bytes option \<Rightarrow> abi \<Rightarrow> bool \<times> abi" where
  "tarwyn_unsubscribe_telemetry K sock channel a =
     (case of_inner (fc_unsubscribe_telemetry K sock (c_text channel)) a of
        (ok, a) \<Rightarrow> (ok, release_name (telemetry_key (c_text channel)) a))"

definition tarwyn_subscribe_to_logs ::
  "client_codec \<Rightarrow> (nat \<Rightarrow> bool) \<Rightarrow> nat \<Rightarrow> bytes list \<Rightarrow> abi \<Rightarrow> (bool \<times> (string \<times> bytes) list) \<times> abi" where
  "tarwyn_subscribe_to_logs K sock ctx frames a =
     (case of_inner (fc_subscribe_to_logs K sock frames) a of
        ((ok, calls), a) \<Rightarrow> ((ok, calls), settle LOGS_CHANNEL ctx ok a))"

definition tarwyn_unsubscribe_from_logs :: "client_codec \<Rightarrow> (nat \<Rightarrow> bool) \<Rightarrow> abi \<Rightarrow> bool \<times> abi" where
  "tarwyn_unsubscribe_from_logs K sock a =
     (case of_inner (fc_unsubscribe_from_logs K sock) a of (ok, a) \<Rightarrow> (ok, release_name LOGS_CHANNEL a))"

section \<open>What crosses is kept\<close>

lemma str_bytes_bytes_str: "str_bytes (bytes_str bs) = bs"
proof -
  have "(of_char (char_of (unat b)) :: u8) = b" for b :: u8
  proof -
    have "(of_char (char_of (unat b)) :: u8) = of_nat (of_char (char_of (unat b)))" by (simp only: of_nat_of_char)
    also have "\<dots> = b" using unat_less_2p [of b] by simp
    finally show ?thesis .
  qed
  then show ?thesis by (simp add: str_bytes_def bytes_str_def comp_def)
qed

lemma c_text_str: "is_str (c_text p)" "is_str s \<Longrightarrow> c_text (Some (str_bytes s)) = s" "c_text None = []"
  by (auto simp: c_text_def from_utf8_lossy_def is_str_def lossy_valid lossy_id str_bytes_bytes_str split: option.split)
    (simp_all add: str_bytes_def)

lemma ne_bytes_trip: "length (ne_bytes big n v) = n" "v < 256 ^ n \<Longrightarrow> ne_nat big (ne_bytes big n v) = v"
  by (simp_all add: ne_bytes_def ne_nat_def le_nat_le_bytes_id be_nat_be_bytes_id)

interpretation ne_u32: fixed_layout "\<lambda>v :: u32. ne_bytes big 4 (unat v)" 4 "\<lambda>bs. of_nat (ne_nat big bs)" for big
proof
  fix x :: u32
  show "of_nat (ne_nat big (ne_bytes big 4 (unat x))) = x" using unat_less_2p [of x] by (simp add: ne_bytes_trip)
qed (simp add: ne_bytes_trip)

interpretation ne_u64: fixed_layout "\<lambda>v :: u64. ne_bytes big 8 (unat v)" 8 "\<lambda>bs. of_nat (ne_nat big bs)" for big
proof
  fix x :: u64
  show "of_nat (ne_nat big (ne_bytes big 8 (unat x))) = x" using unat_less_2p [of x] by (simp add: ne_bytes_trip)
qed (simp add: ne_bytes_trip)

interpretation bools: fixed_layout bool_layout 1 "\<lambda>bs. hd bs \<noteq> 0"
  by unfold_locales (simp_all add: bool_layout_def)

lemma unframe_frame: "list_all (\<lambda>item. length item < 2 ^ 32) items \<Longrightarrow> unframe big (frame big items) = items"
proof (induction items)
  case (Cons item items)
  have f: "frame big (item # items) = ne_bytes big 4 (length item) @ item @ frame big items"
    using Cons.prems by (simp add: frame_def)
  have n: "ne_nat big (take 4 (frame big (item # items))) = length item"
    using Cons.prems by (simp add: f ne_bytes_trip)
  show ?case
    using Cons n by (subst unframe.simps) (simp add: f ne_bytes_trip Let_def)
qed (simp add: frame_def unframe.simps)

lemma coordinates_trip: "coordinates_from (coordinates_into pairs) = pairs"
  by (induction pairs) (auto simp: coordinates_into_def)

lemma points_trip:
  "points_from (points_into points)
     = map (\<lambda>p. p\<lparr> pt_rotation_degrees := (case pt_rotation_degrees p of Some r \<Rightarrow> if f64_is_nan r then None else Some r | None \<Rightarrow> None) \<rparr>) points"
  by (induction points) (auto simp: points_into_def F64_NAN_def f64_is_nan_def split: option.split)

lemma ne_nat_trip: "length bs = n \<Longrightarrow> ne_bytes big n (ne_nat big bs) = bs" "ne_nat big bs < 256 ^ length bs"
  by (simp_all add: ne_bytes_def ne_nat_def le_bytes_le_nat be_bytes_be_nat le_nat_bound be_nat_bound)

lemma frame_unframe: "\<exists>rest. bs = frame big (unframe big bs) @ rest"
proof (induction big bs rule: unframe.induct)
  case (1 big bs)
  let ?len = "ne_nat big (take 4 bs)"
  show ?case
  proof (cases "4 \<le> length bs \<and> 4 + ?len \<le> length bs")
    case True
    then obtain rest where rest: "drop (4 + ?len) bs = frame big (unframe big (drop (4 + ?len) bs)) @ rest" using 1 by auto
    have len: "length (take ?len (drop 4 bs)) = ?len" "?len < 2 ^ 32" using True ne_nat_trip(2) [of big "take 4 bs"] by auto
    have split: "bs = take 4 bs @ take n (drop 4 bs) @ drop (4 + n) bs" for n
      by (metis add.commute append_take_drop_id drop_drop)
    have "frame big (take ?len (drop 4 bs) # unframe big (drop (4 + ?len) bs)) @ rest
        = take 4 bs @ take ?len (drop 4 bs) @ drop (4 + ?len) bs"
      using rest len True by (simp add: frame_def ne_nat_trip)
    then have "bs = frame big (take ?len (drop 4 bs) # unframe big (drop (4 + ?len) bs)) @ rest" using split [of ?len] by simp
    moreover have "unframe big bs = take ?len (drop 4 bs) # unframe big (drop (4 + ?len) bs)"
      using True by (subst unframe.simps) (simp add: Let_def)
    ultimately show ?thesis by auto
  next
    case False
    then have "unframe big bs = []" by (subst unframe.simps) (auto simp: Let_def)
    then show ?thesis by (simp add: frame_def)
  qed
qed

lemma point_unset: "p\<lparr> pt_rotation_degrees := None \<rparr> = p \<longleftrightarrow> pt_rotation_degrees p = None" "p\<lparr> pt_rotation_degrees := pt_rotation_degrees p \<rparr> = p"
  by (cases p; auto)+

text \<open>C27. Lists cross the C boundary in either byte order.  A frame of items shorter than 4 GiB reads back as the
  items; of any other bytes exactly the items framed at the front are read.  A packed list of numbers holds
  each where its index says.  Pairs of coordinates come back
  as they were; control points too, but for a heading that is not a number, which is no heading; and text
  is always well formed, and kept when it was.\<close>

theorem c_lists_cross:
  "(list_all (\<lambda>item. length item < 2 ^ 32) items \<longrightarrow> unframe big (frame big items) = items)
   \<and> (\<exists>rest. bs = frame big (unframe big bs) @ rest)
   \<and> map (\<lambda>i. of_nat (ne_nat big (take 8 (drop (i * 8) (packed (\<lambda>v. ne_bytes big 8 (unat v)) ds))))) [0..<length ds] = (ds :: u64 list)
   \<and> map (\<lambda>i. of_nat (ne_nat big (take 4 (drop (i * 4) (packed (\<lambda>v. ne_bytes big 4 (unat v)) fs))))) [0..<length fs] = (fs :: u32 list)
   \<and> coordinates_from (coordinates_into pairs) = pairs
   \<and> ((\<forall>p \<in> set points. \<forall>r. pt_rotation_degrees p = Some r \<longrightarrow> \<not> f64_is_nan r) \<longleftrightarrow> points_from (points_into points) = points)
   \<and> is_str (c_text p) \<and> (is_str s \<longrightarrow> c_text (Some (str_bytes s)) = s)"
proof -
  have "(\<forall>p \<in> set points. \<forall>r. pt_rotation_degrees p = Some r \<longrightarrow> \<not> f64_is_nan r) \<longleftrightarrow> points_from (points_into points) = points"
    unfolding points_trip by (induction points) (auto simp: point_unset split: option.splits if_splits)
  then show ?thesis
    using unframe_frame frame_unframe coordinates_trip c_text_str ne_u64.laid_out_read ne_u32.laid_out_read unfolding packed_def by blast
qed

theorem c_lists_cross_witness:
  "unframe True (frame True [[1, 2], []]) = [[1, 2], []] \<and> unframe False [2, 0, 0, 0, 7] = [] \<and> c_text (Some [0x61]) = ''a''"
proof -
  have "str_bytes ''a'' = [0x61]" "is_str ''a''" by (simp_all add: str_bytes_def is_str_def utf8_valid.simps)
  then show ?thesis
    using c_lists_cross [of "[[1, 2], []]" True] c_lists_cross [where s = "''a''"]
    by (simp add: unframe.simps [of False] ne_nat_def)
qed

section \<open>A context is released once\<close>

datatype abi_op =
    AbiSubscribe "bytes option" nat "bytes list" | AbiUnsubscribe "bytes option"
  | AbiSubscribeTelemetry u64 "bytes option" nat | AbiUnsubscribeTelemetry "bytes option"
  | AbiSubscribeLogs nat "bytes list" | AbiUnsubscribeLogs | AbiFree

fun abi_run :: "client_codec \<Rightarrow> (kind \<Rightarrow> bytes) \<Rightarrow> (nat \<Rightarrow> bool) \<Rightarrow> abi_op \<Rightarrow> abi \<Rightarrow> abi" where
  "abi_run K encode sock (AbiSubscribe channel ctx frames) a = snd (tarwyn_subscribe K encode sock channel ctx frames a)"
| "abi_run K encode sock (AbiUnsubscribe channel) a = snd (tarwyn_unsubscribe K sock channel a)"
| "abi_run K encode sock (AbiSubscribeTelemetry now channel ctx) a = snd (tarwyn_subscribe_telemetry K sock now channel ctx a)"
| "abi_run K encode sock (AbiUnsubscribeTelemetry channel) a = snd (tarwyn_unsubscribe_telemetry K sock channel a)"
| "abi_run K encode sock (AbiSubscribeLogs ctx frames) a = snd (tarwyn_subscribe_to_logs K sock ctx frames a)"
| "abi_run K encode sock AbiUnsubscribeLogs a = snd (tarwyn_unsubscribe_from_logs K sock a)"
| "abi_run K encode sock AbiFree a = tarwyn_client_free a"

fun op_context :: "abi_op \<Rightarrow> nat list" where
  "op_context (AbiSubscribe _ ctx _) = [ctx]"
| "op_context (AbiSubscribeTelemetry _ _ ctx) = [ctx]"
| "op_context (AbiSubscribeLogs ctx _) = [ctx]"
| "op_context _ = []"

text \<open>The names the contexts are held under are the names that can be cancelled.\<close>

definition abi_ok :: "nat list \<Rightarrow> abi \<Rightarrow> bool" where
  "abi_ok given a \<longleftrightarrow> hm_ok (ab_held a) \<and> mset (map snd (ab_held a)) + mset (ab_released a) = mset given
     \<and> (\<forall>key. hm_has (ab_held a) key \<longrightarrow> hm_has (fc_cancels (ab_inner a)) key)"

lemma register_cancels:
  "fst (fc_register K sock key cancel x) \<longleftrightarrow> \<not> hm_has (fc_cancels x) key"
  "fc_cancels (snd (fc_register K sock key cancel x)) = (if hm_has (fc_cancels x) key then fc_cancels x else hm_insert (fc_cancels x) key cancel)"
  by (auto simp: fc_register_def run_cancel_def split: cancel.split)

lemma cancel_cancels: "fc_cancels (snd (fc_cancel K sock key x)) = hm_remove (fc_cancels x) key"
  by (auto simp: fc_cancel_def run_cancel_def hm_remove_fresh split: cancel.split option.split)

lemma abi_okI:
  assumes "ab_held a = H" "ab_released a = R" "ab_inner a = x" "hm_ok H" "mset (map snd H) + mset R = mset given"
    and "\<And>k. hm_has H k \<Longrightarrow> hm_has (fc_cancels x) k"
  shows "abi_ok given a"
  using assms unfolding abi_ok_def by blast

lemma settled_ok:
  assumes ok: "abi_ok given a" and a': "ab_held a' = ab_held a" "ab_released a' = ab_released a"
    and c: "taken \<Longrightarrow> \<not> hm_has (fc_cancels (ab_inner a)) key"
      "\<And>k. hm_has (fc_cancels (ab_inner a)) k \<or> taken \<and> k = key \<Longrightarrow> hm_has (fc_cancels (ab_inner a')) k"
  shows "abi_ok (given @ [ctx]) (settle key ctx taken a')"
proof -
  note parts = ok [unfolded abi_ok_def]
  have keys: "hm_has (ab_held a) k \<Longrightarrow> hm_has (fc_cancels (ab_inner a)) k" for k using parts by blast
  show ?thesis
  proof (cases taken)
    case True
    then have fresh: "\<not> hm_has (ab_held a) key" using keys [of key] c(1) by blast
    then have ins: "hm_insert (ab_held a) key ctx = ab_held a @ [(key, ctx)]" by (rule hm_insert_fresh)
    have "hm_has (hm_insert (ab_held a) key ctx) k \<Longrightarrow> hm_has (fc_cancels (ab_inner a')) k" for k
      using c(2) [of k] keys [of k] True by (simp split: if_splits)
    moreover have "hm_ok (hm_insert (ab_held a) key ctx)" using parts by simp
    moreover have "mset (map snd (hm_insert (ab_held a) key ctx)) + mset (ab_released a) = mset (given @ [ctx])"
      using parts by (simp add: ins)
    ultimately show ?thesis using True a'
      by (intro abi_okI [of _ "hm_insert (ab_held a) key ctx" "ab_released a" "ab_inner a'"]) (simp_all only: settle_def if_True, simp_all)
  next
    case False
    moreover have "mset (map snd (ab_held a)) + mset (ab_released a @ [ctx]) = mset (given @ [ctx])" using parts by simp
    ultimately show ?thesis using parts a' c(2) keys
      by (intro abi_okI [of _ "ab_held a" "ab_released a @ [ctx]" "ab_inner a'"]) (simp_all only: settle_def if_False simp_thms, simp_all)
  qed
qed

lemma mset_remove: "hm_ok m \<Longrightarrow> hm_get m k = Some v \<Longrightarrow> mset (map snd m) = add_mset v (mset (map snd (hm_remove m k)))"
proof (induction m)
  case (Cons p m)
  obtain k' v' where p: "p = (k', v')" by fastforce
  show ?case
  proof (cases "k' = k")
    case True
    then have "\<not> hm_has m k" using Cons.prems(1) p by (simp add: map_of_eq_None_iff)
    then show ?thesis using Cons.prems(2) True p by (simp add: hm_remove_Cons hm_remove_fresh)
  next
    case False
    then show ?thesis using Cons p by (simp add: hm_remove_Cons)
  qed
qed simp

lemma released_ok:
  assumes ok: "abi_ok given a" and a': "ab_held a' = ab_held a" "ab_released a' = ab_released a"
    and c: "fc_cancels (ab_inner a') = hm_remove (fc_cancels (ab_inner a)) key"
  shows "abi_ok given (release_name key a')"
proof -
  note parts = ok [unfolded abi_ok_def]
  have keys: "hm_has (ab_held a) k \<Longrightarrow> hm_has (fc_cancels (ab_inner a)) k" for k using parts by blast
  show ?thesis
  proof (cases "hm_get (ab_held a) key")
    case None
    have "hm_has (ab_held a) k \<Longrightarrow> hm_has (fc_cancels (ab_inner a')) k" for k
      using keys [of k] None c by (cases "k = key") simp_all
    then show ?thesis using parts a' None by (simp add: abi_ok_def release_name_def)
  next
    case (Some ctx)
    have "hm_has (hm_remove (ab_held a) key) k \<Longrightarrow> hm_has (fc_cancels (ab_inner a')) k" for k
      using keys [of k] c by (cases "k = key") simp_all
    moreover have "mset (map snd (hm_remove (ab_held a) key)) + mset (ab_released a @ [ctx]) = mset given"
      using parts mset_remove [OF _ Some] by simp
    moreover have "hm_ok (hm_remove (ab_held a) key)" using parts by simp
    ultimately show ?thesis using Some a'
      by (intro abi_okI [of _ "hm_remove (ab_held a) key" "ab_released a @ [ctx]" "ab_inner a'"]) (simp_all only: release_name_def option.simps, simp_all)
  qed
qed

lemma abi_run_ok:
  assumes "abi_ok given a"
  shows "abi_ok (given @ op_context op) (abi_run K encode sock op a)"
proof (cases op)
  case (AbiSubscribe channel ctx frames)
  obtain r x' where x: "fc_subscribe K encode sock (c_text channel) frames (ab_inner a) = (r, x')" by fastforce
  obtain subuid k vs c where c: "client_subscribe K sock (c_text channel) frames (fc_client (ab_inner a)) = ((subuid, k, vs), c)"
    by (metis surj_pair)
  note reg = register_cancels [of K sock "value_key (c_text channel)" "CancelValue (c_text channel) subuid k" "ab_inner a\<lparr> fc_client := c \<rparr>"]
  have r: "fst r \<longleftrightarrow> \<not> hm_has (fc_cancels (ab_inner a)) (value_key (c_text channel))"
    "fc_cancels x' = (if hm_has (fc_cancels (ab_inner a)) (value_key (c_text channel)) then fc_cancels (ab_inner a)
       else hm_insert (fc_cancels (ab_inner a)) (value_key (c_text channel)) (CancelValue (c_text channel) subuid k))"
    using x c reg by (auto simp: fc_subscribe_def split: prod.splits)
  have "abi_ok (given @ [ctx]) (settle (value_key (c_text channel)) ctx (fst r) (a\<lparr> ab_inner := x' \<rparr>))"
    by (rule settled_ok [OF assms]) (auto simp: r split: if_splits)
  then show ?thesis using AbiSubscribe x by (cases r) (simp add: tarwyn_subscribe_def of_inner_def)
next
  case (AbiUnsubscribe channel)
  then show ?thesis
    using released_ok [OF assms, of "a\<lparr> ab_inner := snd (fc_cancel K sock (value_key (c_text channel)) (ab_inner a)) \<rparr>"]
    by (simp add: tarwyn_unsubscribe_def of_inner_def fc_unsubscribe_def cancel_cancels split_def)
next
  case (AbiSubscribeTelemetry now channel ctx)
  obtain r x' where x: "fc_subscribe_telemetry K sock now (c_text channel) (ab_inner a) = (r, x')" by fastforce
  have r: "r \<Longrightarrow> \<not> hm_has (fc_cancels (ab_inner a)) (telemetry_key (c_text channel))"
    "hm_has (fc_cancels (ab_inner a)) k \<or> r \<and> k = telemetry_key (c_text channel) \<Longrightarrow> hm_has (fc_cancels x') k" for k
    using x by (auto simp: fc_subscribe_telemetry_def fc_register_def run_cancel_def split: prod.splits option.splits if_splits cancel.splits)
  have "abi_ok (given @ [ctx]) (settle (telemetry_key (c_text channel)) ctx r (a\<lparr> ab_inner := x' \<rparr>))"
    by (rule settled_ok [OF assms]) (use r in simp_all)
  then show ?thesis using AbiSubscribeTelemetry x by (simp add: tarwyn_subscribe_telemetry_def of_inner_def)
next
  case (AbiUnsubscribeTelemetry channel)
  then show ?thesis
    using released_ok [OF assms, of "a\<lparr> ab_inner := snd (fc_cancel K sock (telemetry_key (c_text channel)) (ab_inner a)) \<rparr>"]
    by (simp add: tarwyn_unsubscribe_telemetry_def of_inner_def fc_unsubscribe_telemetry_def cancel_cancels split_def)
next
  case (AbiSubscribeLogs ctx frames)
  obtain r x' where x: "fc_subscribe_to_logs K sock frames (ab_inner a) = (r, x')" by fastforce
  obtain subuid k vs c where c: "client_subscribe_to_logs K sock frames (fc_client (ab_inner a)) = ((subuid, k, vs), c)"
    by (metis surj_pair)
  note reg = register_cancels [of K sock LOGS_CHANNEL "CancelLogs subuid k" "ab_inner a\<lparr> fc_client := c \<rparr>"]
  have r: "fst r \<longleftrightarrow> \<not> hm_has (fc_cancels (ab_inner a)) LOGS_CHANNEL"
    "fc_cancels x' = (if hm_has (fc_cancels (ab_inner a)) LOGS_CHANNEL then fc_cancels (ab_inner a)
       else hm_insert (fc_cancels (ab_inner a)) LOGS_CHANNEL (CancelLogs subuid k))"
    using x c reg by (auto simp: fc_subscribe_to_logs_def split: prod.splits)
  have "abi_ok (given @ [ctx]) (settle LOGS_CHANNEL ctx (fst r) (a\<lparr> ab_inner := x' \<rparr>))"
    by (rule settled_ok [OF assms]) (auto simp: r split: if_splits)
  then show ?thesis using AbiSubscribeLogs x by (cases r) (simp add: tarwyn_subscribe_to_logs_def of_inner_def)
next
  case AbiUnsubscribeLogs
  then show ?thesis
    using released_ok [OF assms, of "a\<lparr> ab_inner := snd (fc_cancel K sock LOGS_CHANNEL (ab_inner a)) \<rparr>"]
    by (simp add: tarwyn_unsubscribe_from_logs_def of_inner_def fc_unsubscribe_from_logs_def cancel_cancels split_def)
next
  case AbiFree
  then show ?thesis using assms by (simp add: tarwyn_client_free_def abi_ok_def add.commute)
qed

lemma abi_runs_ok:
  "abi_ok given a \<Longrightarrow> abi_ok (given @ concat (map op_context ops)) (fold (abi_run K encode sock) ops a)"
proof (induction ops arbitrary: a given)
  case (Cons op ops)
  then show ?case using Cons.IH [OF abi_run_ok [OF Cons.prems, of op K encode sock]] by simp
qed simp

lemma give_client_ok: "give_client shown c e = (Some a, e') \<Longrightarrow> abi_ok [] a"
  by (auto simp: give_client_def abi_ok_def split: sum.splits)



text \<open>A block handed out holds the bytes read, under an address of its own, until it is freed; the reason of a
  failed construction is kept until it is taken or a construction succeeds.\<close>

lemma give_free:
  assumes "\<not> hm_has (ab_blocks a) (ab_next a)" and "give v a = ((p, n), a')"
  shows "hm_get (ab_blocks a') p = Some v" "n = length v" "ab_blocks (tarwyn_bytes_free (Some p) a') = ab_blocks a"
proof -
  have a': "p = ab_next a" "n = length v" "a' = a\<lparr> ab_blocks := hm_insert (ab_blocks a) p v, ab_next := ab_next a + 1 \<rparr>"
    using assms(2) by (auto simp: give_def)
  show "hm_get (ab_blocks a') p = Some v" "n = length v" by (simp_all add: a')
  have "hm_remove (ab_blocks a @ [(p, v)]) p = hm_remove (ab_blocks a) p" by (induction "ab_blocks a") (simp_all add: hm_remove_Cons hm_remove_def)
  then show "ab_blocks (tarwyn_bytes_free (Some p) a') = ab_blocks a"
    using assms(1) by (simp add: a' tarwyn_bytes_free_def hm_insert_fresh hm_remove_fresh)
qed

lemma last_error_kept:
  "give_client shown (Inl err) e = (None, Some (shown err))" "snd (give_client shown (Inr x) e) = None"
  "snd (tarwyn_take_last_error e a) = None"
  by (simp_all add: give_client_def tarwyn_take_last_error_def split: option.split prod.split)

end
