(* ===== verification/Bench_Harness.thy ===== *)
theory Bench_Harness
  imports Ws_Frame
begin

text \<open>
  The measuring half of the benchmarks (\<^verbatim>\<open>bench/src/harness.rs\<close>): the header stamped into a sample, the recorder
  that counts what arrives and what is missing, its reporting windows, the rows computed from another
  harness's samples, and the pacing of a publisher.  A time is a number of nanoseconds; a histogram is
  the list of the values recorded into it, a rate its two operands.
\<close>

section \<open>Samples\<close>

definition SAMPLE_HEADER_LEN :: nat where
  "SAMPLE_HEADER_LEN = 16"

text \<open>Stamping a buffer; the slices panic on one too short, which is \<^term>\<open>None\<close>.\<close>

definition sample_encode :: "bytes \<Rightarrow> u64 \<Rightarrow> u64 \<Rightarrow> bytes option" where
  "sample_encode buf seq sent_nanos =
     (if length buf < 16 then None else Some (u64_le seq @ u64_le sent_nanos @ drop 16 buf))"

definition sample_decode :: "bytes \<Rightarrow> (u64 \<times> u64) option" where
  "sample_decode buf =
     (if length buf < SAMPLE_HEADER_LEN then None
      else Some (of_nat (le_nat (take 8 buf)), of_nat (le_nat (take 8 (drop 8 buf)))))"

section \<open>The recorder\<close>

record window_state =
  wi_hist :: "u64 list"
  wi_secs :: nat
  wi_ends :: nat
  wi_index :: nat
  wi_received :: nat
  wi_lost :: nat

definition NANOS_PER_SEC :: nat where
  "NANOS_PER_SEC = 1000000000"

definition window_new :: "nat \<Rightarrow> nat \<Rightarrow> window_state" where
  "window_new now secs = \<lparr> wi_hist = [], wi_secs = max secs 1, wi_ends = now + max secs 1 * NANOS_PER_SEC, wi_index = 0,
     wi_received = 0, wi_lost = 0 \<rparr>"

text \<open>The line a closing window prints: its number, its samples, its losses, and the values its quantiles are of.\<close>

record window_row =
  row_index :: nat
  row_received :: nat
  row_lost :: nat
  row_hist :: "u64 list"

definition window_report :: "window_state \<Rightarrow> window_row" where
  "window_report w = \<lparr> row_index = wi_index w, row_received = wi_received w, row_lost = wi_lost w, row_hist = wi_hist w \<rparr>"

definition window_roll :: "window_state \<Rightarrow> window_state" where
  "window_roll w = w\<lparr> wi_index := wi_index w + 1, wi_received := 0, wi_lost := 0, wi_hist := [],
     wi_ends := wi_ends w + wi_secs w * NANOS_PER_SEC \<rparr>"

text \<open>The recorder, with what it has printed.\<close>

record recorder =
  re_hist :: "u64 list"
  re_first_at :: "nat option"
  re_last_at :: "nat option"
  re_warmup :: nat
  re_discarded :: nat
  re_received :: nat
  re_highest_seq :: "u64 option"
  re_first_seq :: "u64 option"
  re_gaps :: nat
  re_reordered :: nat
  re_window :: "window_state option"
  re_achieved_hz_override :: "(nat \<times> nat) option"
  re_printed :: "window_row list"

text \<open>\<open>str::parse\<close> to an unsigned 64-bit number: an optional plus sign and at least one digit.\<close>

definition is_digit :: "char \<Rightarrow> bool" where
  "is_digit c \<longleftrightarrow> 48 \<le> (of_char c :: nat) \<and> (of_char c :: nat) \<le> 57"

definition parse_u64 :: "string \<Rightarrow> u64 option" where
  "parse_u64 s =
     (let ds = (case s of c # t \<Rightarrow> if c = CHR ''+'' then t else s | [] \<Rightarrow> []);
          n = fold (\<lambda>c n. 10 * n + (of_char c - 48)) ds (0 :: nat)
      in if ds \<noteq> [] \<and> list_all is_digit ds \<and> n < 2 ^ 64 then Some (of_nat n) else None)"

definition env_u64 :: "(string \<Rightarrow> string option) \<Rightarrow> string \<Rightarrow> nat option" where
  "env_u64 vars key = map_option unat (Option.bind (vars key) parse_u64)"

definition recorder_new :: "(string \<Rightarrow> string option) \<Rightarrow> nat \<Rightarrow> recorder" where
  "recorder_new vars now = \<lparr> re_hist = [], re_first_at = None, re_last_at = None,
     re_warmup = (case env_u64 vars ''BENCH_WARMUP'' of Some n \<Rightarrow> n | None \<Rightarrow> 500),
     re_discarded = 0, re_received = 0, re_highest_seq = None, re_first_seq = None, re_gaps = 0, re_reordered = 0,
     re_window = (case env_u64 vars ''BENCH_WINDOW_SECS'' of
                    Some secs \<Rightarrow> if secs > 0 then Some (window_new now secs) else None | None \<Rightarrow> None),
     re_achieved_hz_override = None, re_printed = [] \<rparr>"

definition recorder_with_warmup :: "(string \<Rightarrow> string option) \<Rightarrow> nat \<Rightarrow> nat \<Rightarrow> recorder" where
  "recorder_with_warmup vars now warmup = (recorder_new vars now)\<lparr> re_warmup := warmup \<rparr>"

text \<open>Closing the windows whose deadline has passed, the clock read anew before each.\<close>

partial_function (option) close_loop ::
  "(nat \<Rightarrow> nat) \<Rightarrow> nat \<Rightarrow> window_state \<Rightarrow> window_row list \<Rightarrow> (window_state \<times> window_row list) option" where
  "close_loop clk n w printed =
     (if clk n \<ge> wi_ends w then close_loop clk (n + 1) (window_roll w) (printed @ [window_report w])
      else Some (w, printed))"

definition close_elapsed_windows :: "(nat \<Rightarrow> nat) \<Rightarrow> recorder \<Rightarrow> recorder option" where
  "close_elapsed_windows clk r =
     (case re_window r of
        None \<Rightarrow> Some r
      | Some w \<Rightarrow> map_option (\<lambda>(w, printed). r\<lparr> re_window := Some w, re_printed := printed \<rparr>) (close_loop clk 0 w (re_printed r)))"

text \<open>Recording a sample: the ones of the warmup only move the highest number.  The sums are Rust's
  on 64 bits, which wrap in a release build.\<close>

definition lost_before :: "u64 option \<Rightarrow> u64 \<Rightarrow> nat" where
  "lost_before highest seq =
     (case highest of None \<Rightarrow> 0 | Some h \<Rightarrow> if seq > h + 1 then unat (seq - h - 1) else 0)"

definition late_arrival :: "u64 option \<Rightarrow> u64 \<Rightarrow> bool" where
  "late_arrival highest seq = (case highest of None \<Rightarrow> False | Some h \<Rightarrow> \<not> seq > h + 1 \<and> seq \<le> h)"

definition count_sample :: "nat \<Rightarrow> u64 \<Rightarrow> u64 \<Rightarrow> recorder \<Rightarrow> recorder" where
  "count_sample now seq latency r =
     (let lost = lost_before (re_highest_seq r) seq in
      r\<lparr> re_hist := re_hist r @ [latency], re_received := re_received r + 1,
         re_first_at := (case re_first_at r of None \<Rightarrow> Some now | at \<Rightarrow> at), re_last_at := Some now,
         re_first_seq := (case re_first_seq r of None \<Rightarrow> Some seq | s \<Rightarrow> s),
         re_reordered := re_reordered r + (if late_arrival (re_highest_seq r) seq then 1 else 0),
         re_gaps := re_gaps r + lost,
         re_highest_seq := (case re_highest_seq r of None \<Rightarrow> Some seq | Some h \<Rightarrow> if seq > h then Some seq else Some h),
         re_window := map_option (\<lambda>w. w\<lparr> wi_hist := wi_hist w @ [latency], wi_received := wi_received w + 1,
           wi_lost := wi_lost w + lost \<rparr>) (re_window r) \<rparr>)"

definition record_measured :: "nat \<Rightarrow> (nat \<Rightarrow> nat) \<Rightarrow> u64 \<Rightarrow> u64 \<Rightarrow> recorder \<Rightarrow> recorder option" where
  "record_measured now clk seq latency r =
     (if re_discarded r < re_warmup r
      then Some (r\<lparr> re_discarded := re_discarded r + 1, re_highest_seq := Some seq \<rparr>)
      else close_elapsed_windows clk (count_sample now seq latency r))"

definition record_sent :: "u64 \<Rightarrow> nat \<Rightarrow> (nat \<Rightarrow> nat) \<Rightarrow> u64 \<Rightarrow> u64 \<Rightarrow> recorder \<Rightarrow> recorder option" where
  "record_sent wall now clk seq sent_nanos r =
     record_measured now clk seq (if wall < sent_nanos then 0 else wall - sent_nanos) r"

definition recorder_is_empty :: "recorder \<Rightarrow> bool" where
  "recorder_is_empty r \<longleftrightarrow> re_received r = 0"

definition override_achieved_hz :: "nat \<times> nat \<Rightarrow> recorder \<Rightarrow> recorder" where
  "override_achieved_hz hz r = r\<lparr> re_achieved_hz_override := Some hz \<rparr>"

definition achieved_hz :: "recorder \<Rightarrow> nat \<times> nat" where
  "achieved_hz r =
     (case re_achieved_hz_override r of
        Some hz \<Rightarrow> hz
      | None \<Rightarrow>
          (case (re_first_at r, re_last_at r) of
             (Some start, Some finish) \<Rightarrow>
               if finish > start \<and> re_received r > 1 then (re_received r - 1, finish - start) else (0, 1)
           | _ \<Rightarrow> (0, 1)))"

record row_id =
  id_case :: string
  id_implementation :: string
  id_version :: string
  id_rate_hz :: u64

text \<open>The \<^verbatim>\<open>ROW\<close> line: whose it is, the values its quantiles are of, the loss as losses of sends, and the rate.\<close>

record bench_row =
  br_id :: row_id
  br_payload :: nat
  br_hist :: "u64 list"
  br_lost :: nat
  br_sent :: nat
  br_received :: nat
  br_hz :: "nat \<times> nat"

definition recorder_row :: "row_id \<Rightarrow> nat \<Rightarrow> recorder \<Rightarrow> bench_row option" where
  "recorder_row i payload r =
     (if recorder_is_empty r then None
      else Some \<lparr> br_id = i, br_payload = payload, br_hist = re_hist r, br_lost = re_gaps r,
                  br_sent = re_received r + re_gaps r, br_received = re_received r, br_hz = achieved_hz r \<rparr>)"

section \<open>Rows from another harness's samples\<close>

datatype sample_error = Unreadable | NoSampleLines | ClocksDisagree u64 u64 | NoSamplesRecorded

text \<open>\<open>str::lines\<close>: cut at line feeds, a carriage return before one dropped, no last empty line.\<close>

definition str_lines :: "string \<Rightarrow> string list" where
  "str_lines s =
     (let ls = split_at (CHR 0x0A) s;
          ls = (if ls \<noteq> [] \<and> last ls = [] then butlast ls else ls)
      in map (\<lambda>l. if l \<noteq> [] \<and> last l = CHR 0x0D then butlast l else l) ls)"

definition sample_of_line :: "string \<Rightarrow> (u64 \<times> u64 \<times> u64) option" where
  "sample_of_line line =
     Option.bind (strip_prefix [CHR ''S'', CHR 0x09] line) (\<lambda>rest.
       case split_at (CHR 0x09) rest of
         seq # due # received # _ \<Rightarrow>
           Option.bind (parse_u64 (trim seq)) (\<lambda>seq.
           Option.bind (parse_u64 (trim due)) (\<lambda>due.
           Option.bind (parse_u64 (trim received)) (\<lambda>received. Some (seq, due, received))))
       | _ \<Rightarrow> None)"

definition samples_of :: "string \<Rightarrow> (u64 \<times> u64 \<times> u64) list" where
  "samples_of doc = filter_map sample_of_line (str_lines doc)"

text \<open>The loop over the samples; \<open>now\<close> and \<open>clk\<close> give the monotonic clock's readings while the k-th one is recorded.\<close>

fun record_each :: "(nat \<Rightarrow> nat) \<Rightarrow> (nat \<Rightarrow> nat \<Rightarrow> nat) \<Rightarrow> nat \<Rightarrow> (u64 \<times> u64) list \<Rightarrow> recorder \<Rightarrow> recorder option" where
  "record_each now clk k [] r = Some r"
| "record_each now clk k ((seq, latency) # samples) r =
     Option.bind (record_measured (now k) (clk k) seq latency r) (record_each now clk (k + 1) samples)"

definition samples_rate :: "nat \<Rightarrow> (u64 \<times> u64 \<times> u64) list \<Rightarrow> recorder \<Rightarrow> recorder" where
  "samples_rate warmup samples r =
     (if warmup < length samples \<and> snd (snd (last samples)) > snd (snd (samples ! warmup))
      then override_achieved_hz (length samples - warmup - 1,
             unat (snd (snd (last samples)) - snd (snd (samples ! warmup)))) r
      else r)"

definition row_from_samples ::
  "(string \<Rightarrow> string option) \<Rightarrow> nat \<Rightarrow> (nat \<Rightarrow> nat) \<Rightarrow> (nat \<Rightarrow> nat \<Rightarrow> nat) \<Rightarrow> string option \<Rightarrow> row_id \<Rightarrow> nat \<Rightarrow> nat option
     \<Rightarrow> (sample_error, bench_row) result option" where
  "row_from_samples vars start now clk file i payload warmup =
     (case file of
        None \<Rightarrow> Some (Err Unreadable)
      | Some doc \<Rightarrow>
          let samples = samples_of doc in
          if samples = [] then Some (Err NoSampleLines)
          else case find (\<lambda>(_, due, got). got < due) samples of
            Some (seq, due, received) \<Rightarrow> Some (Err (ClocksDisagree seq (due - received)))
          | None \<Rightarrow>
              let r = (case warmup of Some w \<Rightarrow> recorder_with_warmup vars start w | None \<Rightarrow> recorder_new vars start) in
              map_option (\<lambda>r'. case recorder_row i payload (samples_rate (re_warmup r) samples r') of
                                 Some row \<Rightarrow> Ok row | None \<Rightarrow> Err NoSamplesRecorded)
                (record_each now clk 0 (map (\<lambda>(seq, due, received). (seq, received - due)) samples) r))"

section \<open>Pacing a publisher\<close>

record pacer =
  pa_interval :: nat
  pa_next :: nat

definition pacer_new :: "nat \<Rightarrow> u64 \<Rightarrow> pacer" where
  "pacer_new now rate_hz = \<lparr> pa_interval = NANOS_PER_SEC div max (unat rate_hz) 1, pa_next = now \<rparr>"

text \<open>Waiting for the deadline: what the thread does before each reading of the clock, and the reading at which it is due.\<close>

datatype pause = Sleep nat | Spin

partial_function (option) wait_loop :: "(nat \<Rightarrow> nat) \<Rightarrow> nat \<Rightarrow> nat \<Rightarrow> pause list \<Rightarrow> (nat \<times> pause list) option" where
  "wait_loop clk due n pauses =
     (if clk n \<ge> due then Some (n + 1, pauses)
      else let remaining = due - clk n in
        wait_loop clk due (n + 1) (pauses @ [if remaining > 1000000 then Sleep (remaining - 1000000) else Spin]))"

definition due_wall_clock :: "nat \<Rightarrow> nat \<Rightarrow> nat \<Rightarrow> nat" where
  "due_wall_clock now wall due = wall - (now - due)"

definition pacer_wait :: "(nat \<Rightarrow> nat) \<Rightarrow> (nat \<Rightarrow> nat) \<Rightarrow> pacer \<Rightarrow> (nat \<times> pacer) option" where
  "pacer_wait clk wall p =
     (let p = p\<lparr> pa_next := pa_next p + pa_interval p \<rparr> in
      map_option (\<lambda>(n, _). (due_wall_clock (clk n) (wall n) (pa_next p), p)) (wait_loop clk (pa_next p) 0 []))"

record send_stats =
  ss_blocked_total :: nat
  ss_blocked_max :: nat
  ss_late_total :: nat
  ss_late_max :: nat
  ss_late_sends :: nat
  ss_interval_nanos :: nat

definition send_stats_new :: "nat \<Rightarrow> send_stats" where
  "send_stats_new interval = \<lparr> ss_blocked_total = 0, ss_blocked_max = 0, ss_late_total = 0, ss_late_max = 0, ss_late_sends = 0,
     ss_interval_nanos = interval \<rparr>"

definition record_send :: "nat \<Rightarrow> nat \<Rightarrow> nat \<Rightarrow> send_stats \<Rightarrow> send_stats" where
  "record_send due entered blocked st =
     (let late = entered - due in
      st\<lparr> ss_blocked_total := ss_blocked_total st + blocked, ss_blocked_max := max (ss_blocked_max st) blocked,
          ss_late_total := ss_late_total st + late, ss_late_max := max (ss_late_max st) late,
          ss_late_sends := ss_late_sends st + (if late > ss_interval_nanos st then 1 else 0) \<rparr>)"

section \<open>Several subscribers of one value\<close>

definition STRAGGLER_WINDOW :: u64 where
  "STRAGGLER_WINDOW = 1000"

text \<open>One arrival at the probe with several clients (\<^verbatim>\<open>probes/client.rs\<close>): a value is recorded when the last of them has it,
  and values too far behind are given up.\<close>

definition straggler_step ::
  "nat \<Rightarrow> u64 \<times> u64 \<Rightarrow> (u64, nat \<times> u64) om \<times> (u64 \<times> u64) list \<Rightarrow> (u64, nat \<times> u64) om \<times> (u64 \<times> u64) list" where
  "straggler_step subscribers arrival st =
     (let (seq, latency) = arrival; (waiting, recorded) = st;
          (n, slowest) = (case om_get waiting seq of Some e \<Rightarrow> e | None \<Rightarrow> (0, 0));
          n = n + 1; slowest = max slowest latency;
          waiting = om_insert waiting seq (n, slowest);
          (waiting, recorded) = (if n \<ge> subscribers then (om_remove waiting seq, recorded @ [(seq, slowest)])
                                 else (waiting, recorded));
          stale = (if seq < STRAGGLER_WINDOW then 0 else seq - STRAGGLER_WINDOW)
      in (filter (\<lambda>(q, _). q \<ge> stale) waiting, recorded))"

definition straggler_run :: "nat \<Rightarrow> (u64 \<times> u64) list \<Rightarrow> (u64, nat \<times> u64) om \<times> (u64 \<times> u64) list" where
  "straggler_run subscribers arrivals = fold (straggler_step (max subscribers 1)) arrivals ([], [])"

end
