(* ===== verification/Bench_Props.thy ===== *)
theory Bench_Props
  imports Bench_Harness
begin

text \<open>
  What the benchmarks' numbers mean: a sample's header reads back, every window's losses and samples add up
  to the totals, the counted losses are the missing samples and the late ones, a value of several subscribers
  counts once and at the slowest, and the publisher's schedule does not drift.
\<close>

section \<open>Samples\<close>

lemma sample_round_trip:
  assumes "sample_encode buf seq sent = Some b"
  shows "sample_decode b = Some (seq, sent)" "length b = length buf" "drop SAMPLE_HEADER_LEN b = drop SAMPLE_HEADER_LEN buf"
  using assms by (auto simp: sample_encode_def sample_decode_def SAMPLE_HEADER_LEN_def split: if_splits)

section \<open>Reporting windows\<close>

definition window_accounts :: "window_state \<Rightarrow> window_row list \<Rightarrow> nat \<Rightarrow> nat \<Rightarrow> u64 list \<Rightarrow> bool" where
  "window_accounts w printed received lost hist \<longleftrightarrow>
     wi_secs w > 0 \<and> map row_index printed = [0..<wi_index w]
     \<and> sum_list (map row_received printed) + wi_received w = received
     \<and> sum_list (map row_lost printed) + wi_lost w = lost
     \<and> concat (map row_hist printed) @ wi_hist w = hist"

lemma window_accounts_roll:
  "window_accounts w printed received lost hist \<Longrightarrow>
   window_accounts (window_roll w) (printed @ [window_report w]) received lost hist"
  by (simp add: window_accounts_def window_roll_def window_report_def)

lemma close_loop_accounts:
  assumes "close_loop clk n w printed = Some y" and "window_accounts w printed received lost hist"
  shows "window_accounts (fst y) (snd y) received lost hist"
proof -
  have "window_accounts w printed received lost hist \<longrightarrow> window_accounts (fst y) (snd y) received lost hist"
    using assms(1)
  proof (rule close_loop.raw_induct [rotated])
    fix loop :: "(nat \<Rightarrow> nat) \<Rightarrow> nat \<Rightarrow> window_state \<Rightarrow> window_row list \<Rightarrow> (window_state \<times> window_row list) option"
      and clk :: "nat \<Rightarrow> nat" and n w printed y
    assume "\<And>clk n w printed y. loop clk n w printed = Some y \<Longrightarrow>
        window_accounts w printed received lost hist \<longrightarrow> window_accounts (fst y) (snd y) received lost hist"
      and "(if wi_ends w \<le> clk n then loop clk (n + 1) (window_roll w) (printed @ [window_report w]) else Some (w, printed)) = Some y"
    then show "window_accounts w printed received lost hist \<longrightarrow> window_accounts (fst y) (snd y) received lost hist"
      using window_accounts_roll by (fastforce split: if_splits)
  qed
  then show ?thesis using assms(2) by simp
qed

text \<open>The loop ends once the clock stays below some time: every window is at least a second long.\<close>

lemma close_loop_returns:
  assumes "\<And>n. clk n < T" and "wi_secs w > 0"
  shows "\<exists>w' printed'. close_loop clk n w printed = Some (w', printed')"
  using assms(2)
proof (induction "T - wi_ends w" arbitrary: w n printed rule: less_induct)
  case less
  show ?case
  proof (cases "wi_ends w \<le> clk n")
    case True
    moreover have "wi_ends w < T" using assms(1) [of n] True by simp
    moreover have "wi_ends w < wi_ends (window_roll w)" "wi_secs (window_roll w) > 0"
      using less.prems by (simp_all add: window_roll_def NANOS_PER_SEC_def)
    ultimately show ?thesis
      using less.hyps [of "window_roll w"] by (subst close_loop.simps) simp
  next
    case False
    then show ?thesis by (subst close_loop.simps) simp
  qed
qed

text \<open>What holds of a recorder at any time: its printed windows and the open one add up to its totals.\<close>

definition recorder_accounts :: "recorder \<Rightarrow> bool" where
  "recorder_accounts r \<longleftrightarrow>
     (case re_window r of
        None \<Rightarrow> re_printed r = []
      | Some w \<Rightarrow> window_accounts w (re_printed r) (re_received r) (re_gaps r) (re_hist r))"

lemma recorder_accounts_new: "recorder_accounts (recorder_new vars now)"
  by (simp add: recorder_accounts_def recorder_new_def window_accounts_def window_new_def split: option.split)

lemma count_sample_accounts: "recorder_accounts r \<Longrightarrow> recorder_accounts (count_sample now seq latency r)"
  by (auto simp: recorder_accounts_def count_sample_def window_accounts_def Let_def split: option.splits)

lemma close_elapsed_accounts:
  "close_elapsed_windows clk r = Some r' \<Longrightarrow> recorder_accounts r \<Longrightarrow> recorder_accounts r'"
  by (auto simp: close_elapsed_windows_def recorder_accounts_def dest: close_loop_accounts split: option.splits)

lemma record_measured_accounts:
  assumes "record_measured now clk seq latency r = Some r'" and "recorder_accounts r"
  shows "recorder_accounts r'"
proof (cases "re_discarded r < re_warmup r")
  case True
  then show ?thesis using assms by (auto simp: record_measured_def recorder_accounts_def split: option.splits)
next
  case False
  then show ?thesis
    using assms close_elapsed_accounts [OF _ count_sample_accounts] by (simp add: record_measured_def)
qed

lemma record_measured_returns:
  assumes "\<And>n. clk n < T" and "recorder_accounts r"
  shows "\<exists>r'. record_measured now clk seq latency r = Some r'"
proof -
  have "recorder_accounts (count_sample now seq latency r)" by (rule count_sample_accounts [OF assms(2)])
  then have "wi_secs w > 0" if "re_window (count_sample now seq latency r) = Some w" for w
    using that by (simp add: recorder_accounts_def window_accounts_def)
  then show ?thesis
    using close_loop_returns [OF assms(1)] by (fastforce simp: record_measured_def close_elapsed_windows_def split: option.split)
qed

section \<open>What the counted losses are\<close>

text \<open>The fields closing a window leaves alone.\<close>

definition same_counts :: "recorder \<Rightarrow> recorder \<Rightarrow> bool" where
  "same_counts r r' \<longleftrightarrow> re_hist r' = re_hist r \<and> re_warmup r' = re_warmup r \<and> re_discarded r' = re_discarded r
     \<and> re_received r' = re_received r \<and> re_highest_seq r' = re_highest_seq r \<and> re_gaps r' = re_gaps r
     \<and> re_reordered r' = re_reordered r"

lemma close_elapsed_counts: "close_elapsed_windows clk r = Some r' \<Longrightarrow> same_counts r r'"
  by (auto simp: close_elapsed_windows_def same_counts_def split: option.splits)

text \<open>The samples that come after a higher one, and the recorder's running maximum.\<close>

fun late_in :: "u64 \<Rightarrow> u64 list \<Rightarrow> nat" where
  "late_in h [] = 0"
| "late_in h (s # ss) = (if s \<le> h then 1 else 0) + late_in (max h s) ss"

lemma count_sample_step:
  assumes "re_highest_seq r = Some h" and "h \<noteq> - 1"
  shows "re_highest_seq (count_sample now s l r) = Some (max h s)"
    "re_received (count_sample now s l r) = re_received r + 1" "re_hist (count_sample now s l r) = re_hist r @ [l]"
    "re_reordered (count_sample now s l r) = re_reordered r + (if s \<le> h then 1 else 0)"
    "re_gaps (count_sample now s l r) + unat h + 1 = re_gaps r + unat (max h s) + (if s \<le> h then 1 else 0)"
    "re_warmup (count_sample now s l r) = re_warmup r" "re_discarded (count_sample now s l r) = re_discarded r"
proof -
  have h1: "unat (h + 1) = unat h + 1" using assms(2) unatSuc [of h] by (simp add: add.commute add_eq_0_iff)
  have lost: "lost_before (Some h) s + unat h + 1 = unat (max h s) + (if s \<le> h then 1 else 0)"
  proof (cases "h + 1 < s")
    case True
    then have "h < s" using h1 by (simp add: word_less_nat_alt)
    moreover have "unat (s - h - 1) = unat s - unat h - 1"
      using True h1 by (simp add: unat_sub word_less_nat_alt word_le_nat_alt diff_diff_eq)
    ultimately show ?thesis using True h1 by (simp add: lost_before_def word_less_nat_alt max_def not_le)
  next
    case False
    then show ?thesis using h1 by (auto simp: lost_before_def word_less_nat_alt word_le_nat_alt max_def)
  qed
  have late: "late_arrival (Some h) s \<longleftrightarrow> s \<le> h"
    using h1 by (auto simp: late_arrival_def word_less_nat_alt word_le_nat_alt)
  show "re_gaps (count_sample now s l r) + unat h + 1 = re_gaps r + unat (max h s) + (if s \<le> h then 1 else 0)"
    using lost assms(1) by (simp add: count_sample_def Let_def)
  show "re_highest_seq (count_sample now s l r) = Some (max h s)"
    "re_received (count_sample now s l r) = re_received r + 1" "re_hist (count_sample now s l r) = re_hist r @ [l]"
    "re_reordered (count_sample now s l r) = re_reordered r + (if s \<le> h then 1 else 0)"
    "re_warmup (count_sample now s l r) = re_warmup r" "re_discarded (count_sample now s l r) = re_discarded r"
    using assms(1) late by (auto simp: count_sample_def Let_def max_def not_le)
qed

text \<open>Any run after the warmup returns, and its samples and counted losses make up the span of numbers it saw and
  the late ones again.\<close>

lemma record_each_counts:
  assumes "\<And>k n. clk k n < T" and "recorder_accounts r" and "re_discarded r \<ge> re_warmup r" and "re_highest_seq r = Some h"
    and "h \<noteq> - 1" and "\<forall>s \<in> fst ` set samples. s \<noteq> - 1"
  shows "\<exists>r'. record_each now clk k samples r = Some r' \<and> recorder_accounts r'
    \<and> re_received r' = re_received r + length samples \<and> re_hist r' = re_hist r @ map snd samples
    \<and> re_reordered r' = re_reordered r + late_in h (map fst samples)
    \<and> re_gaps r' + unat h + length samples = re_gaps r + unat (fold max (map fst samples) h) + late_in h (map fst samples)"
  using assms(2-)
proof (induction samples arbitrary: k r h)
  case (Cons x samples)
  obtain s l where x: "x = (s, l)" by fastforce
  obtain r1 where r1: "record_measured (now k) (clk k) s l r = Some r1"
    using record_measured_returns [where clk = "clk k", OF assms(1) Cons.prems(1)] by blast
  then have same: "same_counts (count_sample (now k) s l r) r1"
    using Cons.prems(2) by (intro close_elapsed_counts [of "clk k"]) (simp add: record_measured_def)
  note step = count_sample_step [OF Cons.prems(3,4), of "now k" s l]
  then have r1': "re_received r1 = re_received r + 1" "re_hist r1 = re_hist r @ [l]" "re_highest_seq r1 = Some (max h s)"
    "re_reordered r1 = re_reordered r + (if s \<le> h then 1 else 0)" "re_discarded r1 \<ge> re_warmup r1"
    "re_gaps r1 + unat h + 1 = re_gaps r + unat (max h s) + (if s \<le> h then 1 else 0)"
    using same step Cons.prems(2) unfolding same_counts_def by (simp_all only: )
  have others: "max h s \<noteq> - 1" "\<forall>s \<in> fst ` set samples. s \<noteq> - 1" using Cons.prems(4,5) x by (auto simp: max_def)
  from Cons.IH [OF record_measured_accounts [OF r1 Cons.prems(1)] r1'(5,3) others, of "k + 1"]
  obtain r' where r': "record_each now clk (k + 1) samples r1 = Some r'" "recorder_accounts r'"
    "re_received r' = re_received r1 + length samples" "re_hist r' = re_hist r1 @ map snd samples"
    "re_reordered r' = re_reordered r1 + late_in (max h s) (map fst samples)"
    "re_gaps r' + unat (max h s) + length samples
      = re_gaps r1 + unat (fold max (map fst samples) (max h s)) + late_in (max h s) (map fst samples)" by blast
  have "record_each now clk k (x # samples) r = Some r'" using x r1 r'(1) by simp
  moreover have "re_gaps r' + unat h + length (x # samples)
      = re_gaps r + unat (fold max (map fst (x # samples)) h) + late_in h (map fst (x # samples))"
    using r'(6) r1'(6) x by (simp add: max.commute)
  ultimately show ?case using r'(2-5) r1' x by (intro exI [of _ r']) simp
qed simp

lemma record_each_append:
  "record_each now clk k (xs @ ys) r = Option.bind (record_each now clk k xs r) (record_each now clk (k + length xs) ys)"
proof (induction xs arbitrary: k r)
  case (Cons x xs)
  then show ?case by (cases x; cases "record_measured (now k) (clk k) (fst x) (snd x) r") simp_all
qed simp

lemma record_each_warmup:
  assumes "re_discarded r + length warm \<le> re_warmup r" and "warm \<noteq> []"
  shows "record_each now clk k warm r
    = Some (r\<lparr> re_discarded := re_discarded r + length warm, re_highest_seq := Some (fst (last warm)) \<rparr>)"
  using assms
proof (induction warm arbitrary: k r)
  case (Cons x warm)
  then show ?case by (cases x; cases "warm = []") (simp_all add: record_measured_def)
qed simp

lemma fold_max_u64: "unat (fold max ss h) = Max (insert (unat h) (unat ` set ss))" for h :: u64
proof (induction ss arbitrary: h)
  case (Cons s ss)
  have "unat (max s h) = max (unat s) (unat h)" by (simp add: max_def word_le_nat_alt)
  moreover have "Max (insert (max a b) A) = Max (insert b (insert a A))" if "finite A" for a b :: nat and A
    using that by (cases "A = {}") (simp_all add: max.assoc max.left_commute max.commute)
  ultimately show ?case by (simp add: Cons)
qed simp

text \<open>C38. What the recorder's numbers mean.  A run of samples past the warmup, each number once and above the warmup's
  last, is recorded to the end whatever the clock, as long as it is bounded: every sample is counted once with
  its latency, the reported losses are the numbers missing up to the highest one seen plus the samples
  overtaken by a later number, which are counted as reordered too, and the printed windows with the open
  one add up to the totals.\<close>

theorem losses_accounted:
  assumes "\<And>k n. clk k n < T" and "r = recorder_with_warmup vars start (length warm)" and "warm \<noteq> []" and "h = fst (last warm)"
    and "distinct (map fst samples)" and "\<forall>s \<in> fst ` set samples. h < s \<and> s \<noteq> - 1" and "samples \<noteq> []"
  shows "\<exists>r'. record_each now clk 0 (warm @ samples) r = Some r' \<and> re_received r' = length samples \<and> re_hist r' = map snd samples
    \<and> re_reordered r' = late_in h (map fst samples)
    \<and> re_gaps r' = card ({unat h <.. Max (unat ` fst ` set samples)} - unat ` fst ` set samples) + re_reordered r'
    \<and> recorder_accounts r'"
proof -
  let ?r = "r\<lparr> re_discarded := length warm, re_highest_seq := Some h \<rparr>" and ?S = "unat ` fst ` set samples"
  have acc: "recorder_accounts ?r"
    using recorder_accounts_new [of vars start] by (auto simp: assms(2) recorder_with_warmup_def recorder_accounts_def recorder_new_def split: option.splits)
  have r: "re_discarded r = 0" "re_warmup r = length warm" "re_received r = 0" "re_hist r = []" "re_gaps r = 0" "re_reordered r = 0"
    by (simp_all add: assms(2) recorder_with_warmup_def recorder_new_def)
  obtain s where "s \<in> fst ` set samples" using assms(7) by (cases samples) auto
  with assms(6) have h: "h \<noteq> - 1" by (metis word_order.not_eq_extremum word_order.extremum_strict)
  have warm: "record_each now clk 0 warm r = Some ?r" using record_each_warmup [of r warm now clk 0] r assms(3,4) by simp
  obtain r' where r': "record_each now clk (length warm) samples ?r = Some r'" "recorder_accounts r'" "re_received r' = length samples"
    "re_hist r' = map snd samples" "re_reordered r' = late_in h (map fst samples)"
    "re_gaps r' + unat h + length samples = unat (fold max (map fst samples) h) + late_in h (map fst samples)"
    using record_each_counts [of clk T ?r h samples now "length warm"] assms(1,6) acc h r by auto
  have run: "record_each now clk 0 (warm @ samples) r = Some r'" using warm r'(1) by (simp add: record_each_append)
  have fin: "finite ?S" "?S \<noteq> {}" using assms(7) by simp_all
  have "unat h < x \<and> x \<le> Max ?S" if "x \<in> ?S" for x
    using that assms(6) Max_ge [OF fin(1) that] by (auto simp: word_less_nat_alt)
  then have sub: "?S \<subseteq> {unat h <.. Max ?S}" unfolding subset_iff greaterThanAtMost_iff by blast
  have "card ?S = card (fst ` set samples)" by (rule card_image) (rule inj_onI, rule unsigned_word_eqI)
  then have "card ?S = length samples" using distinct_card [OF assms(5)] by simp
  then have "card ({unat h <.. Max ?S} - ?S) = Max ?S - unat h - length samples"
    using card_Diff_subset [OF fin(1) sub] by simp
  moreover have "unat h + length samples \<le> Max ?S"
    using card_mono [OF _ sub] \<open>card ?S = length samples\<close> subsetD [OF sub Max_in [OF fin]] by simp
  moreover have "unat (fold max (map fst samples) h) = Max ?S"
    using fold_max_u64 [of "map fst samples" h] fin subsetD [OF sub Max_in [OF fin]] by simp
  ultimately show ?thesis using run r' by (intro exI [of _ r']) simp
qed

theorem losses_accounted_witness:
  "\<exists>r'. record_each (\<lambda>_. 0) (\<lambda>_ _. 0) 0 ([(7, 1), (8, 1)] @ [(11, 2), (9, 5), (12, 1)])
       (recorder_with_warmup (\<lambda>_. None) 0 (length [(7 :: u64, 1 :: u64), (8, 1)])) = Some r'
     \<and> re_received r' = 3 \<and> re_reordered r' = 1 \<and> re_gaps r' = 2"
proof -
  let ?ss = "[(11, 2), (9, 5), (12, 1)] :: (u64 \<times> u64) list"
  have d: "distinct (map fst ?ss)" "\<forall>s \<in> fst ` set ?ss. 8 < s \<and> s \<noteq> - 1" "(8 :: u64) = fst (last [(7, 1), (8, 1 :: u64)])" by simp_all
  have late: "late_in 8 (map fst ?ss) = 1" by (simp add: max_def)
  have "{unat (8 :: u64) <.. Max (unat ` fst ` set ?ss)} - unat ` fst ` set ?ss = {10}" by auto
  with losses_accounted [OF _ refl _ d(3,1,2), of "\<lambda>_ _. 0" 1 "\<lambda>_. 0" "\<lambda>_. None" 0] late
  show ?thesis by fastforce
qed

text \<open>A warmup that ends on an overtaken sample sets the highest number back, and the samples between are counted as
  lost though they arrived.\<close>

lemma warmup_goes_back:
  "map_option re_gaps (record_each (\<lambda>_. 0) (\<lambda>_ _. 0) 0 [(0, 1), (2, 1), (1, 1), (3, 1)] (recorder_with_warmup (\<lambda>_. None) 0 3)) = Some 1"
  by (simp add: record_measured_def recorder_with_warmup_def recorder_new_def env_u64_def close_elapsed_windows_def count_sample_def
      lost_before_def late_arrival_def Let_def)

section \<open>Rows from samples\<close>

lemma record_each_received:
  assumes "\<And>k n. clk k n < T" and "recorder_accounts r"
  shows "\<exists>r'. record_each now clk k samples r = Some r'
    \<and> re_received r' = re_received r + length (drop (re_warmup r - re_discarded r) samples)
    \<and> re_hist r' = re_hist r @ map snd (drop (re_warmup r - re_discarded r) samples)"
  using assms(2)
proof (induction samples arbitrary: k r)
  case (Cons x samples)
  obtain s l where x: "x = (s, l)" by fastforce
  obtain r1 where r1: "record_measured (now k) (clk k) s l r = Some r1"
    using record_measured_returns [where clk = "clk k", OF assms(1) Cons.prems] by blast
  have step: "re_received r1 = re_received r + (if re_discarded r < re_warmup r then 0 else 1)"
    "re_hist r1 = re_hist r @ (if re_discarded r < re_warmup r then [] else [l])"
    "re_warmup r1 - re_discarded r1 = re_warmup r - re_discarded r - 1"
    using r1 close_elapsed_counts [of "clk k" "count_sample (now k) s l r" r1]
    by (auto simp: record_measured_def same_counts_def count_sample_def Let_def split: if_splits)
  from Cons.IH [OF record_measured_accounts [OF r1 Cons.prems], of "k + 1"] show ?case
    using x r1 step by (cases "re_warmup r - re_discarded r") (auto split: if_splits)
qed simp

text \<open>Samples that were all received after they were due are counted as they are, past the warmup.\<close>

lemma row_from_samples_counts:
  assumes "\<And>k n. clk k n < T" and "samples_of doc = samples" "samples \<noteq> []" and "\<forall>(seq, due, got) \<in> set samples. due \<le> got"
  shows "\<exists>res. row_from_samples vars start now clk (Some doc) i payload (Some w) = Some res
    \<and> (if length samples \<le> w then res = Err NoSamplesRecorded
       else \<exists>row. res = Ok row \<and> br_received row = length samples - w \<and> br_hist row = map (\<lambda>(seq, due, got). got - due) (drop w samples))"
proof -
  let ?r = "recorder_with_warmup vars start w" and ?xs = "map (\<lambda>(seq, due, received). (seq, received - due)) samples"
  have fine: "find (\<lambda>(_, due, got). got < due) samples = None" using assms(4) by (fastforce simp: find_None_iff not_less)
  have "recorder_accounts ?r"
    using recorder_accounts_new [of vars start] by (auto simp: recorder_with_warmup_def recorder_accounts_def split: option.splits)
  from record_each_received [where clk = clk, OF assms(1) this, where now = now and k = 0 and samples = ?xs]
  obtain r' where r': "record_each now clk 0 ?xs ?r = Some r'" "re_received r' = length samples - w"
    "re_hist r' = map (\<lambda>(seq, due, got). got - due) (drop w samples)"
    by (auto simp: recorder_with_warmup_def recorder_new_def drop_map comp_def split_def)
  have rate: "re_received (samples_rate w samples r') = re_received r'" "re_hist (samples_rate w samples r') = re_hist r'"
    by (simp_all add: samples_rate_def override_achieved_hz_def)
  have w: "re_warmup ?r = w" by (simp add: recorder_with_warmup_def)
  show ?thesis
    unfolding row_from_samples_def using assms(2,3) fine r' rate w
    by (cases "length samples \<le> w") (auto simp: recorder_row_def recorder_is_empty_def)
qed

text \<open>Every other file is refused, with the reason.\<close>

lemma row_from_samples_refused:
  "row_from_samples vars start now clk None i payload warmup = Some (Err Unreadable)"
  "samples_of doc = [] \<Longrightarrow> row_from_samples vars start now clk (Some doc) i payload warmup = Some (Err NoSampleLines)"
  "find (\<lambda>(_, due, got). got < due) (samples_of doc) = Some (seq, due, got) \<Longrightarrow>
     row_from_samples vars start now clk (Some doc) i payload warmup = Some (Err (ClocksDisagree seq (due - got)))"
  by (cases "samples_of doc"; simp add: row_from_samples_def)+

section \<open>Pacing\<close>

text \<open>The wait ends at the first reading of the clock that is not before the deadline.\<close>

lemma wait_loop_ends:
  assumes "due \<le> clk (n + k)" and "\<forall>j < k. clk (n + j) < due"
  shows "\<exists>more. wait_loop clk due n pauses = Some (n + k + 1, pauses @ more) \<and> length more = k"
  using assms
proof (induction k arbitrary: n pauses)
  case 0
  then show ?case by (subst wait_loop.simps) simp
next
  case (Suc k)
  let ?p = "if due - clk n > 1000000 then Sleep (due - clk n - 1000000) else Spin"
  have "clk n < due" using Suc.prems(2) by force
  moreover have "due \<le> clk (n + 1 + k)" "\<forall>j < k. clk (n + 1 + j) < due" using Suc.prems by force+
  from Suc.IH [OF this, of "pauses @ [?p]"] obtain more where
    "wait_loop clk due (n + 1) (pauses @ [?p]) = Some (n + 1 + k + 1, (pauses @ [?p]) @ more)" "length more = k" by blast
  ultimately show ?case by (subst wait_loop.simps) (simp add: Let_def)
qed

text \<open>Deadlines do not drift: whenever its waits return, the k-th deadline is k whole intervals after the start.\<close>

fun pacer_waits :: "((nat \<Rightarrow> nat) \<times> (nat \<Rightarrow> nat)) list \<Rightarrow> pacer \<Rightarrow> pacer option" where
  "pacer_waits [] p = Some p"
| "pacer_waits ((clk, wall) # rest) p = Option.bind (pacer_wait clk wall p) (\<lambda>(_, p). pacer_waits rest p)"

lemma pacer_no_drift:
  assumes "pacer_waits readings (pacer_new start rate) = Some p"
  shows "pa_next p = start + length readings * (NANOS_PER_SEC div max (unat rate) 1)"
proof -
  have "pa_next q = pa_next p0 + length readings * pa_interval p0 \<and> pa_interval q = pa_interval p0" if "pacer_waits readings p0 = Some q" for p0 q
    using that
  proof (induction readings arbitrary: p0)
    case (Cons x readings)
    then show ?case by (cases x) (fastforce simp: pacer_wait_def Let_def bind_eq_Some_conv)
  qed simp
  from this [OF assms] show ?thesis by (simp add: pacer_new_def)
qed

text \<open>A publisher's statistics: the worst of each is among the sends, and a slot is missed by a send more than an interval late.\<close>

lemma send_stats_exact:
  fixes sends :: "(nat \<times> nat \<times> nat) list" and interval :: nat
  defines "st \<equiv> fold (\<lambda>(due, entered, blocked). record_send due entered blocked) sends (send_stats_new interval)"
  shows "ss_late_sends st = length (filter (\<lambda>(due, entered, _). entered > due + interval) sends)"
    "ss_blocked_total st = sum_list (map (\<lambda>(_, _, blocked). blocked) sends)"
    "ss_blocked_max st = fold max (map (\<lambda>(_, _, blocked). blocked) sends) 0"
    "ss_late_max st = fold max (map (\<lambda>(due, entered, _). entered - due) sends) 0"
proof -
  have "ss_interval_nanos (fold (\<lambda>(due, entered, blocked). record_send due entered blocked) xs s) = ss_interval_nanos s
    \<and> ss_late_sends (fold (\<lambda>(due, entered, blocked). record_send due entered blocked) xs s)
      = ss_late_sends s + length (filter (\<lambda>(due, entered, _). entered > due + ss_interval_nanos s) xs)
    \<and> ss_blocked_total (fold (\<lambda>(due, entered, blocked). record_send due entered blocked) xs s)
      = ss_blocked_total s + sum_list (map (\<lambda>(_, _, blocked). blocked) xs)
    \<and> ss_blocked_max (fold (\<lambda>(due, entered, blocked). record_send due entered blocked) xs s)
      = fold max (map (\<lambda>(_, _, blocked). blocked) xs) (ss_blocked_max s)
    \<and> ss_late_max (fold (\<lambda>(due, entered, blocked). record_send due entered blocked) xs s)
      = fold max (map (\<lambda>(due, entered, _). entered - due) xs) (ss_late_max s)"
    for xs and s :: send_stats
    by (induction xs arbitrary: s) (auto simp: record_send_def Let_def max.commute)
  from this [of sends "send_stats_new interval"]
  show "ss_late_sends st = length (filter (\<lambda>(due, entered, _). entered > due + interval) sends)"
    "ss_blocked_total st = sum_list (map (\<lambda>(_, _, blocked). blocked) sends)"
    "ss_blocked_max st = fold max (map (\<lambda>(_, _, blocked). blocked) sends) 0"
    "ss_late_max st = fold max (map (\<lambda>(due, entered, _). entered - due) sends) 0"
    by (simp_all add: st_def send_stats_new_def)
qed

section \<open>Several subscribers of one value\<close>

definition arrivals_of :: "u64 \<Rightarrow> (u64 \<times> u64) list \<Rightarrow> u64 list" where
  "arrivals_of q xs = map snd (filter (\<lambda>(s, _). s = q) xs)"

lemma arrivals_of_simps [simp]:
  "arrivals_of q [] = []" "arrivals_of q (xs @ [(s, l)]) = arrivals_of q xs @ (if s = q then [l] else [])"
  by (simp_all add: arrivals_of_def)

definition stale_at :: "u64 \<Rightarrow> u64" where
  "stale_at q = (if q < STRAGGLER_WINDOW then 0 else q - STRAGGLER_WINDOW)"

text \<open>No value still missing from a subscriber falls out of the window while the others move on.\<close>

definition keeps_up :: "nat \<Rightarrow> (u64 \<times> u64) list \<Rightarrow> bool" where
  "keeps_up n xs \<longleftrightarrow> (\<forall>k < length xs. \<forall>q. arrivals_of q (take (Suc k) xs) \<noteq> [] \<and> length (arrivals_of q (take (Suc k) xs)) < n \<longrightarrow>
     stale_at (fst (xs ! k)) \<le> q)"

lemma map_of_filter_keys: "map_of (filter (\<lambda>(k, _). P k) m) k = (if P k then map_of m k else None)"
  by (induction m) auto

lemma keeps_up_snoc:
  assumes "keeps_up n (xs @ [x])"
  shows "keeps_up n xs" "arrivals_of q (xs @ [x]) \<noteq> [] \<Longrightarrow> length (arrivals_of q (xs @ [x])) < n \<Longrightarrow> stale_at (fst x) \<le> q"
proof -
  show "keeps_up n xs"
    unfolding keeps_up_def
  proof (intro allI impI)
    fix k q assume "k < length xs" "arrivals_of q (take (Suc k) xs) \<noteq> [] \<and> length (arrivals_of q (take (Suc k) xs)) < n"
    then show "stale_at (fst (xs ! k)) \<le> q"
      using assms [unfolded keeps_up_def, rule_format, of k q] by (simp add: nth_append)
  qed
  show "stale_at (fst x) \<le> q" if "arrivals_of q (xs @ [x]) \<noteq> []" "length (arrivals_of q (xs @ [x])) < n"
    using assms [unfolded keeps_up_def, rule_format, of "length xs" q] that by simp
qed

text \<open>What the probe holds after each arrival: of every value not yet complete how many have it and the slowest so far, and of
  every complete value one record.\<close>

definition slowest_of :: "u64 \<Rightarrow> (u64 \<times> u64) list \<Rightarrow> u64" where
  "slowest_of q xs = fold max (arrivals_of q xs) 0"

definition stragglers_ok :: "nat \<Rightarrow> (u64 \<times> u64) list \<Rightarrow> (u64, nat \<times> u64) om \<times> (u64 \<times> u64) list \<Rightarrow> bool" where
  "stragglers_ok n xs st \<longleftrightarrow>
     (\<forall>q. om_get (fst st) q = (if arrivals_of q xs \<noteq> [] \<and> length (arrivals_of q xs) < n
            then Some (length (arrivals_of q xs), slowest_of q xs) else None))
     \<and> distinct (map fst (snd st)) \<and> set (snd st) = {(q, slowest_of q xs) | q. length (arrivals_of q xs) = n}"

lemma slowest_of_snoc: "slowest_of q (xs @ [(s, l)]) = (if s = q then max (slowest_of q xs) l else slowest_of q xs)"
  by (simp add: slowest_of_def max.commute)

lemma straggler_step_ok:
  assumes ok: "stragglers_ok n xs (waiting, recorded)" and room: "length (arrivals_of s xs) < n"
    and up: "\<And>q. arrivals_of q (xs @ [(s, l)]) \<noteq> [] \<Longrightarrow> length (arrivals_of q (xs @ [(s, l)])) < n \<Longrightarrow> stale_at s \<le> q"
  shows "stragglers_ok n (xs @ [(s, l)]) (straggler_step n (s, l) (waiting, recorded))"
proof -
  let ?k = "length (arrivals_of s xs)" and ?m = "max (slowest_of s xs) l"
  have "(case om_get waiting s of Some e \<Rightarrow> e | None \<Rightarrow> (0, 0)) = (?k, slowest_of s xs)"
    using ok room by (auto simp: stragglers_ok_def slowest_of_def)
  then have step: "straggler_step n (s, l) (waiting, recorded) =
      (if ?k + 1 = n then (filter (\<lambda>(q, _). stale_at s \<le> q) (om_remove (om_insert waiting s (?k + 1, ?m)) s), recorded @ [(s, ?m)])
       else (filter (\<lambda>(q, _). stale_at s \<le> q) (om_insert waiting s (?k + 1, ?m)), recorded))"
    using room by (simp add: straggler_step_def stale_at_def Let_def)
  have new: "s \<notin> fst ` set recorded" using ok room by (force simp: stragglers_ok_def)
  have waiting: "om_get (fst (straggler_step n (s, l) (waiting, recorded))) q
      = (if arrivals_of q (xs @ [(s, l)]) \<noteq> [] \<and> length (arrivals_of q (xs @ [(s, l)])) < n
         then Some (length (arrivals_of q (xs @ [(s, l)])), slowest_of q (xs @ [(s, l)])) else None)" for q
    using ok room up [of q] by (auto simp: step stragglers_ok_def map_of_filter_keys slowest_of_snoc)
  have count: "length (arrivals_of q (xs @ [(s, l)])) = n \<longleftrightarrow> (if q = s then ?k + 1 = n else length (arrivals_of q xs) = n)" for q
    by simp
  have "{(q, slowest_of q (xs @ [(s, l)])) | q. length (arrivals_of q (xs @ [(s, l)])) = n}
      = {(q, slowest_of q xs) | q. length (arrivals_of q xs) = n} \<union> (if ?k + 1 = n then {(s, ?m)} else {})"
    unfolding count slowest_of_snoc using room by (auto split: if_splits)
  moreover have "set (snd (straggler_step n (s, l) (waiting, recorded))) = set recorded \<union> (if ?k + 1 = n then {(s, ?m)} else {})"
    by (auto simp: step)
  moreover have "distinct (map fst (snd (straggler_step n (s, l) (waiting, recorded))))"
    using ok new by (simp add: step stragglers_ok_def)
  ultimately show ?thesis using waiting ok unfolding stragglers_ok_def snd_conv by simp
qed

lemma straggler_invariant:
  assumes "n > 0" and "keeps_up n xs" and "\<And>q. length (arrivals_of q xs) \<le> n"
  shows "stragglers_ok n xs (fold (straggler_step n) xs ([], []))"
  using assms(2,3)
proof (induction xs rule: rev_induct)
  case Nil
  then show ?case using assms(1) by (auto simp: stragglers_ok_def)
next
  case (snoc x xs)
  obtain s l where x: "x = (s, l)" by fastforce
  have "length (arrivals_of q xs) \<le> n" for q using snoc.prems(2) [of q] x by (simp split: if_splits)
  then have ih: "stragglers_ok n xs (fold (straggler_step n) xs ([], []))"
    using snoc.IH keeps_up_snoc(1) [OF snoc.prems(1)] by blast
  moreover have "length (arrivals_of s xs) < n" using snoc.prems(2) [of s] x by simp
  ultimately show ?case
    using straggler_step_ok [of n xs "fst (fold (straggler_step n) xs ([], []))" "snd (fold (straggler_step n) xs ([], []))" s l]
      keeps_up_snoc(2) [OF snoc.prems(1)] x by simp
qed

text \<open>A value that reaches every subscriber in time counts once, at the slowest, and nothing is left waiting.\<close>

lemma straggler_run_once:
  assumes "keeps_up (max subscribers 1) arrivals" and "\<forall>q \<in> fst ` set arrivals. length (arrivals_of q arrivals) = max subscribers 1"
    and "straggler_run subscribers arrivals = (waiting, recorded)"
  shows "waiting = []" "distinct (map fst recorded)" "set recorded = (\<lambda>q. (q, slowest_of q arrivals)) ` fst ` set arrivals"
proof -
  let ?n = "max subscribers 1"
  have none: "arrivals_of q arrivals = [] \<longleftrightarrow> q \<notin> fst ` set arrivals" for q by (force simp: arrivals_of_def filter_empty_conv)
  have all: "length (arrivals_of q arrivals) = (if q \<in> fst ` set arrivals then ?n else 0)" for q
    using assms(2) none by auto
  then have "stragglers_ok ?n arrivals (waiting, recorded)"
    using straggler_invariant [OF _ assms(1)] assms(3) by (auto simp: straggler_run_def)
  note ok = this [unfolded stragglers_ok_def fst_conv snd_conv]
  have "om_get waiting q = None" for q using ok all [of q] none [of q] by auto
  then have "q \<notin> fst ` set waiting" for q by (simp add: map_of_eq_None_iff)
  then show "waiting = []" by (cases waiting) auto
  show "distinct (map fst recorded)" using ok by blast
  show "set recorded = (\<lambda>q. (q, slowest_of q arrivals)) ` fst ` set arrivals"
    using ok all by (auto split: if_splits)
qed

end
