(* ===== verification/Bench_Report.thy ===== *)
theory Bench_Report
  imports Bench_Harness Nt_Registry
begin

text \<open>
  The parts of a benchmark report that are not arithmetic on floating-point numbers (\<^verbatim>\<open>bench/src/report.rs\<close>,
  \<^verbatim>\<open>bench/src/catalog.rs\<close>): the date of a run, the catalog of cases, the keys of side lines, the order of the tables.  The date
  is checked against the calendar: day after day it is the next day.
\<close>

section \<open>The date of a run\<close>

text \<open>The quotients are Rust's on non-negative operands, the first two its Euclidean ones.\<close>

definition civil_from_days :: "int \<Rightarrow> int \<times> int \<times> int" where
  "civil_from_days days =
     (let z = days + 719468;
          era = z div 146097;
          doe = z mod 146097;
          yoe = (doe - doe div 1460 + doe div 36524 - doe div 146096) div 365;
          doy = doe - (365 * yoe + yoe div 4 - yoe div 100);
          mp = (5 * doy + 2) div 153;
          day = doy - (153 * mp + 2) div 5 + 1;
          month = (if mp < 10 then mp + 3 else mp - 9);
          year = yoe + era * 400 + (if month \<le> 2 then 1 else 0)
      in (year, month, day))"

definition zero_padded :: "nat \<Rightarrow> int \<Rightarrow> string" where
  "zero_padded width i =
     (let ds = show_nat (nat \<bar>i\<bar>); sign = (if i < 0 then ''-'' else [])
      in sign @ replicate (width - length sign - length ds) (CHR ''0'') @ ds)"

definition date_from_unix_days :: "int \<Rightarrow> string" where
  "date_from_unix_days days =
     (let (year, month, day) = civil_from_days days
      in zero_padded 4 year @ ''-'' @ zero_padded 2 month @ ''-'' @ zero_padded 2 day)"

text \<open>The clock in seconds; one before the epoch counts as the epoch.\<close>

definition today_utc :: "nat option \<Rightarrow> string" where
  "today_utc secs = date_from_unix_days (int ((case secs of Some s \<Rightarrow> s | None \<Rightarrow> 0) div 86400))"

text \<open>The calendar.\<close>

definition leap :: "int \<Rightarrow> bool" where
  "leap y \<longleftrightarrow> 4 dvd y \<and> (\<not> 100 dvd y \<or> 400 dvd y)"

definition days_in_month :: "int \<Rightarrow> int \<Rightarrow> int" where
  "days_in_month y m = (if m = 2 then if leap y then 29 else 28 else if m \<in> {4, 6, 9, 11} then 30 else 31)"

definition next_day :: "int \<times> int \<times> int \<Rightarrow> int \<times> int \<times> int" where
  "next_day date =
     (case date of (y, m, d) \<Rightarrow>
        if d < days_in_month y m then (y, m, d + 1) else if m < 12 then (y, m + 1, 1) else (y + 1, 1, 1))"

section \<open>The calendar in eras of four hundred years\<close>

definition year_start :: "int \<Rightarrow> int" where
  "year_start y = 365 * y + y div 4 - y div 100"

definition year_end :: "int \<Rightarrow> int" where
  "year_end y = (if y = 399 then 146097 else year_start (y + 1))"

definition year_key :: "int \<Rightarrow> int" where
  "year_key doe = doe - doe div 1460 + doe div 36524 - doe div 146096"

definition month_day :: "int \<Rightarrow> int \<times> int" where
  "month_day doy =
     (let mp = (5 * doy + 2) div 153 in (if mp < 10 then mp + 3 else mp - 9, doy - (153 * mp + 2) div 5 + 1))"

lemma year_table:
  "\<forall>y \<in> set [0..399]. 365 * y \<le> year_key (year_start y) \<and> year_key (year_end y - 1) < 365 * (y + 1)
     \<and> year_end y - year_start y = (if leap (y + 1) then 366 else 365) \<and> 0 \<le> year_start y \<and> year_end y \<le> 146097"
  by code_simp

lemma month_table:
  "\<forall>doy \<in> set [0..364]. case month_day doy of (m, d) \<Rightarrow> (m = 2 \<longrightarrow> d = doy - 336) \<and> 1 \<le> m \<and> m \<le> 12 \<and>
     month_day (doy + 1) = (if d < (if m = 2 then 29 else days_in_month 1 m) then (m, d + 1) else (if m = 12 then 1 else m + 1, 1))"
  by code_simp

lemma year_key_step:
  assumes "0 \<le> b" and "b < 146096"
  shows "year_key b \<le> year_key (b + 1)"
proof (cases "b = 146095")
  case True
  show ?thesis unfolding True year_key_def by code_simp
next
  case False
  have "b div 146096 = 0" "(b + 1) div 146096 = 0"
    using assms False by (intro div_pos_pos_trivial; linarith)+
  moreover have "(b + 1) div 1460 \<le> (b + 1460) div 1460" "b div 36524 \<le> (b + 1) div 36524"
    by (rule zdiv_mono1; linarith)+
  moreover have "(b + 1460) div 1460 = b div 1460 + 1" by (rule div_add_self2) linarith
  ultimately show ?thesis unfolding year_key_def by linarith
qed

lemma year_key_mono:
  assumes "0 \<le> a" and "a \<le> b" and "b < 146097"
  shows "year_key a \<le> year_key b"
  using assms(2,3)
proof (induction b rule: int_ge_induct)
  case (step b)
  then show ?case using year_key_step [of b] assms(1) by simp
qed simp

text \<open>A day of an era is in one year, and the code's quotient finds it.\<close>

lemma year_quotient:
  assumes "y \<in> {0..399}" and "year_start y \<le> doe" and "doe < year_end y"
  shows "year_key doe div 365 = y" "0 \<le> doe" "doe < 146097"
proof -
  have t: "365 * y \<le> year_key (year_start y)" "year_key (year_end y - 1) < 365 * (y + 1)" "0 \<le> year_start y" "year_end y \<le> 146097"
    using year_table [rule_format, of y] assms(1) by auto
  show "0 \<le> doe" "doe < 146097" using t(3,4) assms(2,3) by linarith+
  then have "365 * y \<le> year_key doe" "year_key doe < 365 * (y + 1)"
    using t year_key_mono [of "year_start y" doe] year_key_mono [of doe "year_end y - 1"] assms(2,3) by simp_all
  then show "year_key doe div 365 = y" by simp
qed

lemma year_exists:
  assumes "0 \<le> doe" and "doe < 146097"
  shows "\<exists>y \<in> {0..399}. year_start y \<le> doe \<and> doe < year_end y"
  using assms
proof (induction doe rule: int_ge_induct)
  case base
  show ?case by (rule bexI [of _ 0]) (simp_all add: year_start_def year_end_def)
next
  case (step doe)
  then obtain y where y: "y \<in> {0..399}" "year_start y \<le> doe" "doe < year_end y" by auto
  show ?case
  proof (cases "doe + 1 < year_end y")
    case False
    with y step.prems have "y \<noteq> 399" "doe + 1 = year_start (y + 1)" by (auto simp: year_end_def split: if_splits)
    moreover have "y + 1 \<in> set [0..399]" using y(1) \<open>y \<noteq> 399\<close> by auto
    ultimately show ?thesis using year_table [rule_format, of "y + 1"] by (intro bexI [of _ "y + 1"]) (auto split: if_splits)
  qed (use y in \<open>intro bexI [of _ y], auto\<close>)
qed

lemma civil_in_era:
  assumes "y \<in> {0..399}" and "year_start y \<le> doe" and "doe < year_end y" and "days + 719468 = era * 146097 + doe"
  shows "civil_from_days days
    = (case month_day (doe - year_start y) of (m, d) \<Rightarrow> (y + era * 400 + (if m \<le> 2 then 1 else 0), m, d))"
proof -
  note q = year_quotient [OF assms(1-3)]
  have era: "(days + 719468) div 146097 = era" "(days + 719468) mod 146097 = doe" using assms(4) q(2,3) by simp_all
  show ?thesis
    unfolding civil_from_days_def Let_def era q(1) [unfolded year_key_def] month_day_def year_start_def by (simp only: prod.case)
qed

lemma leap_era: "leap (y + era * 400 + 1) \<longleftrightarrow> leap (y + 1)"
proof -
  have "k dvd y + era * 400 + 1 \<longleftrightarrow> k dvd y + 1" if "k dvd (400 :: int)" for k
    using that by (metis add.assoc add.commute dvd_add_left_iff dvd_mult)
  from this [of 4] this [of 100] this [of 400] show ?thesis by (simp add: leap_def)
qed

text \<open>The date printed on a report is the calendar's: the day the clock starts from is the first of January 1970, and
  each day after it, in any year, is the next day of the Gregorian calendar.\<close>

lemma dates_follow_calendar:
  "civil_from_days 0 = (1970, 1, 1) \<and> civil_from_days (days + 1) = next_day (civil_from_days days)"
proof
  show "civil_from_days 0 = (1970, 1, 1)" by code_simp
  define era doe where "era = (days + 719468) div 146097" and "doe = (days + 719468) mod 146097"
  have z: "days + 719468 = era * 146097 + doe" "0 \<le> doe" "doe < 146097" by (simp_all add: era_def doe_def)
  obtain y where y: "y \<in> {0..399}" "year_start y \<le> doe" "doe < year_end y" using year_exists [OF z(2,3)] by blast
  have len: "year_end y - year_start y = (if leap (y + 1) then 366 else 365)" using year_table [rule_format, of y] y(1) by auto
  obtain m d where md: "month_day (doe - year_start y) = (m, d)" by fastforce
  have today: "civil_from_days days = (y + era * 400 + (if m \<le> 2 then 1 else 0), m, d)"
    using civil_in_era [OF y z(1)] md by simp
  show "civil_from_days (days + 1) = next_day (civil_from_days days)"
  proof (cases "doe + 1 < year_end y")
    case True
    then have day: "doe - year_start y \<in> set [0..364]" using y len by (auto split: if_splits)
    have step: "month_day (doe - year_start y + 1)
        = (if d < (if m = 2 then 29 else days_in_month 1 m) then (m, d + 1) else (if m = 12 then 1 else m + 1, 1))"
      "m = 2 \<Longrightarrow> d = doe - year_start y - 336" "1 \<le> m" "m \<le> 12"
      using month_table [rule_format, OF day] md by auto
    have tomorrow: "civil_from_days (days + 1)
        = (case month_day (doe - year_start y + 1) of (m, d) \<Rightarrow> (y + era * 400 + (if m \<le> 2 then 1 else 0), m, d))"
      using civil_in_era [of y "doe + 1" "days + 1" era] y True z(1) by (simp add: algebra_simps)
    have "d < 29 \<and> (d < 28 \<or> leap (y + 1))" if "m = 2" using step(2) [OF that] True len by (auto split: if_splits)
    then show ?thesis
      unfolding tomorrow today step(1) next_day_def using step(3,4) leap_era [of y era] by (auto simp: days_in_month_def)
  next
    case False
    then have last: "doe + 1 = year_end y" using y by simp
    then have "doe - year_start y = (if leap (y + 1) then 365 else 364)" using len by (simp split: if_splits)
    moreover have march: "month_day 364 = (2, 28)" "month_day 365 = (2, 29)" "month_day 0 = (3, 1)" by code_simp+
    ultimately have "(m, d) = (2, if leap (y + 1) then 29 else 28)" using md by (simp split: if_splits)
    then have "next_day (civil_from_days days) = (y + era * 400 + 1, 3, 1)"
      using today leap_era [of y era] by (simp add: next_day_def days_in_month_def)
    moreover have "civil_from_days (days + 1) = (y + era * 400 + 1, 3, 1)"
    proof (cases "y = 399")
      case True
      have zero: "year_start 0 = 0" "year_start 1 = 365" by code_simp+
      show ?thesis
        using civil_in_era [of 0 0 "days + 1" "era + 1"] last z(1) True march by (simp add: zero year_end_def)
    next
      case False
      then have "year_start (y + 1) = doe + 1" "y + 1 \<in> {0..399}" using last y(1) by (auto simp: year_end_def)
      moreover from this have "doe + 1 < year_end (y + 1)" using year_table [rule_format, of "y + 1"] by (auto split: if_splits)
      ultimately show ?thesis
        using civil_in_era [of "y + 1" "doe + 1" "days + 1" era] z(1) march by simp
    qed
    ultimately show ?thesis by simp
  qed
qed

section \<open>The catalog and the keys of a report\<close>

record bench_case =
  bc_name :: string
  bc_display :: string
  bc_group :: string
  bc_implementations :: "string list"

definition CASES :: "bench_case list" where
  "CASES =
    [\<lparr> bc_name = ''publish'', bc_display = ''publish'', bc_group = ''servers'', bc_implementations = [''tarwyn'', ''ntcore''] \<rparr>,
     \<lparr> bc_name = ''publish_client'', bc_display = ''publish'', bc_group = ''clients'', bc_implementations = [''tarwyn'', ''ntcore''] \<rparr>,
     \<lparr> bc_name = ''subscribe_client'', bc_display = ''subscribe'', bc_group = ''clients'', bc_implementations = [''tarwyn'', ''ntcore''] \<rparr>,
     \<lparr> bc_name = ''fanout'', bc_display = ''subscribe, 3 subscribers'', bc_group = ''clients'',
        bc_implementations = [''tarwyn'', ''ntcore''] \<rparr>]"

definition find_case :: "string \<Rightarrow> bench_case option" where
  "find_case name = find (\<lambda>c. bc_name c = name) CASES"

text \<open>The case, implementation, payload and rate a \<^verbatim>\<open>RETRY\<close> or \<^verbatim>\<open>CPU\<close> line names; a size is as wide as a rate.\<close>

definition side_key :: "string \<Rightarrow> (string \<times> string \<times> u64 \<times> u64) option" where
  "side_key rest =
     (case split_at (CHR 0x09) rest of
        c # i # payload # rate # _ \<Rightarrow>
          Option.bind (parse_u64 (trim payload)) (\<lambda>payload.
          Option.bind (parse_u64 (trim rate)) (\<lambda>rate. Some (trim c, trim i, payload, rate)))
      | _ \<Rightarrow> None)"

definition group_rank :: "string \<Rightarrow> nat" where
  "group_rank g = (if g = ''clients'' then 0 else if g = ''servers'' then 1 else 2)"

definition heading :: "string \<Rightarrow> string" where
  "heading g = (if g = ''servers'' then ''Servers'' else if g = ''clients'' then ''Clients'' else ''Other'')"

fun join_with :: "string \<Rightarrow> string list \<Rightarrow> string" where
  "join_with sep [] = []"
| "join_with sep [x] = x"
| "join_with sep (x # y # xs) = x @ sep @ join_with sep (y # xs)"

definition join_list :: "string list \<Rightarrow> string" where
  "join_list items =
     (case items of
        [] \<Rightarrow> []
      | [x] \<Rightarrow> x
      | _ \<Rightarrow> join_with '', '' (butlast items) @ '' and '' @ last items)"

text \<open>Every case is found under its own name, and every table has a heading of its own.\<close>

lemma catalog_sound:
  "\<forall>c \<in> set CASES. find_case (bc_name c) = Some c \<and> group_rank (bc_group c) < 2 \<and> heading (bc_group c) \<noteq> ''Other''"
  by code_simp

text \<open>The number a report was written with is the number it is read with.\<close>

lemma digits_value:
  "fold (\<lambda>c n. 10 * n + (of_char c - 48)) (show_nat k) 0 = k" "list_all is_digit (show_nat k)" "show_nat k \<noteq> []"
proof (induction k rule: show_nat.induct)
  case (1 n)
  have d: "of_char (char_of (48 + k)) = 48 + k" if "k < 10" for k :: nat
    using that by (simp add: of_char_of)
  { case 1 show ?case using d [of n] d [of "n mod 10"] "1.IH"(1) by (subst show_nat.simps) auto }
  { case 2
    have "is_digit (char_of (48 + k))" if "k < 10" for k :: nat using d [OF that] that by (simp add: is_digit_def)
    then show ?case using "1.IH"(2) by (subst show_nat.simps) auto }
  { case 3 show ?case by (subst show_nat.simps) simp }
qed

lemma parse_u64_show_nat: "parse_u64 (show_nat (unat w)) = Some w"
proof -
  have "hd (show_nat (unat w)) \<noteq> CHR ''+''"
    using digits_value(2,3) [of "unat w"] by (cases "show_nat (unat w)") (auto simp: is_digit_def)
  then have "(case show_nat (unat w) of c # t \<Rightarrow> if c = CHR ''+'' then t else show_nat (unat w) | [] \<Rightarrow> []) = show_nat (unat w)"
    using digits_value(3) [of "unat w"] by (cases "show_nat (unat w)") auto
  then show ?thesis
    using digits_value [of "unat w"] unat_less_2p [of w] by (simp add: parse_u64_def Let_def)
qed

end
